(* ===== verification/Prelude.thy ===== *)
theory Prelude
  imports Main "HOL-Library.Word"
begin

text \<open>
  Shared vocabulary of the development: the machine integers of the target, the collections
  of hints the component theories fill, and the lemmas on words and options they share.

  The crate is Linux only and documented for \<open>x86_64\<close>, so \<open>usize\<close> is a 64-bit word here;
  what depends on the width of \<open>usize\<close> alone (the conversion from \<open>u64\<close>) is kept generic in
  the width, in theory Rust_Std.
\<close>

type_synonym u64 = "64 word"
type_synonym usize = "64 word"

text \<open>A file descriptor number, and the error number of a failed system call.\<close>

type_synonym fd = int
type_synonym errno = int

text \<open>
  \<open>rust_defs\<close>: definitions of straight-line operations, unfolded by component proofs.
\<close>

named_theorems rust_defs

section \<open>Counting with machine words\<close>

text \<open>
  The byte counters only ever grow by at most the room that is left, so the two facts needed
  are that such an addition neither wraps nor passes the limit.
\<close>

lemma unat_add_room:
  fixes a n t :: "'w::len word"
  assumes "a \<le> t" and "n \<le> t - a"
  shows "unat (a + n) = unat a + unat n"
proof -
  have "unat n \<le> unat t - unat a"
    using assms by (simp add: word_le_nat_alt unat_sub)
  moreover have "unat t < 2 ^ LENGTH('w)" by (rule unsigned_less)
  moreover have "unat a \<le> unat t" using assms(1) by (simp add: word_le_nat_alt)
  ultimately have "unat a + unat n < 2 ^ LENGTH('w)" by linarith
  then show ?thesis by (simp add: unat_add_lem)
qed

lemma add_room_le:
  fixes a n t :: "'w::len word"
  assumes "a \<le> t" and "n \<le> t - a"
  shows "a + n \<le> t"
proof -
  have "unat n \<le> unat t - unat a" and "unat a \<le> unat t"
    using assms by (simp_all add: word_le_nat_alt unat_sub)
  then show ?thesis
    using unat_add_room [OF assms] by (simp add: word_le_nat_alt)
qed

lemma le_add_room:
  fixes a n t :: "'w::len word"
  assumes "a \<le> t" and "n \<le> t - a"
  shows "a \<le> a + n"
  using unat_add_room [OF assms] by (simp add: word_le_nat_alt)

lemma sub_zero_iff_word:
  fixes a b :: "'w::len word"
  shows "a - b = 0 \<longleftrightarrow> a = b"
  by simp

lemma word_pos_iff:
  fixes n :: "'w::len word"
  shows "0 < n \<longleftrightarrow> n \<noteq> 0"
  by (simp add: word_neq_0_conv)

lemma unat_pos_if:
  fixes n :: "'w::len word"
  shows "n \<noteq> 0 \<Longrightarrow> 0 < unat n"
  by (simp add: unat_gt_0)

section \<open>Options\<close>

text \<open>\<open>Option::unwrap_or\<close>.\<close>

definition unwrap_or :: "'a option \<Rightarrow> 'a \<Rightarrow> 'a" where
  "unwrap_or x d = (case x of Some v \<Rightarrow> v | None \<Rightarrow> d)"

lemma unwrap_or_simps [simp]:
  "unwrap_or None d = d" "unwrap_or (Some v) d = v"
  by (simp_all add: unwrap_or_def)

lemma take_add_split:
  "take (m + n) xs = take m xs @ take n (drop m xs)"
  by (simp add: take_add)

end
