(* ===== verification/Rust_Std.thy ===== *)
theory Rust_Std
  imports Prelude
begin

text \<open>
  What the crate uses of the Rust language and its standard library: \<open>Result\<close>, \<open>Poll\<close>,
  \<open>io::Error\<close> with its kinds, \<open>NonZeroUsize\<close>, the pops of a \<open>VecDeque\<close>, arithmetic with
  and without overflow checks, and panics as values.
\<close>

section \<open>Results, readiness and panics\<close>

datatype ('a, 'e) result = Ok 'a | Err 'e

datatype 'a poll = Pending | Ready 'a

text \<open>
  A panic ends the computation and is not caught by the crate, so an operation that may panic
  returns either its value or the panic.  The panics the code can raise are an overflow check,
  \<open>Option::expect\<close> on \<open>None\<close>, \<open>unreachable!()\<close>, and, in its tests and its example, \<open>unwrap\<close> or
  \<open>expect\<close> on \<open>Err\<close>, an index out of bounds and \<open>panic!\<close> itself.
\<close>

datatype panic = Arith_Overflow | Expect_None | Unreachable_Code | Unwrap_Err | Index_Bounds
  | Explicit_Panic

datatype 'a comp = Panic panic | Val 'a

fun bind_comp :: "'a comp \<Rightarrow> ('a \<Rightarrow> 'b comp) \<Rightarrow> 'b comp" where
  "bind_comp (Panic p) f = Panic p"
| "bind_comp (Val x) f = f x"

fun is_panic :: "'a comp \<Rightarrow> bool" where
  "is_panic (Panic p) = True"
| "is_panic (Val x) = False"

lemma bind_comp_case: "bind_comp m f = (case m of Panic p \<Rightarrow> Panic p | Val x \<Rightarrow> f x)"
  by (cases m) simp_all

lemma bind_comp_Val_iff:
  "bind_comp m f = Val y \<longleftrightarrow> (\<exists>x. m = Val x \<and> f x = Val y)"
  by (cases m) auto

lemma bind_comp_Panic_iff:
  "bind_comp m f = Panic p \<longleftrightarrow> m = Panic p \<or> (\<exists>x. m = Val x \<and> f x = Panic p)"
  by (cases m) auto

lemma bind_comp_cong [fundef_cong]:
  "m = m' \<Longrightarrow> (\<And>x. m' = Val x \<Longrightarrow> f x = f' x) \<Longrightarrow> bind_comp m f = bind_comp m' f'"
  by (cases m') auto

text \<open>\<open>Option::expect\<close>.\<close>

fun expect :: "'a option \<Rightarrow> 'a comp" where
  "expect (Some x) = Val x"
| "expect None = Panic Expect_None"

text \<open>\<open>Result::unwrap\<close>, and \<open>Result::expect\<close>, which only adds a message to the panic.\<close>

fun unwrap :: "('a, 'e) result \<Rightarrow> 'a comp" where
  "unwrap (Ok x) = Val x"
| "unwrap (Err e) = Panic Unwrap_Err"

text \<open>\<open>Result::map_err\<close> and \<open>Option::ok_or\<close>.\<close>

fun map_err :: "('e \<Rightarrow> 'g) \<Rightarrow> ('a, 'e) result \<Rightarrow> ('a, 'g) result" where
  "map_err f (Ok x) = Ok x"
| "map_err f (Err e) = Err (f e)"

fun ok_or :: "'a option \<Rightarrow> 'e \<Rightarrow> ('a, 'e) result" where
  "ok_or (Some x) e = Ok x"
| "ok_or None e = Err e"

text \<open>\<open>Result::err\<close>.\<close>

fun err_of :: "('a, 'e) result \<Rightarrow> 'e option" where
  "err_of (Ok x) = None"
| "err_of (Err e) = Some e"

section \<open>Input/output errors\<close>

text \<open>
  \<open>io::ErrorKind\<close>: the crate names \<open>WouldBlock\<close>, \<open>InvalidInput\<close> and \<open>Other\<close>, its example
  \<open>ConnectionAborted\<close>; every other kind is only ever compared with these, so it is kept by the
  error number it stands for.
\<close>

datatype error_kind = WouldBlock | InvalidInput | Other | Kind_Of errno

text \<open>
  The three representations of \<open>io::Error\<close> the crate makes: from an operating system code
  (\<open>from_raw_os_error\<close>, and the conversion from rustix's \<open>Errno\<close>), from a kind
  (\<open>ErrorKind::into\<close>), and \<open>io::Error::new(kind, message)\<close>.
\<close>

datatype io_error = Os errno | Simple error_kind | Custom error_kind string

definition EAGAIN :: errno where "EAGAIN = 11"
definition EINVAL :: errno where "EINVAL = 22"
definition EPIPE :: errno where "EPIPE = 32"

fun decode_error_kind :: "errno \<Rightarrow> error_kind" where
  "decode_error_kind n =
     (if n = EAGAIN then WouldBlock else if n = EINVAL then InvalidInput else Kind_Of n)"

fun kind :: "io_error \<Rightarrow> error_kind" where
  "kind (Os n) = decode_error_kind n"
| "kind (Simple k) = k"
| "kind (Custom k m) = k"

definition would_block :: "io_error \<Rightarrow> bool" where
  "would_block e \<longleftrightarrow> kind e = WouldBlock"

lemma would_block_simps [simp]:
  "would_block (Simple k) = (k = WouldBlock)"
  "would_block (Custom k m) = (k = WouldBlock)"
  "would_block (Os n) = (n = EAGAIN)"
  by (simp_all add: would_block_def EAGAIN_def EINVAL_def)

type_synonym 'a io_result = "('a, io_error) result"

section \<open>Build profiles and checked arithmetic\<close>

text \<open>
  Cargo turns overflow checks on in the \<open>dev\<close> profile and leaves them off in \<open>release\<close>
  (\<open>Cargo.toml\<close> does not override it): the same subtraction or addition panics in one build
  and wraps around in the other.
\<close>

datatype profile = Dev | Release

fun overflow_checks :: "profile \<Rightarrow> bool" where
  "overflow_checks Dev = True"
| "overflow_checks Release = False"

definition usize_sub :: "profile \<Rightarrow> usize \<Rightarrow> usize \<Rightarrow> usize comp" where
  "usize_sub p a b =
     (if overflow_checks p \<and> a < b then Panic Arith_Overflow else Val (a - b))"

definition usize_add :: "profile \<Rightarrow> usize \<Rightarrow> usize \<Rightarrow> usize comp" where
  "usize_add p a b =
     (if overflow_checks p \<and> 2 ^ 64 \<le> unat a + unat b then Panic Arith_Overflow
      else Val (a + b))"

lemma usize_sub_ok [simp]: "b \<le> a \<Longrightarrow> usize_sub p a b = Val (a - b)"
  by (auto simp: usize_sub_def)

lemma usize_add_ok: "unat (a + b) = unat a + unat b \<Longrightarrow> usize_add p a b = Val (a + b)"
proof -
  assume "unat (a + b) = unat a + unat b"
  moreover have "unat (a + b) < 2 ^ LENGTH(64)" by (rule unsigned_less)
  ultimately show ?thesis by (simp add: usize_add_def)
qed

lemma usize_add_room:
  "a \<le> t \<Longrightarrow> n \<le> t - a \<Longrightarrow> usize_add p a n = Val (a + n)"
  by (rule usize_add_ok) (rule unat_add_room)

text \<open>\<open>TryFrom\<close> from \<open>u64\<close> to a \<open>usize\<close> of any width.\<close>

definition try_into_usize :: "u64 \<Rightarrow> 'w::len word option" where
  "try_into_usize x = (if unat x < 2 ^ LENGTH('w) then Some (ucast x) else None)"

lemma try_into_usize_64 [simp]: "(try_into_usize x :: usize option) = Some x"
proof -
  have "unat x < 2 ^ LENGTH(64)" by (rule unsigned_less)
  then show ?thesis by (simp add: try_into_usize_def)
qed

lemma try_into_usize_unat:
  "try_into_usize x = Some (y :: 'w::len word) \<Longrightarrow> unat y = unat x"
  by (auto simp: try_into_usize_def unsigned_ucast_eq take_bit_nat_eq_self split: if_splits)

section \<open>Non-zero sizes\<close>

text \<open>\<open>NonZeroUsize\<close>: the non-zero words, a subtype as in Rust.\<close>

typedef nonzero_usize = "{w :: usize. w \<noteq> 0}"
  morphisms nz_get Abs_nonzero
  by (rule exI [of _ 1]) simp

definition nz_new :: "usize \<Rightarrow> nonzero_usize option" where
  "nz_new w = (if w = 0 then None else Some (Abs_nonzero w))"

lemma nz_get_pos [simp]: "nz_get n \<noteq> 0"
  using nz_get [of n] by simp

lemma nz_get_Abs [simp]: "w \<noteq> 0 \<Longrightarrow> nz_get (Abs_nonzero w) = w"
  by (simp add: Abs_nonzero_inverse)

lemma nz_new_None_iff [simp]: "nz_new w = None \<longleftrightarrow> w = 0"
  by (simp add: nz_new_def)

lemma nz_new_Some_iff: "nz_new w = Some n \<longleftrightarrow> nz_get n = w"
  by (auto simp: nz_new_def nz_get_inverse)

lemma nz_new_get [simp]: "nz_new (nz_get n) = Some n"
  by (simp add: nz_new_Some_iff)

text \<open>\<open>NonZeroUsize\<close> is compared by its value, as its derived \<open>Eq\<close> and \<open>Ord\<close> do.\<close>

instantiation nonzero_usize :: "{linorder, equal}"
begin

definition less_eq_nonzero_usize :: "nonzero_usize \<Rightarrow> nonzero_usize \<Rightarrow> bool" where
  nz_le_iff: "a \<le> b \<longleftrightarrow> nz_get a \<le> nz_get b"

definition less_nonzero_usize :: "nonzero_usize \<Rightarrow> nonzero_usize \<Rightarrow> bool" where
  nz_less_iff: "a < b \<longleftrightarrow> nz_get a < nz_get b"

definition equal_nonzero_usize :: "nonzero_usize \<Rightarrow> nonzero_usize \<Rightarrow> bool" where
  "equal_nonzero_usize a b \<longleftrightarrow> nz_get a = nz_get b"

instance
proof
  fix a b :: nonzero_usize
  show "a < b \<longleftrightarrow> a \<le> b \<and> \<not> b \<le> a"
    by (auto simp: nz_le_iff nz_less_iff)
  show "a \<le> b \<Longrightarrow> b \<le> a \<Longrightarrow> a = b"
    by (simp add: nz_le_iff nz_get_inject [symmetric])
qed (auto simp: nz_le_iff equal_nonzero_usize_def nz_get_inject)

end

section \<open>Double-ended queues\<close>

text \<open>\<open>VecDeque::pop_front\<close>: the removed element, if any, and the queue that is left.\<close>

fun pop_front :: "'a list \<Rightarrow> 'a option \<times> 'a list" where
  "pop_front [] = (None, [])"
| "pop_front (x # xs) = (Some x, xs)"

end
