(* ===== verification/Machine.thy ===== *)
theory Machine
  imports Rust_Std
begin

text \<open>
  Rust's \<open>loop { ... }\<close> and the polling of a future, once for the whole development.  A loop
  body is a function that either continues with a new state or leaves the loop with a result;
  \<open>drive\<close> runs it, and is \<open>None\<close> exactly when the loop never ends.  The locales state the rules
  for such loops: an invariant (partial correctness) and a well-founded relation (the loop ends).
\<close>

datatype ('st, 'r) flow = Continue 'st | Break 'r

partial_function (option) drive :: "('st \<Rightarrow> ('st, 'r) flow) \<Rightarrow> 'st \<Rightarrow> 'r option" where
  "drive step st =
     (case step st of
        Continue st' \<Rightarrow> drive step st'
      | Break r \<Rightarrow> Some r)"

lemma drive_Break: "step st = Break r \<Longrightarrow> drive step st = Some r"
  by (simp add: drive.simps)

lemma drive_Continue: "step st = Continue st' \<Longrightarrow> drive step st = drive step st'"
  by (subst drive.simps) simp

section \<open>Invariants of a loop\<close>

locale loop_inv =
  fixes step :: "'st \<Rightarrow> ('st, 'r) flow"
    and inv :: "'st \<Rightarrow> bool"
    and post :: "'r \<Rightarrow> bool"
  assumes continue_inv: "inv st \<Longrightarrow> step st = Continue st' \<Longrightarrow> inv st'"
    and break_post: "inv st \<Longrightarrow> step st = Break r \<Longrightarrow> post r"
begin

lemma drive_post:
  assumes ret: "drive step st = Some r" and inv: "inv st"
  shows "post r"
proof -
  have "step = step \<longrightarrow> inv st \<longrightarrow> post r"
  proof (rule drive.raw_induct [where P = "\<lambda>s st r. s = step \<longrightarrow> inv st \<longrightarrow> post r", OF _ ret])
    fix f s st r
    assume IH: "\<And>s st r. f s st = Some r \<Longrightarrow> s = step \<longrightarrow> inv st \<longrightarrow> post r"
      and eq: "(case s st of Continue st' \<Rightarrow> f s st' | Break r \<Rightarrow> Some r) = Some r"
    show "s = step \<longrightarrow> inv st \<longrightarrow> post r"
      using eq IH by (auto split: flow.splits intro: break_post dest: continue_inv)
  qed
  with inv show ?thesis by simp
qed

text \<open>Two bodies that agree where the invariant holds are the same loop.\<close>

lemma drive_same:
  assumes same: "\<And>st. inv st \<Longrightarrow> step' st = step st" and inv: "inv st"
  shows "drive step' st = drive step st"
proof -
  have to: "drive step' st = Some r" if "drive step st = Some r" for r
  proof -
    have "step = step \<longrightarrow> inv st \<longrightarrow> drive step' st = Some r"
    proof (rule drive.raw_induct [where P = "\<lambda>s st r. s = step \<longrightarrow> inv st \<longrightarrow> drive step' st = Some r",
          OF _ that])
      fix f s st r
      assume IH: "\<And>s st r. f s st = Some r \<Longrightarrow> s = step \<longrightarrow> inv st \<longrightarrow> drive step' st = Some r"
        and eq: "(case s st of Continue st' \<Rightarrow> f s st' | Break r \<Rightarrow> Some r) = Some r"
      show "s = step \<longrightarrow> inv st \<longrightarrow> drive step' st = Some r"
        using eq IH same continue_inv
        by (cases "step st") (auto simp: drive_Break drive_Continue)
    qed
    with inv show ?thesis by simp
  qed
  have from': "drive step st = Some r" if "drive step' st = Some r" for r
  proof -
    have "step' = step' \<longrightarrow> inv st \<longrightarrow> drive step st = Some r"
    proof (rule drive.raw_induct [where P = "\<lambda>s st r. s = step' \<longrightarrow> inv st \<longrightarrow> drive step st = Some r",
          OF _ that])
      fix f s st r
      assume IH: "\<And>s st r. f s st = Some r \<Longrightarrow> s = step' \<longrightarrow> inv st \<longrightarrow> drive step st = Some r"
        and eq: "(case s st of Continue st' \<Rightarrow> f s st' | Break r \<Rightarrow> Some r) = Some r"
      show "s = step' \<longrightarrow> inv st \<longrightarrow> drive step st = Some r"
        using eq IH same continue_inv
        by (cases "step st") (auto simp: drive_Break drive_Continue)
    qed
    with inv show ?thesis by simp
  qed
  show ?thesis
    using to from' by (cases "drive step st"; cases "drive step' st") auto
qed

end

text \<open>The same loop with a relation that every round descends in: it returns, and well.\<close>

locale loop_total = loop_inv step inv post
  for step :: "'st \<Rightarrow> ('st, 'r) flow" and inv :: "'st \<Rightarrow> bool" and post :: "'r \<Rightarrow> bool" +
  fixes descent :: "('st \<times> 'st) set"
  assumes wf_descent: "wf descent"
    and continue_descends: "inv st \<Longrightarrow> step st = Continue st' \<Longrightarrow> (st', st) \<in> descent"
begin

lemma drive_returns:
  assumes "inv st"
  shows "\<exists>r. drive step st = Some r"
  using wf_descent assms
proof (induction st rule: wf_induct_rule)
  case (less st)
  show ?case
  proof (cases "step st")
    case (Continue st')
    with less have "\<exists>r. drive step st' = Some r"
      by (blast intro: continue_inv continue_descends)
    with Continue show ?thesis by (simp add: drive_Continue)
  next
    case (Break r)
    then show ?thesis by (simp add: drive_Break)
  qed
qed

lemma drive_total:
  "inv st \<Longrightarrow> \<exists>r. drive step st = Some r \<and> post r"
  using drive_returns drive_post by blast

end

text \<open>
  A loop that carries more than another one but decides in the same way, seen through \<open>view\<close>: it
  ends when the other does, with the same result.
\<close>

locale loop_sim =
  fixes step :: "'st \<Rightarrow> ('st, 'r) flow"
    and full_step :: "'u \<Rightarrow> ('u, 'q) flow"
    and view :: "'u \<Rightarrow> 'st" and view_out :: "'q \<Rightarrow> 'r"
  assumes step_view: "step (view u) = map_flow view view_out (full_step u)"
begin

lemma step_Continue: "full_step u = Continue u' \<Longrightarrow> step (view u) = Continue (view u')"
  by (simp add: step_view)

lemma step_Break: "full_step u = Break q \<Longrightarrow> step (view u) = Break (view_out q)"
  by (simp add: step_view)

lemma drive_view_to: "drive full_step u = Some q \<Longrightarrow> drive step (view u) = Some (view_out q)"
proof -
  assume ret: "drive full_step u = Some q"
  have "full_step = full_step \<longrightarrow> drive step (view u) = Some (view_out q)"
  proof (rule drive.raw_induct [where P = "\<lambda>s u q. s = full_step \<longrightarrow>
        drive step (view u) = Some (view_out q)", OF _ ret])
    fix f s u q
    assume IH: "\<And>s u q. f s u = Some q \<Longrightarrow> s = full_step \<longrightarrow> drive step (view u) = Some (view_out q)"
      and eq: "(case s u of Continue u' \<Rightarrow> f s u' | Break q \<Rightarrow> Some q) = Some q"
    show "s = full_step \<longrightarrow> drive step (view u) = Some (view_out q)"
      using eq IH step_Continue [of u] step_Break [of u]
      by (cases "full_step u") (auto simp: drive_Break drive_Continue)
  qed
  then show ?thesis by simp
qed

lemma drive_view_from:
  assumes ret: "drive step st = Some r"
  shows "view u = st \<Longrightarrow> \<exists>q. drive full_step u = Some q"
proof -
  have "step = step \<longrightarrow> (\<forall>u. view u = st \<longrightarrow> (\<exists>q. drive full_step u = Some q))"
  proof (rule drive.raw_induct [where P = "\<lambda>s st r. s = step \<longrightarrow>
        (\<forall>u. view u = st \<longrightarrow> (\<exists>q. drive full_step u = Some q))", OF _ ret])
    fix f s st r
    assume IH: "\<And>s st r. f s st = Some r \<Longrightarrow> s = step \<longrightarrow>
        (\<forall>u. view u = st \<longrightarrow> (\<exists>q. drive full_step u = Some q))"
      and eq: "(case s st of Continue st' \<Rightarrow> f s st' | Break r \<Rightarrow> Some r) = Some r"
    show "s = step \<longrightarrow> (\<forall>u. view u = st \<longrightarrow> (\<exists>q. drive full_step u = Some q))"
    proof (intro impI allI)
      fix u assume s: "s = step" and u: "view u = st"
      show "\<exists>q. drive full_step u = Some q"
      proof (cases "full_step u")
        case (Continue u')
        with eq s u have "f step (view u') = Some r" by (auto simp: step_Continue)
        with IH Continue show ?thesis by (auto simp: drive_Continue)
      qed (simp add: drive_Break)
    qed
  qed
  then show "view u = st \<Longrightarrow> \<exists>q. drive full_step u = Some q" by simp
qed

lemma drive_view: "map_option view_out (drive full_step u) = drive step (view u)"
proof (cases "drive step (view u)")
  case None
  then show ?thesis using drive_view_to by (cases "drive full_step u") auto
next
  case (Some r)
  then obtain q where "drive full_step u = Some q" using drive_view_from by blast
  then show ?thesis using drive_view_to by simp
qed

end

section \<open>Awaiting a future\<close>

text \<open>
  \<open>poll_fn(|cx| ...).await\<close>: the executor polls; on \<open>Pending\<close> the task parks, the surroundings
  move on (\<open>park\<close>, a parameter: what kernel, peers and reactor do until the task is woken), and
  the executor polls again.  A poll that never returns makes the whole await not return.
\<close>

definition await_step ::
    "('st \<Rightarrow> ('a poll \<times> 'st) comp option) \<Rightarrow> ('st \<Rightarrow> 'st) \<Rightarrow> 'st
      \<Rightarrow> ('st, ('a \<times> 'st) comp option) flow" where
  "await_step pollf park st =
     (case pollf st of
        None \<Rightarrow> Break None
      | Some (Panic p) \<Rightarrow> Break (Some (Panic p))
      | Some (Val (Pending, st')) \<Rightarrow> Continue (park st')
      | Some (Val (Ready x, st')) \<Rightarrow> Break (Some (Val (x, st'))))"

definition await ::
    "('st \<Rightarrow> ('a poll \<times> 'st) comp option) \<Rightarrow> ('st \<Rightarrow> 'st) \<Rightarrow> 'st
      \<Rightarrow> ('a \<times> 'st) comp option" where
  "await pollf park st = Option.bind (drive (await_step pollf park) st) id"

lemma await_Ready:
  "pollf st = Some (Val (Ready x, st')) \<Longrightarrow> await pollf park st = Some (Val (x, st'))"
  by (simp add: await_def await_step_def drive_Break)

lemma await_Pending:
  "pollf st = Some (Val (Pending, st')) \<Longrightarrow> await pollf park st = await pollf park (park st')"
  by (simp add: await_def await_step_def drive_Continue)

lemma await_Panic:
  "pollf st = Some (Panic p) \<Longrightarrow> await pollf park st = Some (Panic p)"
  by (simp add: await_def await_step_def drive_Break)

text \<open>A future that carries more than another one, with the same answers: so does awaiting it.\<close>

abbreviation view_ready :: "('u \<Rightarrow> 'st) \<Rightarrow> ('a \<times> 'u) comp option \<Rightarrow> ('a \<times> 'st) comp option" where
  "view_ready view \<equiv> map_option (map_comp (map_prod id view))"

locale future_sim =
  fixes pollf :: "'st \<Rightarrow> ('a poll \<times> 'st) comp option" and park :: "'st \<Rightarrow> 'st"
    and full_pollf :: "'u \<Rightarrow> ('a poll \<times> 'u) comp option" and full_park :: "'u \<Rightarrow> 'u"
    and view :: "'u \<Rightarrow> 'st"
  assumes poll_view: "view_ready view (full_pollf u) = pollf (view u)"
    and park_view: "view (full_park u) = park (view u)"

sublocale future_sim \<subseteq> awaiting: loop_sim "await_step pollf park"
    "await_step full_pollf full_park" view "view_ready view"
proof
  show "await_step pollf park (view u)
      = map_flow view (view_ready view) (await_step full_pollf full_park u)" for u
    using poll_view [of u, symmetric]
    by (auto simp: await_step_def park_view split: option.splits comp.splits poll.splits)
qed

context future_sim
begin

lemma await_view: "view_ready view (await full_pollf full_park u) = await pollf park (view u)"
  unfolding await_def awaiting.drive_view [symmetric]
  by (cases "drive (await_step full_pollf full_park) u") auto

end

text \<open>
  The states in which an await is parked: after a pending poll, of the future as it was started or
  as it was woken from an earlier wait.  A future that is dropped is dropped in one of these.
\<close>

inductive paused ::
    "('st \<Rightarrow> ('a poll \<times> 'st) comp option) \<Rightarrow> ('st \<Rightarrow> 'st) \<Rightarrow> 'st \<Rightarrow> 'st \<Rightarrow> bool"
  for pollf :: "'st \<Rightarrow> ('a poll \<times> 'st) comp option" and park start where
  first_pause: "pollf start = Some (Val (Pending, st)) \<Longrightarrow> paused pollf park start st"
| next_pause: "paused pollf park start st1 \<Longrightarrow> pollf (park st1) = Some (Val (Pending, st)) \<Longrightarrow>
    paused pollf park start st"

text \<open>What every poll and every wait keeps holds at every pause and at the end.\<close>

fun ended :: "('st \<Rightarrow> bool) \<Rightarrow> ('a \<times> 'st) comp option \<Rightarrow> bool" where
  "ended J (Some (Val (x, st))) = J st"
| "ended J out = True"

locale pause_inv =
  fixes pollf :: "'st \<Rightarrow> ('a poll \<times> 'st) comp option" and park :: "'st \<Rightarrow> 'st"
    and J :: "'st \<Rightarrow> bool"
  assumes pending_inv: "J st \<Longrightarrow> pollf st = Some (Val (Pending, st')) \<Longrightarrow> J st'"
    and parked_inv: "J st \<Longrightarrow> J (park st)"
begin

lemma paused_inv: "paused pollf park start st \<Longrightarrow> J start \<Longrightarrow> J st"
  by (induction rule: paused.induct) (auto intro: pending_inv parked_inv)

end

text \<open>What an await gives is what its last poll gave, in a state in which the invariant held.\<close>

sublocale pause_inv \<subseteq> last: loop_inv "await_step pollf park" J
  "\<lambda>out. \<forall>x st'. out = Some (Val (x, st')) \<longrightarrow> (\<exists>st. J st \<and> pollf st = Some (Val (Ready x, st')))"
  by unfold_locales
    (auto simp: await_step_def split: option.splits comp.splits poll.splits
      intro: parked_inv [OF pending_inv])

context pause_inv begin

lemma awaited_last:
  assumes "await pollf park st = Some (Val (x, st'))" and "J st"
  shows "\<exists>st. J st \<and> pollf st = Some (Val (Ready x, st'))"
proof -
  from assms(1) have "drive (await_step pollf park) st = Some (Some (Val (x, st')))"
    by (simp add: await_def bind_eq_Some_conv)
  from last.drive_post [OF this assms(2)] show ?thesis by blast
qed

end

locale future_inv = pause_inv pollf park J
  for pollf :: "'st \<Rightarrow> ('a poll \<times> 'st) comp option" and park :: "'st \<Rightarrow> 'st"
    and J :: "'st \<Rightarrow> bool" +
  assumes ready_inv: "J st \<Longrightarrow> pollf st = Some (Val (Ready x, st')) \<Longrightarrow> J st'"

sublocale future_inv \<subseteq> awaited: loop_inv "await_step pollf park" J "ended J"
proof
  fix st st' :: 'st and out
  assume J: "J st"
  note kept = pending_inv [OF J] ready_inv [OF J] parked_inv [OF pending_inv [OF J]]
  show "J st'" if "await_step pollf park st = Continue st'"
    using that kept(3) by (auto simp: await_step_def split: option.splits comp.splits poll.splits)
  show "ended J out" if "await_step pollf park st = Break out"
    using that kept(2) by (auto simp: await_step_def split: option.splits comp.splits poll.splits)
qed

text \<open>A loop that comes back to the same state never ends.\<close>

interpretation stuck: loop_inv step "\<lambda>s. s = st \<and> step st = Continue st" "\<lambda>_. False"
  for step :: "'st \<Rightarrow> ('st, 'r) flow" and st
  by unfold_locales auto

lemma drive_stuck: "step st = Continue st \<Longrightarrow> drive step st = None"
  using stuck.drive_post [of step st] by (cases "drive step st") auto

lemma await_stuck:
  "pollf st = Some (Val (Pending, st')) \<Longrightarrow> park st' = st \<Longrightarrow> await pollf park st = None"
  by (simp add: await_def await_step_def drive_stuck)

end
