(* ===== verification/Pipe.thy ===== *)
theory Pipe
  imports Machine
begin

text \<open>
  The pipe that buffers a transfer (\<open>src/pipe.rs\<close>), on top of the system calls it makes.

  The calls go through the rustix package, so they are a parameter: a record of functions over
  the state \<open>'e\<close> of the surroundings (kernel, peers, runtime).  Dropping an \<open>OwnedFd\<close> closes it;
  every place where the code drops one is written out as a call of \<open>sys_close\<close>.
\<close>

section \<open>System calls\<close>

datatype pipe_flag = PIPE_NONBLOCK | PIPE_CLOEXEC

datatype splice_flag = SPLICE_NONBLOCK

text \<open>
  \<open>sys_splice fd_in off_in fd_out off_out len flags\<close> also returns what it stores through the two
  offset pointers; the values are meaningless where no pointer was passed.
\<close>

record 'e os =
  sys_pipe :: "pipe_flag list \<Rightarrow> 'e \<Rightarrow> (fd \<times> fd, errno) result \<times> 'e"
  sys_setpipe_size :: "fd \<Rightarrow> usize \<Rightarrow> 'e \<Rightarrow> (usize, errno) result \<times> 'e"
  sys_getpipe_size :: "fd \<Rightarrow> 'e \<Rightarrow> (usize, errno) result \<times> 'e"
  sys_splice :: "fd \<Rightarrow> u64 option \<Rightarrow> fd \<Rightarrow> u64 option \<Rightarrow> usize \<Rightarrow> splice_flag list \<Rightarrow> 'e
    \<Rightarrow> (usize, errno) result \<times> u64 \<times> u64 \<times> 'e"
  sys_close :: "fd \<Rightarrow> 'e \<Rightarrow> 'e"

section \<open>The pipe\<close>

definition MAXIMUM_PIPE_SIZE :: nonzero_usize where
  "MAXIMUM_PIPE_SIZE = Abs_nonzero (push_bit 20 1)"

definition DEFAULT_PIPE_SIZE :: nonzero_usize where
  "DEFAULT_PIPE_SIZE = Abs_nonzero (push_bit 16 1)"

lemma pipe_size_constants [simp]:
  "nz_get MAXIMUM_PIPE_SIZE = 1048576" "nz_get DEFAULT_PIPE_SIZE = 65536"
  by (simp_all add: MAXIMUM_PIPE_SIZE_def DEFAULT_PIPE_SIZE_def push_bit_eq_mult)

record pipe =
  pipe_drain_fd :: "fd option"
  pipe_fill_fd :: "fd option"
  pipe_size_field :: nonzero_usize

text \<open>Dropping an \<open>OwnedFd\<close>, an \<open>Option<OwnedFd>\<close>, and a whole \<open>Pipe\<close> (fields in order).\<close>

fun drop_fd :: "'e os \<Rightarrow> fd option \<Rightarrow> 'e \<Rightarrow> 'e" where
  "drop_fd os None e = e"
| "drop_fd os (Some d) e = sys_close os d e"

definition drop_pipe :: "'e os \<Rightarrow> pipe \<Rightarrow> 'e \<Rightarrow> 'e" where
  "drop_pipe os p e = drop_fd os (pipe_fill_fd p) (drop_fd os (pipe_drain_fd p) e)"

text \<open>
  The size part of \<open>Pipe::new\<close>: ask for the maximum, fall back on whatever size the kernel
  reports.  The outer result is the \<open>?\<close> of \<open>fcntl_getpipe_size\<close>; the inner option becomes an
  error when the kernel reports a zero size.
\<close>

definition negotiate_size :: "'e os \<Rightarrow> fd \<Rightarrow> 'e \<Rightarrow> nonzero_usize io_result \<times> 'e" where
  "negotiate_size os drain_fd e =
     (let too_small = Custom Other ''failed to set pipe size, using default size''
      in case sys_setpipe_size os drain_fd (nz_get MAXIMUM_PIPE_SIZE) e of
           (Ok sz, e1) \<Rightarrow> (ok_or (nz_new sz) too_small, e1)
         | (Err _, e1) \<Rightarrow>
             (case sys_getpipe_size os drain_fd e1 of
                (Ok sz, e2) \<Rightarrow> (ok_or (nz_new sz) too_small, e2)
              | (Err en, e2) \<Rightarrow> (Err (Os en), e2)))"

text \<open>
  \<open>Pipe::new\<close>.  On an early return the closure's parameters go out of scope: both ends of the
  fresh pipe are closed, the one bound last first.
\<close>

definition pipe_new :: "'e os \<Rightarrow> 'e \<Rightarrow> pipe io_result \<times> 'e" where
  "pipe_new os e =
     (case sys_pipe os [PIPE_NONBLOCK, PIPE_CLOEXEC] e of
        (Err en, e1) \<Rightarrow> (Err (Os en), e1)
      | (Ok (drain_fd, fill_fd), e1) \<Rightarrow>
          (case negotiate_size os drain_fd e1 of
             (Err er, e2) \<Rightarrow> (Err er, sys_close os drain_fd (sys_close os fill_fd e2))
           | (Ok sz, e2) \<Rightarrow>
               (Ok \<lparr>pipe_drain_fd = Some drain_fd, pipe_fill_fd = Some fill_fd,
                    pipe_size_field = sz\<rparr>, e2)))"

text \<open>\<open>Pipe::with_pipe_size\<close> consumes the pipe, so on an error the pipe is dropped.\<close>

definition pipe_with_pipe_size ::
    "'e os \<Rightarrow> pipe \<Rightarrow> usize \<Rightarrow> 'e \<Rightarrow> pipe io_result \<times> 'e" where
  "pipe_with_pipe_size os p n e =
     (case pipe_fill_fd p of
        None \<Rightarrow>
          (Err (Custom Other ''fill-side file descriptor is not available''), drop_pipe os p e)
      | Some fill_fd \<Rightarrow>
          (case sys_setpipe_size os fill_fd n e of
             (Err en, e1) \<Rightarrow> (Err (Os en), drop_pipe os p e1)
           | (Ok new_size, e1) \<Rightarrow>
               (case ok_or (nz_new new_size) (Custom Other ''fcntl returned zero pipe size'') of
                  Err er \<Rightarrow> (Err er, drop_pipe os p e1)
                | Ok sz \<Rightarrow> (Ok (p\<lparr>pipe_size_field := sz\<rparr>), e1))))"

definition set_drain_done :: "'e os \<Rightarrow> pipe \<Rightarrow> 'e \<Rightarrow> pipe \<times> 'e" where
  "set_drain_done os p e = (p\<lparr>pipe_drain_fd := None\<rparr>, drop_fd os (pipe_drain_fd p) e)"

definition is_drain_done :: "pipe \<Rightarrow> bool" where
  "is_drain_done p \<longleftrightarrow> pipe_drain_fd p = None"

definition fill_fd :: "pipe \<Rightarrow> fd option" where
  "fill_fd p = pipe_fill_fd p"

definition is_fill_done :: "pipe \<Rightarrow> bool" where
  "is_fill_done p \<longleftrightarrow> pipe_fill_fd p = None"

definition set_fill_done :: "'e os \<Rightarrow> pipe \<Rightarrow> 'e \<Rightarrow> pipe \<times> 'e" where
  "set_fill_done os p e = (p\<lparr>pipe_fill_fd := None\<rparr>, drop_fd os (pipe_fill_fd p) e)"

definition drain_fd :: "pipe \<Rightarrow> fd option" where
  "drain_fd p = pipe_drain_fd p"

definition pipe_size :: "pipe \<Rightarrow> nonzero_usize" where
  "pipe_size p = pipe_size_field p"

lemmas pipe_accessors =
  is_drain_done_def is_fill_done_def fill_fd_def drain_fd_def pipe_size_def

lemmas pipe_steps = set_drain_done_def set_fill_done_def

declare pipe_accessors [rust_defs] pipe_steps [rust_defs]

section \<open>Who owns which descriptor\<close>

text \<open>
  What pipe(2), fcntl(2), splice(2) and close(2) document about descriptors, over an observer
  \<open>opened\<close> of the descriptors that are open: a new pipe has two fresh ends, close removes one
  descriptor, and no other call opens or closes anything.
\<close>

definition fd_laws :: "'e os \<Rightarrow> ('e \<Rightarrow> fd set) \<Rightarrow> bool" where
  "fd_laws os opened \<longleftrightarrow>
     (\<forall>fl e a b e'. sys_pipe os fl e = (Ok (a, b), e') \<longrightarrow>
        a \<noteq> b \<and> a \<notin> opened e \<and> b \<notin> opened e \<and> opened e' = {a, b} \<union> opened e) \<and>
     (\<forall>fl e en e'. sys_pipe os fl e = (Err en, e') \<longrightarrow> opened e' = opened e) \<and>
     (\<forall>d n e. opened (snd (sys_setpipe_size os d n e)) = opened e) \<and>
     (\<forall>d e. opened (snd (sys_getpipe_size os d e)) = opened e) \<and>
     (\<forall>d1 o1 d2 o2 n fl e.
        opened (snd (snd (snd (sys_splice os d1 o1 d2 o2 n fl e)))) = opened e) \<and>
     (\<forall>d e. opened (sys_close os d e) = opened e - {d})"

lemma fd_laws_pipe_Ok:
  "fd_laws os opened \<Longrightarrow> sys_pipe os fl e = (Ok (a, b), e') \<Longrightarrow>
     a \<noteq> b \<and> a \<notin> opened e \<and> b \<notin> opened e \<and> opened e' = {a, b} \<union> opened e"
  unfolding fd_laws_def by (drule conjunct1) blast

lemma fd_laws_pipe_Err:
  "fd_laws os opened \<Longrightarrow> sys_pipe os fl e = (Err en, e') \<Longrightarrow> opened e' = opened e"
  unfolding fd_laws_def by (drule conjunct2, drule conjunct1) blast

lemma fd_laws_setpipe:
  "fd_laws os opened \<Longrightarrow> sys_setpipe_size os d n e = (r, e') \<Longrightarrow> opened e' = opened e"
  unfolding fd_laws_def by (metis snd_conv)

lemma fd_laws_getpipe:
  "fd_laws os opened \<Longrightarrow> sys_getpipe_size os d e = (r, e') \<Longrightarrow> opened e' = opened e"
  unfolding fd_laws_def by (metis snd_conv)

lemma fd_laws_splice:
  "fd_laws os opened \<Longrightarrow> sys_splice os d1 o1 d2 o2 n fl e = (r, x, y, e')
     \<Longrightarrow> opened e' = opened e"
  unfolding fd_laws_def by (metis snd_conv)

lemma fd_laws_close:
  "fd_laws os opened \<Longrightarrow> opened (sys_close os d e) = opened e - {d}"
  unfolding fd_laws_def by blast

lemmas fd_law_dests =
  fd_laws_pipe_Ok fd_laws_pipe_Err fd_laws_setpipe fd_laws_getpipe fd_laws_splice


definition pipe_fds :: "pipe \<Rightarrow> fd set" where
  "pipe_fds p = set_option (pipe_drain_fd p) \<union> set_option (pipe_fill_fd p)"

lemma opened_drop_fd:
  "fd_laws os opened \<Longrightarrow> opened (drop_fd os d e) = opened e - set_option d"
  by (cases d) (auto simp: fd_laws_close)

lemma opened_drop_pipe:
  "fd_laws os opened \<Longrightarrow> opened (drop_pipe os p e) = opened e - pipe_fds p"
  by (auto simp: drop_pipe_def pipe_fds_def opened_drop_fd)

lemma negotiate_size_opened:
  "fd_laws os opened \<Longrightarrow> negotiate_size os d e = (r, e') \<Longrightarrow> opened e' = opened e"
  by (auto simp: negotiate_size_def Let_def split: prod.splits result.splits
      dest: fd_laws_setpipe fd_laws_getpipe)

text \<open>A new pipe has both its ends.\<close>

lemma pipe_new_ends:
  assumes "pipe_new os e = (Ok p, e')"
  obtains a b sz where
    "p = \<lparr>pipe_drain_fd = Some a, pipe_fill_fd = Some b, pipe_size_field = sz\<rparr>"
  using assms by (auto simp: pipe_new_def split: prod.splits result.splits)

text \<open>Every way of building, resizing and closing a pipe accounts for every descriptor.\<close>

lemma pipe_new_opened_Ok:
  assumes laws: "fd_laws os opened" and new: "pipe_new os e = (Ok p, e')"
  shows "pipe_fds p \<inter> opened e = {}" and "opened e' = pipe_fds p \<union> opened e"
proof -
  from new obtain a b e1 where p: "sys_pipe os [PIPE_NONBLOCK, PIPE_CLOEXEC] e = (Ok (a, b), e1)"
    and n: "\<exists>sz. negotiate_size os a e1 = (Ok sz, e')"
    and fds: "pipe_fds p = {a, b}"
    by (auto simp: pipe_new_def pipe_fds_def insert_commute split: prod.splits result.splits)
  from fd_laws_pipe_Ok [OF laws p] n laws
  show "pipe_fds p \<inter> opened e = {}" and "opened e' = pipe_fds p \<union> opened e"
    by (auto simp: fds dest!: negotiate_size_opened)
qed

lemma pipe_new_opened_Err:
  assumes laws: "fd_laws os opened" and new: "pipe_new os e = (Err er, e')"
  shows "opened e' = opened e"
proof (cases "\<exists>en. sys_pipe os [PIPE_NONBLOCK, PIPE_CLOEXEC] e = (Err en, e')")
  case True
  with laws show ?thesis by (blast dest: fd_laws_pipe_Err)
next
  case False
  with new obtain a b e1 e2 where
    p: "sys_pipe os [PIPE_NONBLOCK, PIPE_CLOEXEC] e = (Ok (a, b), e1)"
    and n: "negotiate_size os a e1 = (Err er, e2)"
    and e': "e' = sys_close os a (sys_close os b e2)"
    by (auto simp: pipe_new_def split: prod.splits result.splits)
  have "opened e' = opened e2 - {b} - {a}"
    by (simp add: e' fd_laws_close [OF laws])
  also have "opened e2 = {a, b} \<union> opened e"
    using fd_laws_pipe_Ok [OF laws p] negotiate_size_opened [OF laws n] by simp
  finally show ?thesis
    using fd_laws_pipe_Ok [OF laws p] by blast
qed

lemma pipe_with_pipe_size_opened_Ok:
  assumes laws: "fd_laws os opened" and run: "pipe_with_pipe_size os p n e = (Ok p', e')"
  shows "pipe_fds p' = pipe_fds p" and "opened e' = opened e"
  using run fd_laws_setpipe [OF laws]
  by (auto simp: pipe_with_pipe_size_def pipe_fds_def
      split: option.splits prod.splits result.splits)

lemma pipe_with_pipe_size_opened_Err:
  assumes laws: "fd_laws os opened" and run: "pipe_with_pipe_size os p n e = (Err er, e')"
  shows "opened e' = opened e - pipe_fds p"
proof -
  from run obtain e1 where e': "e' = drop_pipe os p e1"
    and e1: "e1 = e \<or> (\<exists>d r. sys_setpipe_size os d n e = (r, e1))"
    by (auto simp: pipe_with_pipe_size_def split: option.splits prod.splits result.splits)
  from e1 have "opened e1 = opened e"
    using fd_laws_setpipe [OF laws] by blast
  with e' laws show ?thesis by (simp add: opened_drop_pipe)
qed

text \<open>The size of a pipe is always what the kernel last reported, and never zero.\<close>

lemma negotiate_size_reported:
  "negotiate_size os d e = (Ok sz, e') \<Longrightarrow>
     sys_setpipe_size os d (nz_get MAXIMUM_PIPE_SIZE) e = (Ok (nz_get sz), e') \<or>
     (\<exists>en e1. sys_setpipe_size os d (nz_get MAXIMUM_PIPE_SIZE) e = (Err en, e1)
        \<and> sys_getpipe_size os d e1 = (Ok (nz_get sz), e'))"
  by (auto simp: negotiate_size_def Let_def nz_new_def split: prod.splits result.splits if_splits)

end
