(* ===== verification/Splicer.thy ===== *)
theory Splicer
  imports Pipe
begin

text \<open>
  The \<open>Splicer\<close> trait and its production implementation \<open>Live\<close> (\<open>src/splice/exec.rs\<close>).
\<close>

section \<open>The trait\<close>

text \<open>
  An implementation is a pair of functions over its own state \<open>'s\<close> (\<open>&mut self\<close>) and the
  surroundings \<open>'e\<close>.  The borrowed offset comes back as what was stored through it.
\<close>

type_synonym ('s, 'e) splice_reply = "(usize io_result \<times> u64 option \<times> 's \<times> 'e) comp"

record ('s, 'e) splicer_ops =
  splice_in :: "'s \<Rightarrow> fd \<Rightarrow> u64 option \<Rightarrow> fd \<Rightarrow> usize \<Rightarrow> 'e \<Rightarrow> ('s, 'e) splice_reply"
  splice_out :: "'s \<Rightarrow> fd \<Rightarrow> fd \<Rightarrow> u64 option \<Rightarrow> usize \<Rightarrow> 'e \<Rightarrow> ('s, 'e) splice_reply"

text \<open>
  What the signatures alone promise to the caller: \<open>Option<&mut u64>\<close> can be written through
  but neither appear nor disappear.
\<close>

locale splicer_iface =
  fixes ops :: "('s, 'e) splicer_ops"
  assumes in_loan: "splice_in ops s r off pw m e = Val (res, off', s', e')
      \<Longrightarrow> (off' = None) = (off = None)"
    and out_loan: "splice_out ops s pr w off m e = Val (res, off', s', e')
      \<Longrightarrow> (off' = None) = (off = None)"

section \<open>The system call implementation\<close>

datatype live = Live

definition live_default :: live where "live_default = Live"

instantiation live :: default
begin

definition default_live :: live where "default_live = live_default"

instance ..

end

text \<open>What is left in a borrowed offset after the call stored \<open>v\<close> through the pointer.\<close>

definition stored :: "u64 option \<Rightarrow> u64 \<Rightarrow> u64 option" where
  "stored off v = map_option (\<lambda>_. v) off"

lemma stored_simps [simp]:
  "stored None v = None" "stored (Some x) v = Some v" "(stored off v = None) = (off = None)"
  by (simp_all add: stored_def)

definition live_splice_in ::
    "'e os \<Rightarrow> live \<Rightarrow> fd \<Rightarrow> u64 option \<Rightarrow> fd \<Rightarrow> usize \<Rightarrow> 'e \<Rightarrow> (live, 'e) splice_reply" where
  "live_splice_in os self r off_in pipe_w max_len e =
     (case sys_splice os r off_in pipe_w None max_len [SPLICE_NONBLOCK] e of
        (res, oi, _, e') \<Rightarrow> Val (map_err Os res, stored off_in oi, self, e'))"

definition live_splice_out ::
    "'e os \<Rightarrow> live \<Rightarrow> fd \<Rightarrow> fd \<Rightarrow> u64 option \<Rightarrow> usize \<Rightarrow> 'e \<Rightarrow> (live, 'e) splice_reply" where
  "live_splice_out os self pipe_r w off_out max_len e =
     (case sys_splice os pipe_r None w off_out max_len [SPLICE_NONBLOCK] e of
        (res, _, oo, e') \<Rightarrow> Val (map_err Os res, stored off_out oo, self, e'))"

definition live_ops :: "'e os \<Rightarrow> (live, 'e) splicer_ops" where
  "live_ops os = \<lparr>splice_in = live_splice_in os, splice_out = live_splice_out os\<rparr>"

lemmas live_defs = live_ops_def live_splice_in_def live_splice_out_def

declare live_defs [rust_defs]

interpretation live_trait: splicer_iface "live_ops os" for os :: "'e os"
  by unfold_locales (auto simp: live_defs split: prod.splits)

text \<open>\<open>Live\<close> adds nothing of its own: it never panics and opens or closes no descriptor.\<close>

lemma live_no_panic:
  "\<not> is_panic (splice_in (live_ops os) s r off pw m e)"
  "\<not> is_panic (splice_out (live_ops os) s pr w off m e)"
  by (auto simp: live_defs split: prod.splits)

lemma live_opened:
  "fd_laws os opened \<Longrightarrow> splice_in (live_ops os) s r off pw m e = Val (res, off', s', e')
     \<Longrightarrow> opened e' = opened e"
  "fd_laws os opened \<Longrightarrow> splice_out (live_ops os) s pr w off m e = Val (res, off', s', e')
     \<Longrightarrow> opened e' = opened e"
  by (auto simp: live_defs split: prod.splits dest: fd_laws_splice)

end
