(* ===== verification/Channel.thy ===== *)
theory Channel
  imports Splicer
begin

text \<open>
  What the crate relies on splice(2) for: bytes leave the source in order, queue up in the pipe
  in order, and reach the destination in order.

  The surroundings are abstract, so their contents are seen through a \<open>probe\<close>: the bytes the
  source still has to give, the bytes queued in the pipe, and the bytes the destination has
  received.  A source read at an offset (a file) shows what lies behind the offset; a
  destination written at an offset shows what lies before it.  For a socket the bytes still to
  be given include those the peer will send later.
\<close>

type_synonym byte = "8 word"

record 'e probe =
  v_src :: "u64 option \<Rightarrow> 'e \<Rightarrow> byte list"
  v_buf :: "'e \<Rightarrow> byte list"
  v_dst :: "u64 option \<Rightarrow> 'e \<Rightarrow> byte list"

text \<open>Nothing the probe shows has changed.\<close>

definition same_view :: "'e probe \<Rightarrow> 'e \<Rightarrow> 'e \<Rightarrow> bool" where
  "same_view P e e' \<longleftrightarrow>
     (\<forall>off. v_src P off e' = v_src P off e) \<and>
     v_buf P e' = v_buf P e \<and> (\<forall>off. v_dst P off e' = v_dst P off e)"

lemma same_view_refl [simp]: "same_view P e e"
  by (simp add: same_view_def)

lemma same_view_trans: "same_view P a b \<Longrightarrow> same_view P b c \<Longrightarrow> same_view P a c"
  by (simp add: same_view_def)

section \<open>Moving bytes\<close>

text \<open>One transfer from the source into the pipe, and one from the pipe to the destination.  An
  offset that was passed is moved on by the bytes that were.\<close>

definition advanced :: "u64 option \<Rightarrow> usize \<Rightarrow> u64 option" where
  "advanced off n = map_option (\<lambda>x. x + n) off"

lemma advanced_simps [simp]:
  "advanced None n = None" "advanced (Some x) n = Some (x + n)"
  "(advanced off n = None) = (off = None)" "advanced off 0 = off"
  by (simp_all add: advanced_def option.map_ident)

definition moved_in ::
    "'e probe \<Rightarrow> u64 option \<Rightarrow> 'e \<Rightarrow> usize \<Rightarrow> (usize, 'x) result \<Rightarrow> u64 option \<Rightarrow> 'e \<Rightarrow> bool" where
  "moved_in P off e m res off' e' \<longleftrightarrow>
     (\<forall>o'. v_dst P o' e' = v_dst P o' e) \<and>
     (case res of
        Ok n \<Rightarrow> n \<le> m \<and> unat n \<le> length (v_src P off e) \<and>
                (n = 0 \<longrightarrow> m = 0 \<or> v_src P off e = []) \<and>
                off' = advanced off n \<and>
                v_src P off' e' = drop (unat n) (v_src P off e) \<and>
                v_buf P e' = v_buf P e @ take (unat n) (v_src P off e)
      | Err _ \<Rightarrow> off' = off \<and> v_src P off' e' = v_src P off e \<and> v_buf P e' = v_buf P e)"

definition moved_out ::
    "'e probe \<Rightarrow> u64 option \<Rightarrow> 'e \<Rightarrow> usize \<Rightarrow> (usize, 'x) result \<Rightarrow> u64 option \<Rightarrow> 'e \<Rightarrow> bool" where
  "moved_out P off e m res off' e' \<longleftrightarrow>
     (\<forall>o'. v_src P o' e' = v_src P o' e) \<and>
     (case res of
        Ok n \<Rightarrow> n \<le> m \<and> unat n \<le> length (v_buf P e) \<and>
                (n = 0 \<longrightarrow> m = 0 \<or> v_buf P e = []) \<and>
                off' = advanced off n \<and>
                v_buf P e' = drop (unat n) (v_buf P e) \<and>
                v_dst P off' e' = v_dst P off e @ take (unat n) (v_buf P e)
      | Err _ \<Rightarrow> off' = off \<and> v_buf P e' = v_buf P e \<and> v_dst P off' e' = v_dst P off e)"

text \<open>
  The documented behaviour of splice(2) between the source \<open>r\<close>, the two ends \<open>pw\<close>, \<open>pr\<close> of the
  pipe and the destination \<open>w\<close>: at most the requested bytes move, in order; zero is returned
  only at the end of the input; a failing call moves nothing.
\<close>

definition kernel_moves :: "'e os \<Rightarrow> 'e probe \<Rightarrow> fd \<Rightarrow> fd \<Rightarrow> fd \<Rightarrow> fd \<Rightarrow> bool" where
  "kernel_moves os P r w pw pr \<longleftrightarrow>
     (\<forall>off m e. case sys_splice os r off pw None m [SPLICE_NONBLOCK] e of
        (res, oi, _, e') \<Rightarrow> moved_in P off e m res (stored off oi) e') \<and>
     (\<forall>off m e. case sys_splice os pr None w off m [SPLICE_NONBLOCK] e of
        (res, _, oo, e') \<Rightarrow> moved_out P off e m res (stored off oo) e')"

text \<open>The same promise at the level of the trait, with no panic and the borrowed offsets kept.\<close>

definition splicer_moves ::
    "('s, 'e) splicer_ops \<Rightarrow> 'e probe \<Rightarrow> fd \<Rightarrow> fd \<Rightarrow> fd \<Rightarrow> fd \<Rightarrow> bool" where
  "splicer_moves ops P r w pw pr \<longleftrightarrow>
     (\<forall>s off m e. \<exists>res off' s' e'.
        splice_in ops s r off pw m e = Val (res, off', s', e')
        \<and> (off' = None) = (off = None) \<and> moved_in P off e m res off' e') \<and>
     (\<forall>s off m e. \<exists>res off' s' e'.
        splice_out ops s pr w off m e = Val (res, off', s', e')
        \<and> (off' = None) = (off = None) \<and> moved_out P off e m res off' e')"

lemma splicer_moves_in:
  assumes "splicer_moves ops P r w pw pr"
  obtains res off' s' e' where
    "splice_in ops s r off pw m e = Val (res, off', s', e')"
    "(off' = None) = (off = None)" "moved_in P off e m res off' e'"
proof -
  have "\<exists>res off' s' e'. splice_in ops s r off pw m e = Val (res, off', s', e')
      \<and> (off' = None) = (off = None) \<and> moved_in P off e m res off' e'"
    using assms unfolding splicer_moves_def by (elim conjE) simp
  then show thesis by (elim exE conjE) (rule that)
qed

lemma splicer_moves_out:
  assumes "splicer_moves ops P r w pw pr"
  obtains res off' s' e' where
    "splice_out ops s pr w off m e = Val (res, off', s', e')"
    "(off' = None) = (off = None)" "moved_out P off e m res off' e'"
proof -
  have "\<exists>res off' s' e'. splice_out ops s pr w off m e = Val (res, off', s', e')
      \<and> (off' = None) = (off = None) \<and> moved_out P off e m res off' e'"
    using assms unfolding splicer_moves_def by (elim conjE) simp
  then show thesis by (elim exE conjE) (rule that)
qed

lemma moved_map_err [simp]:
  "moved_in P off e m (map_err f res) off' e' = moved_in P off e m res off' e'"
  "moved_out P off e m (map_err f res) off' e' = moved_out P off e m res off' e'"
  by (cases res; simp add: moved_in_def moved_out_def)+

text \<open>\<open>Live\<close> passes the kernel's promise on unchanged.\<close>

lemma live_moves:
  assumes "kernel_moves os P r w pw pr"
  shows "splicer_moves (live_ops os) P r w pw pr"
  unfolding splicer_moves_def
proof (intro conjI allI)
  fix s off m e
  obtain res oi oo e' where *: "sys_splice os r off pw None m [SPLICE_NONBLOCK] e = (res, oi, oo, e')"
    by (metis prod_cases4)
  with assms have "moved_in P off e m res (stored off oi) e'"
    by (auto simp: kernel_moves_def dest: spec [of _ off] split: prod.splits)
  with * show "\<exists>res off' s' e'. splice_in (live_ops os) s r off pw m e = Val (res, off', s', e')
        \<and> (off' = None) = (off = None) \<and> moved_in P off e m res off' e'"
    by (simp add: live_defs)
next
  fix s off m e
  obtain res oi oo e' where *: "sys_splice os pr None w off m [SPLICE_NONBLOCK] e = (res, oi, oo, e')"
    by (metis prod_cases4)
  with assms have "moved_out P off e m res (stored off oo) e'"
    by (auto simp: kernel_moves_def dest: spec [of _ off] split: prod.splits)
  with * show "\<exists>res off' s' e'. splice_out (live_ops os) s pr w off m e = Val (res, off', s', e')
        \<and> (off' = None) = (off = None) \<and> moved_out P off e m res off' e'"
    by (simp add: live_defs)
qed

section \<open>Closing the ends of the pipe\<close>

text \<open>
  close(2) on an end of the pipe: the source and the destination see nothing, closing the end
  that is written keeps what is queued, and so does closing the end that is read once the pipe
  is empty.
\<close>

definition close_keeps :: "'e os \<Rightarrow> 'e probe \<Rightarrow> fd \<Rightarrow> fd \<Rightarrow> bool" where
  "close_keeps os P pw pr \<longleftrightarrow>
     (\<forall>e. same_view P e (sys_close os pw e)) \<and>
     (\<forall>e off. v_dst P off (sys_close os pr e) = v_dst P off e) \<and>
     (\<forall>e off. v_src P off (sys_close os pr e) = v_src P off e) \<and>
     (\<forall>e. v_buf P e = [] \<longrightarrow> v_buf P (sys_close os pr e) = [])"

section \<open>Making the pipe\<close>

text \<open>
  pipe(2) and the two size calls of fcntl(2): a pipe that comes with the ends \<open>pr\<close>, \<open>pw\<close> is empty,
  and none of the three moves a byte.
\<close>

definition pipe_starts_empty :: "'e os \<Rightarrow> 'e probe \<Rightarrow> fd \<Rightarrow> fd \<Rightarrow> bool" where
  "pipe_starts_empty os P pw pr \<longleftrightarrow>
     (\<forall>fl e e'. sys_pipe os fl e = (Ok (pr, pw), e') \<longrightarrow>
        v_buf P e' = [] \<and> (\<forall>off. v_src P off e' = v_src P off e) \<and>
        (\<forall>off. v_dst P off e' = v_dst P off e)) \<and>
     (\<forall>d n e. same_view P e (snd (sys_setpipe_size os d n e))) \<and>
     (\<forall>d e. same_view P e (snd (sys_getpipe_size os d e)))"

lemma negotiate_size_view:
  "pipe_starts_empty os P pw pr \<Longrightarrow> negotiate_size os d e = (r, e') \<Longrightarrow> same_view P e e'"
proof -
  assume laws: "pipe_starts_empty os P pw pr" and run: "negotiate_size os d e = (r, e')"
  have set_view: "same_view P e (snd (sys_setpipe_size os d n e))"
    and get_view: "same_view P e (snd (sys_getpipe_size os d e))" for d n e
    using laws by (simp_all add: pipe_starts_empty_def)
  obtain x e1 where s: "sys_setpipe_size os d (nz_get MAXIMUM_PIPE_SIZE) e = (x, e1)"
    by (cases "sys_setpipe_size os d (nz_get MAXIMUM_PIPE_SIZE) e")
  have v1: "same_view P e e1" using set_view [of e d "nz_get MAXIMUM_PIPE_SIZE"] s by simp
  show ?thesis
  proof (cases x)
    case (Ok sz)
    then show ?thesis using run s v1 by (auto simp: negotiate_size_def Let_def)
  next
    case (Err en)
    obtain y e2 where g: "sys_getpipe_size os d e1 = (y, e2)"
      by (cases "sys_getpipe_size os d e1")
    have "same_view P e1 e2" using get_view [of e1 d] g by simp
    then have "same_view P e e2" by (rule same_view_trans [OF v1])
    then show ?thesis
      using run s g Err by (cases y) (auto simp: negotiate_size_def Let_def)
  qed
qed

lemma pipe_new_empty:
  assumes laws: "pipe_starts_empty os P pw pr" and new: "pipe_new os e = (Ok p, e')"
    and ends: "pipe_drain_fd p = Some pr" "pipe_fill_fd p = Some pw"
  shows "v_buf P e' = []" "v_src P off e' = v_src P off e" "v_dst P off e' = v_dst P off e"
proof -
  from new ends obtain e1 sz where
    mk: "sys_pipe os [PIPE_NONBLOCK, PIPE_CLOEXEC] e = (Ok (pr, pw), e1)"
    and neg: "negotiate_size os pr e1 = (Ok sz, e')"
    by (auto simp: pipe_new_def split: prod.splits result.splits)
  have "v_buf P e1 = []" "v_src P off e1 = v_src P off e" "v_dst P off e1 = v_dst P off e"
    using laws mk unfolding pipe_starts_empty_def by blast+
  then show "v_buf P e' = []" "v_src P off e' = v_src P off e" "v_dst P off e' = v_dst P off e"
    using negotiate_size_view [OF laws neg] by (simp_all add: same_view_def)
qed

end
