(* ===== verification/Mock_Splicer.thy ===== *)
theory Mock_Splicer
  imports Splicer
begin

text \<open>
  The scripted \<open>Splicer\<close> of the crate's unit tests (\<open>src/splice/mock.rs\<close>): each call pops the
  next entry of a queue and panics when the script has run out; the other arguments are ignored.
\<close>

record mock_splicer =
  script_splice_in :: "usize io_result list"
  script_splice_out :: "usize io_result list"

text \<open>\<open>#[derive(Default)]\<close>: both queues empty.\<close>

definition mock_splicer_default :: mock_splicer where
  "mock_splicer_default = \<lparr>script_splice_in = [], script_splice_out = []\<rparr>"

instantiation mock_splicer_ext :: (default) default
begin

definition default_mock_splicer_ext :: "'a mock_splicer_ext" where
  "default_mock_splicer_ext = mock_splicer.extend mock_splicer_default default"

instance ..

end

definition mock_splicer_new :: mock_splicer where
  "mock_splicer_new = mock_splicer_default"

definition script_in :: "mock_splicer \<Rightarrow> usize io_result list \<Rightarrow> mock_splicer" where
  "script_in self it = self\<lparr>script_splice_in := script_splice_in self @ it\<rparr>"

definition script_out :: "mock_splicer \<Rightarrow> usize io_result list \<Rightarrow> mock_splicer" where
  "script_out self it = self\<lparr>script_splice_out := script_splice_out self @ it\<rparr>"

definition mock_splice_in ::
    "mock_splicer \<Rightarrow> fd \<Rightarrow> u64 option \<Rightarrow> fd \<Rightarrow> usize \<Rightarrow> 'e \<Rightarrow> (mock_splicer, 'e) splice_reply" where
  "mock_splice_in self r off_in pipe_w max_len e =
     (case pop_front (script_splice_in self) of
        (x, q) \<Rightarrow> bind_comp (expect x)
          (\<lambda>res. Val (res, off_in, self\<lparr>script_splice_in := q\<rparr>, e)))"

definition mock_splice_out ::
    "mock_splicer \<Rightarrow> fd \<Rightarrow> fd \<Rightarrow> u64 option \<Rightarrow> usize \<Rightarrow> 'e \<Rightarrow> (mock_splicer, 'e) splice_reply" where
  "mock_splice_out self pipe_r w off_out max_len e =
     (case pop_front (script_splice_out self) of
        (x, q) \<Rightarrow> bind_comp (expect x)
          (\<lambda>res. Val (res, off_out, self\<lparr>script_splice_out := q\<rparr>, e)))"

definition mock_ops :: "(mock_splicer, 'e) splicer_ops" where
  "mock_ops = \<lparr>splice_in = mock_splice_in, splice_out = mock_splice_out\<rparr>"

lemmas mock_splicer_defs =
  mock_ops_def mock_splice_in_def mock_splice_out_def script_in_def script_out_def
  mock_splicer_new_def mock_splicer_default_def

declare mock_splicer_defs [rust_defs]

interpretation mock_trait: splicer_iface "mock_ops :: (mock_splicer, 'e) splicer_ops"
  by unfold_locales (auto simp: mock_splicer_defs bind_comp_Val_iff split: prod.splits)

text \<open>The script is played back in order, and running out of it is a panic.\<close>

lemma mock_splice_in_script:
  "splice_in mock_ops (script_in mock_splicer_new (x # xs)) r off pw m e
     = Val (x, off, script_in mock_splicer_new xs, e)"
  "splice_in mock_ops mock_splicer_new r off pw m e = Panic Expect_None"
  by (simp_all add: mock_splicer_defs)

end
