(* ===== verification/Offset.thy ===== *)
theory Offset
  imports Rust_Std
begin

text \<open>
  File offsets and the length of a transfer (\<open>src/splice/util.rs\<close>).
\<close>

datatype offset = Off_None | Off_In u64 | Off_Out u64

text \<open>
  \<open>off_in\<close> and \<open>off_out\<close> lend a mutable reference to the offset.  A loan is a read
  (\<open>off_in\<close>, \<open>off_out\<close>) followed, when the callee returns, by the write of what it stored
  (\<open>put_off_in\<close>, \<open>put_off_out\<close>).
\<close>

fun off_in :: "offset \<Rightarrow> u64 option" where
  "off_in (Off_In off) = Some off"
| "off_in _ = None"

fun off_out :: "offset \<Rightarrow> u64 option" where
  "off_out (Off_Out off) = Some off"
| "off_out _ = None"

fun put_off_in :: "offset \<Rightarrow> u64 option \<Rightarrow> offset" where
  "put_off_in (Off_In off) (Some off') = Off_In off'"
| "put_off_in x _ = x"

fun put_off_out :: "offset \<Rightarrow> u64 option \<Rightarrow> offset" where
  "put_off_out (Off_Out off) (Some off') = Off_Out off'"
| "put_off_out x _ = x"

lemma put_off_in_get [simp]: "put_off_in x (off_in x) = x"
  by (cases x) auto

lemma put_off_out_get [simp]: "put_off_out x (off_out x) = x"
  by (cases x) auto

lemma off_in_put [simp]:
  "(y = None) = (off_in x = None) \<Longrightarrow> off_in (put_off_in x y) = y"
  by (cases x; cases y) auto

lemma off_out_put [simp]:
  "(y = None) = (off_out x = None) \<Longrightarrow> off_out (put_off_out x y) = y"
  by (cases x; cases y) auto

lemma off_out_put_in [simp]: "off_out (put_off_in x y) = off_out x"
  by (cases x; cases y) auto

lemma off_in_put_out [simp]: "off_in (put_off_out x y) = off_in x"
  by (cases x; cases y) auto

definition calc_size_to_splice ::
    "u64 \<Rightarrow> u64 option \<Rightarrow> u64 option \<Rightarrow> u64 io_result" where
  "calc_size_to_splice f_len f_offset_start f_offset_end =
     (let start = unwrap_or f_offset_start 0;
          end' = unwrap_or f_offset_end f_len
      in if start > end' \<or> end' > f_len
         then Err (Custom InvalidInput ''invalid offset range'')
         else Ok (end' - start))"

text \<open>
  The checked range is exactly a sub-range of the file, and its length is then the exact
  difference: the subtraction never wraps.
\<close>

lemma calc_size_Ok_iff:
  "calc_size_to_splice f_len s t = Ok n \<longleftrightarrow>
     unat (unwrap_or s 0) \<le> unat (unwrap_or t f_len) \<and>
     unat (unwrap_or t f_len) \<le> unat f_len \<and>
     unat n = unat (unwrap_or t f_len) - unat (unwrap_or s 0)"
  (is "?l \<longleftrightarrow> ?r")
proof
  assume ?l
  then show ?r
    by (auto simp: calc_size_to_splice_def Let_def word_le_nat_alt unat_sub not_less
        split: if_splits)
next
  assume r: ?r
  then have le: "unwrap_or s 0 \<le> unwrap_or t f_len" "unwrap_or t f_len \<le> f_len"
    by (simp_all add: word_le_nat_alt)
  with r have "unat n = unat (unwrap_or t f_len - unwrap_or s 0)"
    by (simp add: unat_sub)
  then have "n = unwrap_or t f_len - unwrap_or s 0"
    by (simp add: word_unat_eq_iff)
  with le show ?l by (auto simp: calc_size_to_splice_def Let_def)
qed

lemma calc_size_Err_iff:
  "calc_size_to_splice f_len s t = Err er \<longleftrightarrow>
     (unwrap_or t f_len < unwrap_or s 0 \<or> f_len < unwrap_or t f_len) \<and>
     er = Custom InvalidInput ''invalid offset range''"
  by (auto simp: calc_size_to_splice_def Let_def)

lemma calc_size_whole_file: "calc_size_to_splice f_len None None = Ok f_len"
  by (simp add: calc_size_to_splice_def)

end
