(* ===== verification/Splice_Ctx.thy ===== *)
theory Splice_Ctx
  imports Channel Mock_Splicer Offset
begin

text \<open>
  \<open>SpliceCtx\<close> (\<open>src/splice/mod.rs\<close>): the pipe, the two byte counters, the offset and the
  length of one transfer, its constructors, and the two splice attempts that move bytes.
\<close>

section \<open>State and construction\<close>

record 's splice_ctx =
  splicer :: 's
  offset :: offset
  size_to_splice :: usize
  pipe :: pipe
  bytes_read_field :: usize
  bytes_written_field :: usize

text \<open>\<open>isize::MAX as usize\<close>.\<close>

definition ISIZE_MAX :: usize where "ISIZE_MAX = 2 ^ 63 - 1"

definition new_ctx :: "'s \<Rightarrow> pipe \<Rightarrow> 's splice_ctx" where
  "new_ctx s p = \<lparr>splicer = s, offset = Off_None, size_to_splice = ISIZE_MAX, pipe = p,
     bytes_read_field = 0, bytes_written_field = 0\<rparr>"

definition ctx_new_inner :: "'e os \<Rightarrow> 'e \<Rightarrow> live splice_ctx io_result \<times> 'e" where
  "ctx_new_inner os e =
     (case pipe_new os e of
        (Err er, e') \<Rightarrow> (Err er, e')
      | (Ok p, e') \<Rightarrow> (Ok (new_ctx Live p), e'))"

definition ctx_new :: "'e os \<Rightarrow> 'e \<Rightarrow> live splice_ctx io_result \<times> 'e" where
  "ctx_new os e = ctx_new_inner os e"

text \<open>
  The struct expression evaluates its named fields first, so an invalid range is reported
  before a pipe is made.
\<close>

definition ctx_with_file ::
    "'e os \<Rightarrow> (u64 \<Rightarrow> offset) \<Rightarrow> string \<Rightarrow> u64 \<Rightarrow> u64 option \<Rightarrow> u64 option \<Rightarrow> 'e
      \<Rightarrow> live splice_ctx io_result \<times> 'e" where
  "ctx_with_file os variant too_large f_len f_offset_start f_offset_end e =
     (case calc_size_to_splice f_len f_offset_start f_offset_end of
        Err er \<Rightarrow> (Err er, e)
      | Ok len \<Rightarrow>
          (case ok_or (try_into_usize len) (Custom InvalidInput too_large) of
             Err er \<Rightarrow> (Err er, e)
           | Ok len' \<Rightarrow>
               (case ctx_new_inner os e of
                  (Err er, e') \<Rightarrow> (Err er, e')
                | (Ok c, e') \<Rightarrow>
                    (Ok (c\<lparr>offset := variant (unwrap_or f_offset_start 0),
                           size_to_splice := len'\<rparr>), e'))))"

definition ctx_with_input_file ::
    "'e os \<Rightarrow> u64 \<Rightarrow> u64 option \<Rightarrow> u64 option \<Rightarrow> 'e \<Rightarrow> live splice_ctx io_result \<times> 'e" where
  "ctx_with_input_file os = ctx_with_file os Off_In ''file size too large''"

definition ctx_with_output_file ::
    "'e os \<Rightarrow> u64 \<Rightarrow> u64 option \<Rightarrow> u64 option \<Rightarrow> 'e \<Rightarrow> live splice_ctx io_result \<times> 'e" where
  "ctx_with_output_file os = ctx_with_file os Off_Out ''splice range too large''"

definition ctx_new_with_splicer :: "'e os \<Rightarrow> 's \<Rightarrow> 'e \<Rightarrow> 's splice_ctx io_result \<times> 'e" where
  "ctx_new_with_splicer os s e =
     (case pipe_new os e of
        (Err er, e') \<Rightarrow> (Err er, e')
      | (Ok p, e') \<Rightarrow> (Ok (new_ctx s p), e'))"

definition ctx_with_target_len :: "'s splice_ctx \<Rightarrow> usize \<Rightarrow> 's splice_ctx" where
  "ctx_with_target_len self len = self\<lparr>size_to_splice := len\<rparr>"

definition ctx_with_pipe_size ::
    "'e os \<Rightarrow> 's splice_ctx \<Rightarrow> usize \<Rightarrow> 'e \<Rightarrow> 's splice_ctx io_result \<times> 'e" where
  "ctx_with_pipe_size os self n e =
     (case pipe_with_pipe_size os (pipe self) n e of
        (Err er, e') \<Rightarrow> (Err er, e')
      | (Ok p, e') \<Rightarrow> (Ok (self\<lparr>pipe := p\<rparr>), e'))"

text \<open>Dropping a context drops its pipe; the other fields own nothing.\<close>

definition drop_ctx :: "'e os \<Rightarrow> 's splice_ctx \<Rightarrow> 'e \<Rightarrow> 'e" where
  "drop_ctx os c e = drop_pipe os (pipe c) e"

section \<open>Accessors\<close>

definition bytes_read :: "'s splice_ctx \<Rightarrow> usize" where
  "bytes_read c = bytes_read_field c"

definition bytes_written :: "'s splice_ctx \<Rightarrow> usize" where
  "bytes_written c = bytes_written_field c"

definition pipe_has_data :: "'s splice_ctx \<Rightarrow> bool" where
  "pipe_has_data c \<longleftrightarrow> bytes_read c > bytes_written c"

definition pipe_is_full :: "profile \<Rightarrow> 's splice_ctx \<Rightarrow> bool comp" where
  "pipe_is_full prof c =
     bind_comp (usize_sub prof (bytes_read c) (bytes_written c))
       (\<lambda>held. Val (held \<ge> nz_get (pipe_size (pipe c))))"

definition ctx_pipe_size :: "'s splice_ctx \<Rightarrow> nonzero_usize" where
  "ctx_pipe_size c = pipe_size (pipe c)"

definition is_source_done :: "'s splice_ctx \<Rightarrow> bool" where
  "is_source_done c \<longleftrightarrow> is_fill_done (pipe c)"

definition is_finished :: "'s splice_ctx \<Rightarrow> bool" where
  "is_finished c \<longleftrightarrow> is_fill_done (pipe c) \<and> bytes_read c = bytes_written c"

lemmas ctx_accessors =
  bytes_read_def bytes_written_def pipe_has_data_def is_source_done_def is_finished_def
  ctx_pipe_size_def

declare ctx_accessors [rust_defs]

section \<open>The two splice attempts\<close>

datatype splice_outcome = Closed | NoProgress | BytesWritten usize

text \<open>What a context runs on: build profile, system calls, and the \<open>Splicer\<close> implementation.\<close>

record ('s, 'e) platform =
  pf_profile :: profile
  pf_os :: "'e os"
  pf_ops :: "('s, 'e) splicer_ops"

type_synonym ('s, 'e) attempt =
  "'s splice_ctx \<Rightarrow> 'e \<Rightarrow> (splice_outcome io_result \<times> 's splice_ctx \<times> 'e) comp"

text \<open>\<open>self.pipe.set_fill_done(); return Ok(SpliceOutcome::Closed)\<close>, and its drain-side twin.\<close>

definition close_source :: "('s, 'e) platform \<Rightarrow> ('s, 'e) attempt" where
  "close_source pf c e =
     (case set_fill_done (pf_os pf) (pipe c) e of (p, e') \<Rightarrow> Val (Ok Closed, c\<lparr>pipe := p\<rparr>, e'))"

definition close_dest :: "('s, 'e) platform \<Rightarrow> ('s, 'e) attempt" where
  "close_dest pf c e =
     (case set_drain_done (pf_os pf) (pipe c) e of (p, e') \<Rightarrow> Val (Ok Closed, c\<lparr>pipe := p\<rparr>, e'))"

definition try_splice_from_source :: "('s, 'e) platform \<Rightarrow> fd \<Rightarrow> ('s, 'e) attempt" where
  "try_splice_from_source pf r c e =
     bind_comp (usize_sub (pf_profile pf) (size_to_splice c) (bytes_read c)) (\<lambda>remaining.
       if remaining = 0 then close_source pf c e
       else bind_comp (expect (fill_fd (pipe c))) (\<lambda>pipe_w.
         bind_comp (splice_in (pf_ops pf) (splicer c) r (off_in (offset c)) pipe_w remaining e)
           (\<lambda>(res, off', s', e1).
             let c1 = c\<lparr>splicer := s', offset := put_off_in (offset c) off'\<rparr>
             in case res of
                  Err er \<Rightarrow> Val (Err er, c1, e1)
                | Ok n \<Rightarrow>
                    if n > 0
                    then bind_comp (usize_add (pf_profile pf) (bytes_read c1) n)
                           (\<lambda>total. Val (Ok (BytesWritten n), c1\<lparr>bytes_read_field := total\<rparr>, e1))
                    else close_source pf c1 e1)))"

definition try_splice_to_dest :: "('s, 'e) platform \<Rightarrow> fd \<Rightarrow> ('s, 'e) attempt" where
  "try_splice_to_dest pf w c e =
     bind_comp (usize_sub (pf_profile pf) (bytes_read c) (bytes_written c)) (\<lambda>remaining.
       if remaining = 0
       then if is_source_done c then close_dest pf c e
            else Val (Ok NoProgress, c, e)
       else bind_comp (expect (drain_fd (pipe c))) (\<lambda>pipe_r.
         bind_comp (splice_out (pf_ops pf) (splicer c) pipe_r w (off_out (offset c)) remaining e)
           (\<lambda>(res, off', s', e1).
             let c1 = c\<lparr>splicer := s', offset := put_off_out (offset c) off'\<rparr>
             in case res of
                  Err er \<Rightarrow> Val (Err er, c1, e1)
                | Ok n \<Rightarrow>
                    if n > 0
                    then bind_comp (usize_add (pf_profile pf) (bytes_written c1) n)
                           (\<lambda>total. Val (Ok (BytesWritten n), c1\<lparr>bytes_written_field := total\<rparr>, e1))
                    else Val (Ok NoProgress, c1, e1))))"

end
