(* ===== verification/Ctx_Inv.thy ===== *)
theory Ctx_Inv
  imports Splice_Ctx
begin

text \<open>
  Correctness of the splice attempts (\<open>try_splice_from_source\<close>, \<open>try_splice_to_dest\<close>): the
  invariant that ties the counters of a context to the bytes in the source, the pipe and the
  destination, what every branch of an attempt does, and the descriptors an attempt gives up.
\<close>

section \<open>The invariant\<close>

definition src_of :: "'e probe \<Rightarrow> 's splice_ctx \<Rightarrow> 'e \<Rightarrow> byte list" where
  "src_of P c e = v_src P (off_in (offset c)) e"

definition dst_of :: "'e probe \<Rightarrow> 's splice_ctx \<Rightarrow> 'e \<Rightarrow> byte list" where
  "dst_of P c e = v_dst P (off_out (offset c)) e"

text \<open>
  \<open>S\<close> are all the bytes the source gives, \<open>D\<close> those the destination held before: the counters
  cut \<open>S\<close> into what was delivered, what is queued in the pipe and what is still to be read.
\<close>

definition stream_rel ::
    "'e probe \<Rightarrow> byte list \<Rightarrow> byte list \<Rightarrow> 's splice_ctx \<Rightarrow> 'e \<Rightarrow> bool" where
  "stream_rel P S D c e \<longleftrightarrow>
     unat (bytes_read c) \<le> length S \<and>
     src_of P c e = drop (unat (bytes_read c)) S \<and>
     v_buf P e = drop (unat (bytes_written c)) (take (unat (bytes_read c)) S) \<and>
     dst_of P c e = D @ take (unat (bytes_written c)) S"

definition counts_ok :: "'s splice_ctx \<Rightarrow> bool" where
  "counts_ok c \<longleftrightarrow> bytes_written c \<le> bytes_read c \<and> bytes_read c \<le> size_to_splice c"

definition ends_ok :: "fd \<Rightarrow> fd \<Rightarrow> 's splice_ctx \<Rightarrow> bool" where
  "ends_ok pw pr c \<longleftrightarrow>
     fill_fd (pipe c) \<in> {None, Some pw} \<and> drain_fd (pipe c) \<in> {None, Some pr}"

text \<open>A file offset has moved on from where it started by exactly the bytes moved on its side.\<close>

fun offset_at :: "offset \<Rightarrow> usize \<Rightarrow> usize \<Rightarrow> offset" where
  "offset_at Off_None r w = Off_None"
| "offset_at (Off_In s) r w = Off_In (s + r)"
| "offset_at (Off_Out s) r w = Off_Out (s + w)"

lemma offset_at_read:
  "put_off_in (offset_at x r w) (advanced (off_in (offset_at x r w)) n) = offset_at x (r + n) w"
  by (cases x) (simp_all add: add.assoc)

lemma offset_at_written:
  "put_off_out (offset_at x r w) (advanced (off_out (offset_at x r w)) n) = offset_at x r (w + n)"
  by (cases x) (simp_all add: add.assoc)

text \<open>Nothing more is to be read: the target is reached, or the source has ended.\<close>

definition exhausted :: "byte list \<Rightarrow> 's splice_ctx \<Rightarrow> bool" where
  "exhausted S c \<longleftrightarrow> bytes_read c = size_to_splice c \<or> unat (bytes_read c) = length S"

definition ctx_inv ::
    "'e probe \<Rightarrow> fd \<Rightarrow> fd \<Rightarrow> offset \<Rightarrow> usize \<Rightarrow> byte list \<Rightarrow> byte list
      \<Rightarrow> 's splice_ctx \<Rightarrow> 'e \<Rightarrow> bool" where
  "ctx_inv P pw pr off0 T S D c e \<longleftrightarrow>
     counts_ok c \<and> ends_ok pw pr c \<and> stream_rel P S D c e \<and>
     offset c = offset_at off0 (bytes_read c) (bytes_written c) \<and>
     size_to_splice c = T \<and>
     (is_source_done c \<longrightarrow> exhausted S c) \<and>
     (is_drain_done (pipe c) \<longrightarrow> is_finished c)"

lemma ctx_invD:
  assumes "ctx_inv P pw pr off0 T S D c e"
  shows "counts_ok c" "ends_ok pw pr c" "stream_rel P S D c e"
    "is_source_done c \<Longrightarrow> exhausted S c" "is_drain_done (pipe c) \<Longrightarrow> is_finished c"
    "offset c = offset_at off0 (bytes_read c) (bytes_written c)" "size_to_splice c = T"
  using assms by (auto simp: ctx_inv_def)

lemma stream_rel_same_view:
  "same_view P e e' \<Longrightarrow> stream_rel P S D c e' = stream_rel P S D c e"
  by (simp add: stream_rel_def same_view_def src_of_def dst_of_def)

lemma ctx_inv_same_view:
  "same_view P e e' \<Longrightarrow> ctx_inv P pw pr off0 T S D c e' = ctx_inv P pw pr off0 T S D c e"
  by (simp add: ctx_inv_def stream_rel_same_view)

lemma stream_rel_buf_length:
  "stream_rel P S D c e \<Longrightarrow> length (v_buf P e) = unat (bytes_read c) - unat (bytes_written c)"
  by (simp add: stream_rel_def)

section \<open>Reading from the source\<close>

text \<open>What an attempt to fill the pipe may have done to the context, by its result.\<close>

definition fill_effect ::
    "'s splice_ctx \<Rightarrow> splice_outcome io_result \<Rightarrow> 's splice_ctx \<Rightarrow> bool" where
  "fill_effect c res c' \<longleftrightarrow>
     size_to_splice c' = size_to_splice c \<and> bytes_written c' = bytes_written c \<and>
     drain_fd (pipe c') = drain_fd (pipe c) \<and>
     (case res of
        Ok Closed \<Rightarrow> is_source_done c' \<and> bytes_read c' = bytes_read c
      | Ok NoProgress \<Rightarrow> False
      | Ok (BytesWritten n) \<Rightarrow> n \<noteq> 0 \<and> n \<le> size_to_splice c - bytes_read c \<and>
                              bytes_read c' = bytes_read c + n \<and> pipe c' = pipe c
      | Err _ \<Rightarrow> bytes_read c' = bytes_read c \<and> pipe c' = pipe c)"

lemma close_keeps_fill:
  "close_keeps os P pw pr \<Longrightarrow> d \<in> {None, Some pw} \<Longrightarrow> same_view P e (drop_fd os d e)"
  by (auto simp: close_keeps_def)

lemma close_source_inv:
  assumes keeps: "close_keeps (pf_os pf) P pw pr"
    and inv: "ctx_inv P pw pr off0 T S D c e" and ex: "exhausted S c"
  shows "\<exists>c' e'. close_source pf c e = Val (Ok Closed, c', e') \<and>
           ctx_inv P pw pr off0 T S D c' e' \<and> fill_effect c (Ok Closed) c'"
proof -
  let ?c' = "c\<lparr>pipe := pipe c\<lparr>pipe_fill_fd := None\<rparr>\<rparr>"
  let ?e' = "drop_fd (pf_os pf) (pipe_fill_fd (pipe c)) e"
  have "same_view P e ?e'"
    using keeps inv by (intro close_keeps_fill) (auto simp: ctx_inv_def ends_ok_def rust_defs)
  then have "stream_rel P S D c ?e'"
    using inv by (simp add: stream_rel_same_view ctx_inv_def)
  then have "ctx_inv P pw pr off0 T S D ?c' ?e'"
    using inv ex
    by (auto simp: ctx_inv_def counts_ok_def ends_ok_def stream_rel_def src_of_def dst_of_def
        exhausted_def rust_defs)
  moreover have "close_source pf c e = Val (Ok Closed, ?c', ?e')"
    by (simp add: close_source_def rust_defs)
  moreover have "fill_effect c (Ok Closed) ?c'"
    by (simp add: fill_effect_def rust_defs)
  ultimately show ?thesis by blast
qed

text \<open>The counters after a successful read, when the kernel's reply respects the room left.\<close>

lemma read_progress:
  assumes inv: "ctx_inv P pw pr off0 T S D c e"
    and moved: "moved_in P (off_in (offset c)) e (size_to_splice c - bytes_read c)
                  (Ok n) off' e'"
    and kept: "(off' = None) = (off_in (offset c) = None)"
    and c': "c' = c\<lparr>splicer := s', offset := put_off_in (offset c) off',
                    bytes_read_field := bytes_read c + n\<rparr>"
  shows "ctx_inv P pw pr off0 T S D c' e'"
proof -
  from ctx_invD(1) [OF inv] have le: "bytes_written c \<le> bytes_read c"
    "bytes_read c \<le> size_to_splice c"
    by (simp_all add: counts_ok_def)
  from moved have n: "n \<le> size_to_splice c - bytes_read c" "unat n \<le> length (src_of P c e)"
    by (simp_all add: moved_in_def src_of_def)
  have r': "bytes_read c' = bytes_read c + n" "unat (bytes_read c') = unat (bytes_read c) + unat n"
    using unat_add_room [OF le(2) n(1)] by (simp_all add: c' bytes_read_def)
  have w': "bytes_written c' = bytes_written c" "size_to_splice c' = size_to_splice c"
    "pipe c' = pipe c"
    by (simp_all add: c' bytes_written_def)
  have offs: "off_in (offset c') = off'" "off_out (offset c') = off_out (offset c)"
    using kept by (simp_all add: c')
  have cnt: "counts_ok c'"
    using le add_room_le [OF le(2) n(1)] le_add_room [OF le(2) n(1)]
    by (auto simp: counts_ok_def r' w')
  from ctx_invD(3) [OF inv] have st: "stream_rel P S D c e" .
  have wr: "unat (bytes_written c) \<le> unat (bytes_read c)"
    using le(1) by (simp add: word_le_nat_alt)
  let ?R = "unat (bytes_read c)" and ?W = "unat (bytes_written c)"
  have "drop ?W (take (?R + unat n) S) = drop ?W (take ?R S) @ take (unat n) (drop ?R S)"
    using wr st by (simp add: take_add stream_rel_def)
  moreover have "?R + unat n \<le> length S"
    using st n(2) by (auto simp: stream_rel_def)
  ultimately have "stream_rel P S D c' e'"
    using st moved n(2) unfolding stream_rel_def r'(2) w'
    by (clarsimp simp: src_of_def dst_of_def moved_in_def offs add.commute)
  moreover have idle: "n = 0" if "is_source_done c"
    using ctx_invD(4) [OF inv that] n st
    by (auto simp: exhausted_def stream_rel_def unat_eq_zero)
  then have "is_source_done c' \<Longrightarrow> exhausted S c'"
    using ctx_invD(4) [OF inv] r' w' by (simp add: is_source_done_def exhausted_def)
  moreover have "is_drain_done (pipe c') \<Longrightarrow> is_finished c'"
    using ctx_invD(5) [OF inv] r' w' idle by (simp add: is_finished_def is_source_done_def)
  moreover have "offset c' = offset_at off0 (bytes_read c') (bytes_written c')"
    using moved offset_at_read [of off0] ctx_invD(6) [OF inv] r'(1) w'(1)
    by (simp add: c' moved_in_def)
  ultimately show ?thesis
    using cnt ctx_invD(2,7) [OF inv] by (simp add: ctx_inv_def ends_ok_def w')
qed

text \<open>An attempt that moved nothing leaves at most a new splicer state behind.\<close>

lemma idle_inv:
  assumes inv: "ctx_inv P pw pr off0 T S D c e"
    and "src_of P c e' = src_of P c e" and "v_buf P e' = v_buf P e"
    and "dst_of P c e' = dst_of P c e"
  shows "ctx_inv P pw pr off0 T S D (c\<lparr>splicer := s'\<rparr>) e'"
proof -
  have same: "src_of P (c\<lparr>splicer := s'\<rparr>) e' = src_of P c e'"
    "dst_of P (c\<lparr>splicer := s'\<rparr>) e' = dst_of P c e'"
    by (simp_all add: src_of_def dst_of_def)
  show ?thesis
    using assms
    by (clarsimp simp: ctx_inv_def stream_rel_def same counts_ok_def ends_ok_def
        exhausted_def is_finished_def is_source_done_def bytes_read_def bytes_written_def)
qed

lemma idle_in:
  "moved_in P (off_in (offset c)) e m res off' e' \<Longrightarrow> res = Ok 0 \<or> (\<exists>er. res = Err er) \<Longrightarrow>
     ctx_inv P pw pr off0 T S D c e \<Longrightarrow>
     c\<lparr>splicer := s', offset := put_off_in (offset c) off'\<rparr> = c\<lparr>splicer := s'\<rparr> \<and>
     ctx_inv P pw pr off0 T S D (c\<lparr>splicer := s'\<rparr>) e'"
  by (cases res) (auto simp: moved_in_def src_of_def dst_of_def intro!: idle_inv)

lemma idle_out:
  "moved_out P (off_out (offset c)) e m (Err er) off' e' \<Longrightarrow>
     ctx_inv P pw pr off0 T S D c e \<Longrightarrow>
     c\<lparr>splicer := s', offset := put_off_out (offset c) off'\<rparr> = c\<lparr>splicer := s'\<rparr> \<and>
     ctx_inv P pw pr off0 T S D (c\<lparr>splicer := s'\<rparr>) e'"
  by (auto simp: moved_out_def src_of_def dst_of_def intro!: idle_inv)

text \<open>
  \<open>try_splice_from_source\<close> never panics while the fill end is there or the target is reached,
  keeps the invariant, and has exactly the effect its result announces.
\<close>

lemma from_source_ok:
  assumes moves: "splicer_moves (pf_ops pf) P r w pw pr"
    and keeps: "close_keeps (pf_os pf) P pw pr"
    and inv: "ctx_inv P pw pr off0 T S D c e"
    and ready: "is_source_done c \<Longrightarrow> bytes_read c = size_to_splice c"
  shows "\<exists>res c' e'. try_splice_from_source pf r c e = Val (res, c', e') \<and>
           ctx_inv P pw pr off0 T S D c' e' \<and> fill_effect c res c'"
proof (cases "bytes_read c = size_to_splice c")
  case True
  then have "exhausted S c" by (simp add: exhausted_def)
  from close_source_inv [OF keeps inv this] obtain c' e' where
    "close_source pf c e = Val (Ok Closed, c', e')" "ctx_inv P pw pr off0 T S D c' e'"
    "fill_effect c (Ok Closed) c'"
    by blast
  with True show ?thesis by (simp add: try_splice_from_source_def)
next
  case False
  let ?m = "size_to_splice c - bytes_read c"
  have le: "bytes_read c \<le> size_to_splice c" and m: "?m \<noteq> 0"
    using False ctx_invD(1) [OF inv] by (simp_all add: counts_ok_def)
  have fill: "fill_fd (pipe c) = Some pw"
    using False ready ctx_invD(2) [OF inv]
    by (auto simp: ends_ok_def is_source_done_def is_fill_done_def fill_fd_def)
  obtain res off' s' e1 where run:
    "splice_in (pf_ops pf) (splicer c) r (off_in (offset c)) pw ?m e = Val (res, off', s', e1)"
    and kept: "(off' = None) = (off_in (offset c) = None)"
    and moved: "moved_in P (off_in (offset c)) e ?m res off' e1"
    by (rule splicer_moves_in [OF moves])
  let ?c1 = "c\<lparr>splicer := s', offset := put_off_in (offset c) off'\<rparr>"
  show ?thesis
  proof (cases "\<exists>n. res = Ok n \<and> n \<noteq> 0")
    case True
    then obtain n where n: "res = Ok n" "n \<noteq> 0" by blast
    let ?c' = "?c1\<lparr>bytes_read_field := bytes_read c + n\<rparr>"
    have "n \<le> ?m" using moved n by (simp add: moved_in_def)
    with le have add: "usize_add (pf_profile pf) (bytes_read c) n = Val (bytes_read c + n)"
      by (rule usize_add_room)
    have "try_splice_from_source pf r c e = Val (Ok (BytesWritten n), ?c', e1)"
      using le m fill run n add
      by (simp add: try_splice_from_source_def word_pos_iff Let_def bytes_read_def)
    moreover have "ctx_inv P pw pr off0 T S D ?c' e1"
      by (rule read_progress [OF inv _ kept refl]) (use moved n in simp)
    moreover have "fill_effect c (Ok (BytesWritten n)) ?c'"
      using n \<open>n \<le> ?m\<close> by (simp add: fill_effect_def rust_defs)
    ultimately show ?thesis by blast
  next
    case no: False
    have idle: "ctx_inv P pw pr off0 T S D ?c1 e1"
      if "res = Ok 0 \<or> (\<exists>er. res = Err er)"
      using idle_in [OF moved that inv] by simp
    show ?thesis
    proof (cases res)
      case (Err er)
      then have "try_splice_from_source pf r c e = Val (Err er, ?c1, e1)"
        using le m fill run by (simp add: try_splice_from_source_def Let_def)
      moreover have "fill_effect c (Err er) ?c1" by (simp add: fill_effect_def rust_defs)
      ultimately show ?thesis using idle Err by blast
    next
      case (Ok n)
      with no have n: "res = Ok 0" by simp
      then have "exhausted S ?c1"
        using moved m ctx_invD(3) [OF inv]
        by (auto simp: moved_in_def exhausted_def stream_rel_def src_of_def rust_defs)
      from close_source_inv [OF keeps idle this] n obtain c' e' where
        "close_source pf ?c1 e1 = Val (Ok Closed, c', e')" "ctx_inv P pw pr off0 T S D c' e'"
        "fill_effect ?c1 (Ok Closed) c'"
        by blast
      moreover from this(1) n have "try_splice_from_source pf r c e = Val (Ok Closed, c', e')"
        using le m fill run by (simp add: try_splice_from_source_def Let_def)
      moreover from calculation(3) have "fill_effect c (Ok Closed) c'"
        by (simp add: fill_effect_def rust_defs)
      ultimately show ?thesis by blast
    qed
  qed
qed

section \<open>Writing to the destination\<close>

text \<open>What an attempt to drain the pipe may have done to the context, by its result.\<close>

definition drain_effect ::
    "'s splice_ctx \<Rightarrow> splice_outcome io_result \<Rightarrow> 's splice_ctx \<Rightarrow> bool" where
  "drain_effect c res c' \<longleftrightarrow>
     size_to_splice c' = size_to_splice c \<and> bytes_read c' = bytes_read c \<and>
     fill_fd (pipe c') = fill_fd (pipe c) \<and>
     (case res of
        Ok Closed \<Rightarrow> is_drain_done (pipe c') \<and> is_finished c' \<and> bytes_written c' = bytes_written c
      | Ok NoProgress \<Rightarrow> \<not> is_source_done c \<and> \<not> pipe_has_data c \<and> c' = c
      | Ok (BytesWritten n) \<Rightarrow> n \<noteq> 0 \<and> n \<le> bytes_read c - bytes_written c \<and>
                              bytes_written c' = bytes_written c + n \<and> pipe c' = pipe c
      | Err _ \<Rightarrow> pipe_has_data c \<and> bytes_written c' = bytes_written c \<and> pipe c' = pipe c)"

lemma close_dest_inv:
  assumes keeps: "close_keeps (pf_os pf) P pw pr"
    and inv: "ctx_inv P pw pr off0 T S D c e"
    and fin: "is_finished c"
  shows "\<exists>c' e'. close_dest pf c e = Val (Ok Closed, c', e') \<and>
           ctx_inv P pw pr off0 T S D c' e' \<and> drain_effect c (Ok Closed) c'"
proof -
  let ?c' = "c\<lparr>pipe := pipe c\<lparr>pipe_drain_fd := None\<rparr>\<rparr>"
  let ?e' = "drop_fd (pf_os pf) (pipe_drain_fd (pipe c)) e"
  have buf: "v_buf P e = []"
    using stream_rel_buf_length [OF ctx_invD(3) [OF inv]] fin by (simp add: is_finished_def)
  have "pipe_drain_fd (pipe c) \<in> {None, Some pr}"
    using ctx_invD(2) [OF inv] by (auto simp: ends_ok_def drain_fd_def)
  then have "stream_rel P S D c ?e'"
    using ctx_invD(3) [OF inv] buf keeps
    by (auto simp: stream_rel_def src_of_def dst_of_def close_keeps_def)
  then have "ctx_inv P pw pr off0 T S D ?c' ?e'"
    using inv fin
    by (auto simp: ctx_inv_def counts_ok_def ends_ok_def stream_rel_def src_of_def dst_of_def
        exhausted_def rust_defs)
  moreover have "close_dest pf c e = Val (Ok Closed, ?c', ?e')"
    by (simp add: close_dest_def rust_defs)
  moreover have "drain_effect c (Ok Closed) ?c'"
    using fin by (simp add: drain_effect_def rust_defs)
  ultimately show ?thesis by blast
qed

lemma write_progress:
  assumes inv: "ctx_inv P pw pr off0 T S D c e"
    and open_end: "\<not> is_drain_done (pipe c)"
    and moved: "moved_out P (off_out (offset c)) e (bytes_read c - bytes_written c)
                  (Ok n) off' e'"
    and kept: "(off' = None) = (off_out (offset c) = None)"
    and c': "c' = c\<lparr>splicer := s', offset := put_off_out (offset c) off',
                    bytes_written_field := bytes_written c + n\<rparr>"
  shows "ctx_inv P pw pr off0 T S D c' e'"
proof -
  from ctx_invD(1) [OF inv] have le: "bytes_written c \<le> bytes_read c"
    "bytes_read c \<le> size_to_splice c"
    by (simp_all add: counts_ok_def)
  from moved have n: "n \<le> bytes_read c - bytes_written c"
    by (simp add: moved_out_def)
  have w': "bytes_written c' = bytes_written c + n"
    "unat (bytes_written c') = unat (bytes_written c) + unat n"
    using unat_add_room [OF le(1) n] by (simp_all add: c' bytes_written_def)
  have r': "bytes_read c' = bytes_read c" "size_to_splice c' = size_to_splice c"
    "pipe c' = pipe c"
    by (simp_all add: c' bytes_read_def)
  have offs: "off_out (offset c') = off'" "off_in (offset c') = off_in (offset c)"
    using kept by (simp_all add: c')
  have cnt: "counts_ok c'"
    using le add_room_le [OF le(1) n] by (auto simp: counts_ok_def r' w')
  from ctx_invD(3) [OF inv] have st: "stream_rel P S D c e" .
  let ?R = "unat (bytes_read c)" and ?W = "unat (bytes_written c)"
  have room: "?W + unat n \<le> ?R"
    using add_room_le [OF le(1) n] unat_add_room [OF le(1) n] by (simp add: word_le_nat_alt)
  have "take (?W + unat n) S = take ?W S @ take (unat n) (drop ?W (take ?R S))"
    using room by (simp add: take_add drop_take min_def)
  then have "stream_rel P S D c' e'"
    using st moved unfolding stream_rel_def w'(2) r'
    by (clarsimp simp: src_of_def dst_of_def moved_out_def offs add.commute)
  moreover have "offset c' = offset_at off0 (bytes_read c') (bytes_written c')"
    using moved offset_at_written [of off0] ctx_invD(6) [OF inv] w'(1) r'(1)
    by (simp add: c' moved_out_def)
  ultimately show ?thesis
    using cnt ctx_invD(2,4,7) [OF inv] open_end
    by (simp add: ctx_inv_def ends_ok_def r' exhausted_def is_source_done_def)
qed

text \<open>
  \<open>try_splice_to_dest\<close> never panics while the drain end is there, keeps the invariant, and has
  exactly the effect its result announces; in particular it fails only with bytes left in the
  pipe, and gives up (\<open>NoProgress\<close>) only on an empty pipe that can still be filled.
\<close>

lemma to_dest_ok:
  assumes moves: "splicer_moves (pf_ops pf) P r w pw pr"
    and keeps: "close_keeps (pf_os pf) P pw pr"
    and inv: "ctx_inv P pw pr off0 T S D c e"
    and open_end: "\<not> is_drain_done (pipe c)"
  shows "\<exists>res c' e'. try_splice_to_dest pf w c e = Val (res, c', e') \<and>
           ctx_inv P pw pr off0 T S D c' e' \<and> drain_effect c res c'"
proof (cases "bytes_read c = bytes_written c")
  case True
  show ?thesis
  proof (cases "is_source_done c")
    case src_done: True
    with True have "is_finished c" by (simp add: is_finished_def is_source_done_def)
    from close_dest_inv [OF keeps inv this] True src_done show ?thesis
      by (auto simp: try_splice_to_dest_def)
  next
    case False
    with True inv show ?thesis
      by (auto simp: try_splice_to_dest_def drain_effect_def pipe_has_data_def)
  qed
next
  case False
  let ?m = "bytes_read c - bytes_written c"
  have le: "bytes_written c \<le> bytes_read c" and m: "?m \<noteq> 0"
    using False ctx_invD(1) [OF inv] by (simp_all add: counts_ok_def)
  have data: "pipe_has_data c" using le False by (simp add: pipe_has_data_def)
  have drain: "drain_fd (pipe c) = Some pr"
    using open_end ctx_invD(2) [OF inv] by (auto simp: ends_ok_def drain_fd_def is_drain_done_def)
  obtain res off' s' e1 where run:
    "splice_out (pf_ops pf) (splicer c) pr w (off_out (offset c)) ?m e = Val (res, off', s', e1)"
    and kept: "(off' = None) = (off_out (offset c) = None)"
    and moved: "moved_out P (off_out (offset c)) e ?m res off' e1"
    by (rule splicer_moves_out [OF moves])
  let ?c1 = "c\<lparr>splicer := s', offset := put_off_out (offset c) off'\<rparr>"
  show ?thesis
  proof (cases res)
    case (Ok n)
    have "v_buf P e \<noteq> []"
      using stream_rel_buf_length [OF ctx_invD(3) [OF inv]] data
      by (auto simp: pipe_has_data_def word_less_nat_alt)
    with moved Ok m have n: "n \<noteq> 0" "n \<le> ?m" by (auto simp: moved_out_def)
    let ?c' = "?c1\<lparr>bytes_written_field := bytes_written c + n\<rparr>"
    have add: "usize_add (pf_profile pf) (bytes_written c) n = Val (bytes_written c + n)"
      using le n(2) by (rule usize_add_room)
    have "try_splice_to_dest pf w c e = Val (Ok (BytesWritten n), ?c', e1)"
      using le m drain run Ok n add
      by (simp add: try_splice_to_dest_def word_pos_iff Let_def bytes_written_def)
    moreover have "ctx_inv P pw pr off0 T S D ?c' e1"
      by (rule write_progress [OF inv open_end _ kept refl]) (use moved Ok in simp)
    moreover have "drain_effect c (Ok (BytesWritten n)) ?c'"
      using n by (simp add: drain_effect_def rust_defs)
    ultimately show ?thesis by blast
  next
    case (Err er)
    have "try_splice_to_dest pf w c e = Val (Err er, ?c1, e1)"
      using le m drain run Err by (simp add: try_splice_to_dest_def Let_def)
    moreover have "ctx_inv P pw pr off0 T S D ?c1 e1"
      using idle_out [OF moved [unfolded Err] inv] by simp
    moreover have "drain_effect c (Err er) ?c1"
      using data by (simp add: drain_effect_def rust_defs)
    ultimately show ?thesis by blast
  qed
qed

end
