(* ===== verification/Fd.thy ===== *)
theory Fd
  imports Ctx_Inv
begin

text \<open>
  The descriptor traits and their implementations (\<open>src/io/fd.rs\<close>): which types are files,
  how readiness is polled, and how an operation is attempted through \<open>try_io\<close>.
\<close>

section \<open>Marker traits\<close>

text \<open>
  The types the crate implements its traits for, closed under the two blanket implementations
  for references.
\<close>

datatype fd_type = TcpStream | UnixStream | File | Ref_Mut fd_type | Pin_Ref_Mut fd_type

fun impl_is_file :: "fd_type \<Rightarrow> bool" where
  "impl_is_file File = True"
| "impl_is_file (Ref_Mut t) = impl_is_file t"
| "impl_is_file (Pin_Ref_Mut t) = impl_is_file t"
| "impl_is_file _ = False"

fun impl_is_not_file :: "fd_type \<Rightarrow> bool" where
  "impl_is_not_file TcpStream = True"
| "impl_is_not_file UnixStream = True"
| "impl_is_not_file (Ref_Mut t) = impl_is_not_file t"
| "impl_is_not_file (Pin_Ref_Mut t) = impl_is_not_file t"
| "impl_is_not_file _ = False"

text \<open>
  \<open>AsyncReadFd\<close> and \<open>AsyncWriteFd\<close> are implemented for the same types; there is no blanket
  implementation for pinned references.
\<close>

fun impl_async_fd :: "fd_type \<Rightarrow> bool" where
  "impl_async_fd TcpStream = True"
| "impl_async_fd UnixStream = True"
| "impl_async_fd File = True"
| "impl_async_fd (Ref_Mut t) = impl_async_fd t"
| "impl_async_fd (Pin_Ref_Mut t) = False"

lemma file_markers_exclusive: "impl_is_file t \<noteq> impl_is_not_file t"
  by (induction t) auto

section \<open>Readers and writers\<close>

text \<open>
  A type implementing \<open>AsyncReadFd\<close> (\<open>AsyncWriteFd\<close>) as the functions the state machine calls:
  the descriptor, the readiness poll, \<open>try_io\<close> around an attempt, and for writers the shutdown
  of \<open>AsyncWrite\<close>.
\<close>

type_synonym 'e poll_fn = "'e \<Rightarrow> unit io_result poll \<times> 'e"

record ('s, 'e) reader =
  rd_fd :: fd
  rd_poll_ready :: "'e poll_fn"
  rd_try_io :: "('s, 'e) attempt \<Rightarrow> ('s, 'e) attempt"

record ('s, 'e) writer =
  wr_fd :: fd
  wr_poll_ready :: "'e poll_fn"
  wr_try_io :: "('s, 'e) attempt \<Rightarrow> ('s, 'e) attempt"
  wr_poll_shutdown :: "'e poll_fn"

subsection \<open>Sockets\<close>

text \<open>What the crate calls of tokio's \<open>TcpStream\<close> and \<open>UnixStream\<close>.\<close>

datatype interest = READABLE | WRITABLE

record ('s, 'e) tokio_stream =
  tk_fd :: fd
  tk_poll_read_ready :: "'e poll_fn"
  tk_poll_write_ready :: "'e poll_fn"
  tk_try_io :: "interest \<Rightarrow> ('s, 'e) attempt \<Rightarrow> ('s, 'e) attempt"
  tk_poll_shutdown :: "'e poll_fn"

definition stream_reader :: "('s, 'e) tokio_stream \<Rightarrow> ('s, 'e) reader" where
  "stream_reader tk = \<lparr>rd_fd = tk_fd tk, rd_poll_ready = tk_poll_read_ready tk,
     rd_try_io = tk_try_io tk READABLE\<rparr>"

definition stream_writer :: "('s, 'e) tokio_stream \<Rightarrow> ('s, 'e) writer" where
  "stream_writer tk = \<lparr>wr_fd = tk_fd tk, wr_poll_ready = tk_poll_write_ready tk,
     wr_try_io = tk_try_io tk WRITABLE, wr_poll_shutdown = tk_poll_shutdown tk\<rparr>"

subsection \<open>Files\<close>

text \<open>A file is always ready and its \<open>try_io\<close> is the bare call; its shutdown is tokio's.\<close>

definition file_poll_ready :: "'e poll_fn" where
  "file_poll_ready e = (Ready (Ok ()), e)"

definition file_try_io :: "('s, 'e) attempt \<Rightarrow> ('s, 'e) attempt" where
  "file_try_io f = f"

definition file_reader :: "fd \<Rightarrow> ('s, 'e) reader" where
  "file_reader d = \<lparr>rd_fd = d, rd_poll_ready = file_poll_ready, rd_try_io = file_try_io\<rparr>"

definition file_writer :: "fd \<Rightarrow> 'e poll_fn \<Rightarrow> ('s, 'e) writer" where
  "file_writer d shutdown = \<lparr>wr_fd = d, wr_poll_ready = file_poll_ready, wr_try_io = file_try_io,
     wr_poll_shutdown = shutdown\<rparr>"

subsection \<open>Mutable references\<close>

text \<open>The blanket implementations for \<open>&mut T\<close> forward every method.\<close>

definition ref_try_io ::
    "(('s, 'e) attempt \<Rightarrow> ('s, 'e) attempt) \<Rightarrow> ('s, 'e) attempt \<Rightarrow> ('s, 'e) attempt" where
  "ref_try_io t f = t f"

definition ref_reader :: "('s, 'e) reader \<Rightarrow> ('s, 'e) reader" where
  "ref_reader rd = \<lparr>rd_fd = rd_fd rd, rd_poll_ready = rd_poll_ready rd,
     rd_try_io = ref_try_io (rd_try_io rd)\<rparr>"

definition ref_writer :: "('s, 'e) writer \<Rightarrow> ('s, 'e) writer" where
  "ref_writer wr = \<lparr>wr_fd = wr_fd wr, wr_poll_ready = wr_poll_ready wr,
     wr_try_io = ref_try_io (wr_try_io wr), wr_poll_shutdown = wr_poll_shutdown wr\<rparr>"

lemmas fd_impl_defs =
  stream_reader_def stream_writer_def file_poll_ready_def file_try_io_def file_reader_def
  file_writer_def ref_try_io_def ref_reader_def ref_writer_def

declare fd_impl_defs [rust_defs]

lemma ref_mut_transparent: "ref_reader rd = rd" "ref_writer wr = wr"
  by (simp_all add: fd_impl_defs fun_eq_iff)

section \<open>The interface of try_io\<close>

text \<open>
  What every \<open>try_io\<close> gives its caller: it returns either an error without having called the
  closure, or what one call of the closure returned.  A fact about the closure's results that
  also tolerates being skipped is then a fact about the results of \<open>try_io\<close>.
\<close>

locale try_io_iface =
  fixes t :: "('s, 'e) attempt \<Rightarrow> ('s, 'e) attempt"
  assumes passes: "t f c e = Val (res, c', e') \<Longrightarrow>
      (c' = c \<and> (\<exists>er. res = Err er)) \<or> (\<exists>e1 e2. f c e1 = Val (res, c', e2))"
begin

lemma lift_result:
  assumes run: "t f c e = Val (res, c', e')"
    and called: "\<And>e1 res c' e2. f c e1 = Val (res, c', e2) \<Longrightarrow> Q res c'"
    and skipped: "\<And>er. Q (Err er) c"
  shows "Q res c'"
  using passes [OF run] called skipped by blast

end

interpretation file_io: try_io_iface "file_try_io :: ('s, 'e) attempt \<Rightarrow> ('s, 'e) attempt"
  by unfold_locales (auto simp: fd_impl_defs)

text \<open>A reference to an implementation is an implementation.\<close>

sublocale try_io_iface \<subseteq> through_ref: try_io_iface "ref_try_io t"
  rewrites "ref_try_io t = t"
  by unfold_locales (auto simp: ref_try_io_def fun_eq_iff dest: passes)

section \<open>What a transfer relies on\<close>

text \<open>
  The documented behaviour of the runtime, up to a relation \<open>R\<close> between states of the
  surroundings that agree on what matters (the bytes a probe shows, the descriptors that are
  open): polling readiness, shutting the writer down and the bookkeeping of \<open>try_io\<close> stay within
  \<open>R\<close>; \<open>try_io\<close> returns what the closure returns or an error without calling it; and once a
  writer was reported ready, \<open>try_io\<close> does call the closure.
\<close>

definition ran :: "('e \<Rightarrow> 'e \<Rightarrow> bool) \<Rightarrow> ('s, 'e) attempt \<Rightarrow> 's splice_ctx \<Rightarrow> 'e
    \<Rightarrow> (splice_outcome io_result \<times> 's splice_ctx \<times> 'e) comp \<Rightarrow> bool" where
  "ran R f c e out \<longleftrightarrow>
     (\<exists>e1. R e e1 \<and>
        (case f c e1 of
           Panic p \<Rightarrow> out = Panic p
         | Val (res, c', e2) \<Rightarrow> \<exists>e'. out = Val (res, c', e') \<and> R e2 e'))"

definition poll_keeps :: "('e \<Rightarrow> 'e \<Rightarrow> bool) \<Rightarrow> 'e poll_fn \<Rightarrow> bool" where
  "poll_keeps R pl \<longleftrightarrow> (\<forall>e. R e (snd (pl e)))"

definition reader_ok :: "('e \<Rightarrow> 'e \<Rightarrow> bool) \<Rightarrow> ('s, 'e) reader \<Rightarrow> bool" where
  "reader_ok R rd \<longleftrightarrow>
     poll_keeps R (rd_poll_ready rd) \<and>
     (\<forall>f c e. ran R f c e (rd_try_io rd f c e) \<or>
        (\<exists>er e'. rd_try_io rd f c e = Val (Err er, c, e') \<and> R e e'))"

definition writer_ok :: "('e \<Rightarrow> 'e \<Rightarrow> bool) \<Rightarrow> ('s, 'e) writer \<Rightarrow> bool" where
  "writer_ok R wr \<longleftrightarrow>
     poll_keeps R (wr_poll_ready wr) \<and> poll_keeps R (wr_poll_shutdown wr) \<and>
     (\<forall>f c e0 e. wr_poll_ready wr e0 = (Ready (Ok ()), e) \<longrightarrow>
        ran R f c e (wr_try_io wr f c e))"

lemma poll_keepsD: "poll_keeps R pl \<Longrightarrow> pl e = (x, e') \<Longrightarrow> R e e'"
  by (metis poll_keeps_def snd_conv)

lemma reader_okD:
  assumes "reader_ok R rd"
  shows "poll_keeps R (rd_poll_ready rd)"
    and "ran R f c e (rd_try_io rd f c e) \<or>
        (\<exists>er e'. rd_try_io rd f c e = Val (Err er, c, e') \<and> R e e')"
  using assms by (simp_all add: reader_ok_def)

lemma writer_okD:
  assumes "writer_ok R wr"
  shows "poll_keeps R (wr_poll_ready wr)" "poll_keeps R (wr_poll_shutdown wr)"
    and "wr_poll_ready wr e0 = (Ready (Ok ()), e) \<Longrightarrow> ran R f c e (wr_try_io wr f c e)"
  using assms by (simp_all add: writer_ok_def)

text \<open>
  A contract of the closure that is blind to \<open>R\<close> is a contract of \<open>try_io\<close>: \<open>I\<close> is what the
  closure needs and keeps, \<open>Q\<close> what it promises of its result.
\<close>

lemma ranD:
  assumes "ran R f c e out" and inv: "I c e"
    and blind: "\<And>c e e'. R e e' \<Longrightarrow> I c e \<Longrightarrow> I c e'"
    and f: "\<And>e1. I c e1 \<Longrightarrow> \<exists>res c' e'. f c e1 = Val (res, c', e') \<and> I c' e' \<and> Q res c'"
  shows "\<exists>res c' e'. out = Val (res, c', e') \<and> I c' e' \<and> Q res c'"
proof -
  obtain e1 where e1: "R e e1" and out: "case f c e1 of Panic p \<Rightarrow> out = Panic p
         | Val (res, c', e2) \<Rightarrow> \<exists>e'. out = Val (res, c', e') \<and> R e2 e'"
    using assms(1) by (auto simp: ran_def)
  from f [OF blind [OF e1 inv]] obtain res c' e2 where "f c e1 = Val (res, c', e2)"
    "I c' e2" "Q res c'"
    by blast
  with out blind show ?thesis by auto
qed

text \<open>The same for the results of a call that is known to have returned.\<close>

lemma ran_ValD:
  assumes "ran R f c e (Val (res, c', e'))"
  obtains e1 e2 where "R e e1" "f c e1 = Val (res, c', e2)" "R e2 e'"
proof -
  obtain e1 where e1: "R e e1" and out: "case f c e1 of Panic p \<Rightarrow> Val (res, c', e') = Panic p
         | Val (res0, c0, e2) \<Rightarrow> \<exists>e0. Val (res, c', e') = Val (res0, c0, e0) \<and> R e2 e0"
    using assms by (auto simp: ran_def)
  show thesis
  proof (cases "f c e1")
    case (Val v)
    obtain r0 c0 e2 where "v = (r0, c0, e2)" by (cases v)
    with out Val have "f c e1 = Val (res, c', e2)" "R e2 e'" by auto
    with e1 show thesis by (rule that)
  qed (use out in simp)
qed

text \<open>Files satisfy all of it by their own code; only their shutdown is tokio's.\<close>

lemma ran_self: "(\<And>e. R e e) \<Longrightarrow> ran R f c e (f c e)"
  unfolding ran_def by (rule exI [of _ e]) (auto split: comp.splits)

lemma file_reader_ok: "(\<And>e. R e e) \<Longrightarrow> reader_ok R (file_reader d)"
  by (simp add: reader_ok_def poll_keeps_def fd_impl_defs ran_self)

lemma file_writer_ok:
  "(\<And>e. R e e) \<Longrightarrow> poll_keeps R shutdown \<Longrightarrow> writer_ok R (file_writer d shutdown)"
  by (simp add: writer_ok_def poll_keeps_def fd_impl_defs ran_self)

end
