(* ===== verification/Splice_Io.thy ===== *)
theory Splice_Io
  imports Fd
begin

text \<open>
  The one-directional transfer (\<open>SpliceIo\<close> in \<open>src/io/mod.rs\<close> and \<open>src/transfer_report.rs\<close>):
  the fill/drain/finished state machine, one poll of it as a loop, and \<open>execute\<close>.
\<close>

section \<open>State\<close>

datatype transfer_state = Fill | Drain | Finished "io_error option"

definition finished :: transfer_state where "finished = Finished None"

definition faulted :: "io_error \<Rightarrow> transfer_state" where "faulted er = Finished (Some er)"

record 's splice_io =
  ctx :: "'s splice_ctx"
  state :: transfer_state

text \<open>\<open>From<SpliceCtx>\<close>, the test-only state name, and \<open>Deref\<close>'s target.\<close>

definition io_from :: "'s splice_ctx \<Rightarrow> 's splice_io" where
  "io_from c = \<lparr>ctx = c, state = Fill\<rparr>"

definition state_name :: "'s splice_io \<Rightarrow> string" where
  "state_name io = (case state io of Fill \<Rightarrow> ''Fill'' | Drain \<Rightarrow> ''Drain''
     | Finished _ \<Rightarrow> ''Finished'')"

definition io_deref :: "'s splice_io \<Rightarrow> 's splice_ctx" where
  "io_deref io = ctx io"

record transfer_report =
  tx :: usize
  rx :: usize
  report_error :: "io_error option"

section \<open>One poll\<close>

text \<open>
  The two inner matches: the next state from what \<open>try_io\<close> returned.  The context passed in is
  the one after the attempt, which \<open>pipe_has_data\<close> reads.
\<close>

definition after_fill ::
    "splice_outcome io_result \<Rightarrow> 's splice_ctx \<Rightarrow> transfer_state comp" where
  "after_fill res c =
     (case res of
        Ok Closed \<Rightarrow> Val Drain
      | Ok (BytesWritten n) \<Rightarrow> Val Fill
      | Err er \<Rightarrow>
          if would_block er then (if pipe_has_data c then Val Drain else Val Fill)
          else Val (faulted er)
      | _ \<Rightarrow> Panic Unreachable_Code)"

definition after_drain ::
    "splice_outcome io_result \<Rightarrow> 's splice_ctx \<Rightarrow> transfer_state" where
  "after_drain res c =
     (case res of
        Ok Closed \<Rightarrow> finished
      | Ok NoProgress \<Rightarrow> Fill
      | Ok (BytesWritten n) \<Rightarrow> Drain
      | Err er \<Rightarrow>
          if would_block er then (if pipe_has_data c then Drain else Fill)
          else faulted er)"

type_synonym ('s, 'e) poll_out = "(unit io_result poll \<times> 's splice_io \<times> 'e) comp"

text \<open>
  One round of the \<open>loop\<close> of \<open>poll_execute\<close>.  \<open>ready!(...)?\<close> leaves the function without
  touching the state, both when the call is pending and when it fails.  A finished transfer shuts
  the writer down and hands the error out once (\<open>error.take()\<close>).
\<close>

fun poll_step ::
    "('s, 'e) platform \<Rightarrow> ('s, 'e) reader \<Rightarrow> ('s, 'e) writer \<Rightarrow> 's splice_io \<times> 'e
      \<Rightarrow> ('s splice_io \<times> 'e, ('s, 'e) poll_out) flow" where
  "poll_step pf r w (io, e) =
     (case state io of
        Finished error \<Rightarrow>
          (case wr_poll_shutdown w e of
             (Pending, e') \<Rightarrow> Break (Val (Pending, io, e'))
           | (Ready (Err er), e') \<Rightarrow> Break (Val (Ready (Err er), io, e'))
           | (Ready (Ok _), e') \<Rightarrow>
               Break (Val (Ready (case error of Some er \<Rightarrow> Err er | None \<Rightarrow> Ok ()),
                           io\<lparr>state := Finished None\<rparr>, e')))
      | Fill \<Rightarrow>
          (case rd_poll_ready r e of
             (Pending, e') \<Rightarrow> Break (Val (Pending, io, e'))
           | (Ready (Err er), e') \<Rightarrow> Break (Val (Ready (Err er), io, e'))
           | (Ready (Ok _), e1) \<Rightarrow>
               (case rd_try_io r (try_splice_from_source pf (rd_fd r)) (ctx io) e1 of
                  Panic p \<Rightarrow> Break (Panic p)
                | Val (res, c', e2) \<Rightarrow>
                    (case after_fill res c' of
                       Panic p \<Rightarrow> Break (Panic p)
                     | Val st \<Rightarrow> Continue (io\<lparr>ctx := c', state := st\<rparr>, e2))))
      | Drain \<Rightarrow>
          (case wr_poll_ready w e of
             (Pending, e') \<Rightarrow> Break (Val (Pending, io, e'))
           | (Ready (Err er), e') \<Rightarrow> Break (Val (Ready (Err er), io, e'))
           | (Ready (Ok _), e1) \<Rightarrow>
               (case wr_try_io w (try_splice_to_dest pf (wr_fd w)) (ctx io) e1 of
                  Panic p \<Rightarrow> Break (Panic p)
                | Val (res, c', e2) \<Rightarrow>
                    Continue (io\<lparr>ctx := c', state := after_drain res c'\<rparr>, e2))))"

definition poll_execute ::
    "('s, 'e) platform \<Rightarrow> ('s, 'e) reader \<Rightarrow> ('s, 'e) writer \<Rightarrow> 's splice_io \<times> 'e
      \<Rightarrow> ('s, 'e) poll_out option" where
  "poll_execute pf r w = drive (poll_step pf r w)"

section \<open>Running a transfer\<close>

text \<open>
  \<open>execute\<close> awaits \<open>poll_execute\<close>, reports, and drops itself, which closes what is left of the
  pipe.  \<open>park\<close> is what the surroundings do while the task is parked.
\<close>

definition execute ::
    "('s, 'e) platform \<Rightarrow> ('s, 'e) reader \<Rightarrow> ('s, 'e) writer \<Rightarrow> ('e \<Rightarrow> 'e)
      \<Rightarrow> 's splice_io \<Rightarrow> 'e \<Rightarrow> (transfer_report \<times> 'e) comp option" where
  "execute pf r w park io e =
     map_option
       (\<lambda>out. bind_comp out (\<lambda>(res, io', e').
          Val (\<lparr>tx = bytes_written (ctx io'), rx = 0, report_error = err_of res\<rparr>,
               drop_ctx (pf_os pf) (ctx io') e')))
       (await (poll_execute pf r w) (\<lambda>(io, e). (io, park e)) (io, e))"

section \<open>The invariant of the state machine\<close>

text \<open>
  The states say more than the context alone: while filling, a closed source means the target is
  reached; the drain end stays open until the transfer finishes; and a transfer finishes without
  an error only when everything read has been written.
\<close>

definition state_ok :: "'s splice_io \<Rightarrow> bool" where
  "state_ok io \<longleftrightarrow>
     (case state io of
        Fill \<Rightarrow> \<not> is_drain_done (pipe (ctx io)) \<and>
                (is_source_done (ctx io) \<longrightarrow> bytes_read (ctx io) = size_to_splice (ctx io))
      | Drain \<Rightarrow> \<not> is_drain_done (pipe (ctx io))
      | Finished None \<Rightarrow> is_finished (ctx io)
      | Finished (Some _) \<Rightarrow> True)"

definition io_inv ::
    "'e probe \<Rightarrow> fd \<Rightarrow> fd \<Rightarrow> offset \<Rightarrow> usize \<Rightarrow> byte list \<Rightarrow> byte list \<Rightarrow> 's splice_io \<Rightarrow> 'e \<Rightarrow> bool" where
  "io_inv P pw pr off0 T S D io e \<longleftrightarrow> ctx_inv P pw pr off0 T S D (ctx io) e \<and> state_ok io"

text \<open>
  What holds when a poll returns.  \<open>Ready(Ok)\<close> means the transfer is finished, by \<open>state_ok\<close>.
  After \<open>Ready(Err)\<close> either the state is as it was (a readiness poll or the shutdown failed), or
  the error has been taken out of the state, which no longer tells how far the transfer got.
\<close>

fun poll_post ::
    "'e probe \<Rightarrow> fd \<Rightarrow> fd \<Rightarrow> offset \<Rightarrow> usize \<Rightarrow> byte list \<Rightarrow> byte list \<Rightarrow> ('s, 'e) poll_out \<Rightarrow> bool" where
  "poll_post P pw pr off0 T S D (Panic p) = False"
| "poll_post P pw pr off0 T S D (Val (Pending, io, e)) = io_inv P pw pr off0 T S D io e"
| "poll_post P pw pr off0 T S D (Val (Ready (Ok _), io, e)) =
     (io_inv P pw pr off0 T S D io e \<and> state io = Finished None)"
| "poll_post P pw pr off0 T S D (Val (Ready (Err er), io, e)) =
     (io_inv P pw pr off0 T S D io e \<or>
      ctx_inv P pw pr off0 T S D (ctx io) e \<and> state io = Finished None)"

text \<open>Everything a transfer relies on, over one probe.\<close>

definition transfer_env ::
    "('s, 'e) platform \<Rightarrow> 'e probe \<Rightarrow> ('s, 'e) reader \<Rightarrow> ('s, 'e) writer \<Rightarrow> fd \<Rightarrow> fd \<Rightarrow> bool" where
  "transfer_env pf P r w pw pr \<longleftrightarrow>
     splicer_moves (pf_ops pf) P (rd_fd r) (wr_fd w) pw pr \<and>
     close_keeps (pf_os pf) P pw pr \<and>
     reader_ok (same_view P) r \<and> writer_ok (same_view P) w"

lemma io_inv_same_view:
  "same_view P e e' \<Longrightarrow> io_inv P pw pr off0 T S D io e' = io_inv P pw pr off0 T S D io e"
  by (simp add: io_inv_def ctx_inv_same_view)

lemma fill_attempt:
  assumes env: "transfer_env pf P r w pw pr"
    and inv: "io_inv P pw pr off0 T S D io e" and st: "state io = Fill"
  shows "\<exists>res c' e'. rd_try_io r (try_splice_from_source pf (rd_fd r)) (ctx io) e
           = Val (res, c', e') \<and> ctx_inv P pw pr off0 T S D c' e' \<and>
           (fill_effect (ctx io) res c' \<or> ((\<exists>er. res = Err er) \<and> c' = ctx io))"
proof -
  let ?f = "try_splice_from_source pf (rd_fd r)"
  have ci: "ctx_inv P pw pr off0 T S D (ctx io) e"
    and ready: "is_source_done (ctx io) \<Longrightarrow> bytes_read (ctx io) = size_to_splice (ctx io)"
    using inv st by (auto simp: io_inv_def state_ok_def)
  from env have moves: "splicer_moves (pf_ops pf) P (rd_fd r) (wr_fd w) pw pr"
    and keeps: "close_keeps (pf_os pf) P pw pr" and rd: "reader_ok (same_view P) r"
    by (auto simp: transfer_env_def)
  from reader_okD(2) [OF rd, of ?f "ctx io" e] show ?thesis
  proof
    assume "ran (same_view P) ?f (ctx io) e (rd_try_io r ?f (ctx io) e)"
    then have "\<exists>res c' e'. rd_try_io r ?f (ctx io) e = Val (res, c', e') \<and>
        ctx_inv P pw pr off0 T S D c' e' \<and> fill_effect (ctx io) res c'"
      by (rule ranD [where I = "ctx_inv P pw pr off0 T S D" and R = "same_view P"])
        (simp_all add: ci ctx_inv_same_view from_source_ok [OF moves keeps _ ready])
    then show ?thesis by blast
  next
    assume "\<exists>er e'. rd_try_io r ?f (ctx io) e = Val (Err er, ctx io, e') \<and> same_view P e e'"
    with ci show ?thesis by (auto simp: ctx_inv_same_view)
  qed
qed

lemma drain_attempt:
  assumes env: "transfer_env pf P r w pw pr"
    and inv: "io_inv P pw pr off0 T S D io e" and st: "state io = Drain"
    and ready: "wr_poll_ready w e0 = (Ready (Ok ()), e)"
  shows "\<exists>res c' e'. wr_try_io w (try_splice_to_dest pf (wr_fd w)) (ctx io) e
           = Val (res, c', e') \<and> ctx_inv P pw pr off0 T S D c' e' \<and> drain_effect (ctx io) res c'"
proof -
  have ci: "ctx_inv P pw pr off0 T S D (ctx io) e" and opened: "\<not> is_drain_done (pipe (ctx io))"
    using inv st by (auto simp: io_inv_def state_ok_def)
  from env have moves: "splicer_moves (pf_ops pf) P (rd_fd r) (wr_fd w) pw pr"
    and keeps: "close_keeps (pf_os pf) P pw pr" and wr: "writer_ok (same_view P) w"
    by (auto simp: transfer_env_def)
  from writer_okD(3) [OF wr ready] show ?thesis
    by (rule ranD [where I = "ctx_inv P pw pr off0 T S D" and R = "same_view P"])
      (simp_all add: ci ctx_inv_same_view to_dest_ok [OF moves keeps _ opened])
qed

text \<open>
  One round under the invariant: the readiness poll either sends the poll home, or an attempt is
  made.  Every later proof about rounds goes through these rules.
\<close>

lemma fill_polled:
  assumes env: "transfer_env pf P r w pw pr"
    and inv: "io_inv P pw pr off0 T S D io e" and st: "state io = Fill"
  obtains
    (Left) x e1 where "rd_poll_ready r e = (x, e1)" "x \<noteq> Ready (Ok ())" "same_view P e e1"
      "io_inv P pw pr off0 T S D io e1"
  | (Tried) e1 res c' e2 where "rd_poll_ready r e = (Ready (Ok ()), e1)" "same_view P e e1"
      "io_inv P pw pr off0 T S D io e1"
      "rd_try_io r (try_splice_from_source pf (rd_fd r)) (ctx io) e1 = Val (res, c', e2)"
      "ctx_inv P pw pr off0 T S D c' e2"
      "fill_effect (ctx io) res c' \<or> ((\<exists>er. res = Err er) \<and> c' = ctx io)"
proof -
  obtain x e1 where poll: "rd_poll_ready r e = (x, e1)" by (cases "rd_poll_ready r e")
  have view: "same_view P e e1"
    using env poll by (auto simp: transfer_env_def dest: reader_okD(1) poll_keepsD)
  then have inv1: "io_inv P pw pr off0 T S D io e1" using inv by (simp add: io_inv_same_view)
  show thesis
  proof (cases "x = Ready (Ok ())")
    case True
    with fill_attempt [OF env inv1 st] poll view inv1 show thesis by (auto intro: Tried)
  qed (rule Left [OF poll _ view inv1])
qed

lemma drain_polled:
  assumes env: "transfer_env pf P r w pw pr"
    and inv: "io_inv P pw pr off0 T S D io e" and st: "state io = Drain"
  obtains
    (Left) x e1 where "wr_poll_ready w e = (x, e1)" "x \<noteq> Ready (Ok ())" "same_view P e e1"
      "io_inv P pw pr off0 T S D io e1"
  | (Tried) e1 res c' e2 where "wr_poll_ready w e = (Ready (Ok ()), e1)" "same_view P e e1"
      "io_inv P pw pr off0 T S D io e1"
      "wr_try_io w (try_splice_to_dest pf (wr_fd w)) (ctx io) e1 = Val (res, c', e2)"
      "ctx_inv P pw pr off0 T S D c' e2" "drain_effect (ctx io) res c'"
proof -
  obtain x e1 where poll: "wr_poll_ready w e = (x, e1)" by (cases "wr_poll_ready w e")
  have view: "same_view P e e1"
    using env poll by (auto simp: transfer_env_def dest: writer_okD(1) poll_keepsD)
  then have inv1: "io_inv P pw pr off0 T S D io e1" using inv by (simp add: io_inv_same_view)
  show thesis
  proof (cases "x = Ready (Ok ())")
    case True
    with drain_attempt [OF env inv1 st] poll view inv1 show thesis by (auto intro: Tried)
  qed (rule Left [OF poll _ view inv1])
qed

end
