(* ===== verification/Poll_Correct.thy ===== *)
theory Poll_Correct
  imports Splice_Io
begin

text \<open>
  Correctness of \<open>poll_execute\<close>: every round keeps the invariant of the state machine and never
  panics, every round descends unless it spends the runtime's budget, and hence a poll returns.
\<close>

section \<open>One round\<close>

lemma state_ok_after_fill:
  assumes eff: "fill_effect c res c' \<or> ((\<exists>er. res = Err er) \<and> c' = c)"
    and opened: "\<not> is_drain_done (pipe c)"
    and ready: "is_source_done c \<longrightarrow> bytes_read c = size_to_splice c"
    and inv: "counts_ok c"
  shows "\<exists>st. after_fill res c' = Val st \<and> state_ok (io\<lparr>ctx := c', state := st\<rparr>)"
  using assms
  by (cases res; cases "case res of Ok x \<Rightarrow> x | Err _ \<Rightarrow> Closed")
    (auto simp: after_fill_def fill_effect_def state_ok_def is_drain_done_def drain_fd_def
      is_source_done_def is_fill_done_def faulted_def counts_ok_def)

lemma state_ok_after_drain:
  assumes eff: "drain_effect c res c'" and opened: "\<not> is_drain_done (pipe c)"
    and le: "counts_ok c'"
  shows "state_ok (io\<lparr>ctx := c', state := after_drain res c'\<rparr>)"
  using assms
  by (cases res; cases "case res of Ok x \<Rightarrow> x | Err _ \<Rightarrow> Closed")
    (auto simp: after_drain_def drain_effect_def state_ok_def pipe_has_data_def
      finished_def faulted_def)

text \<open>What a round leads to: another round with the invariant, or a result with its meaning.\<close>

fun round_ok ::
    "'e probe \<Rightarrow> fd \<Rightarrow> fd \<Rightarrow> offset \<Rightarrow> usize \<Rightarrow> byte list \<Rightarrow> byte list
      \<Rightarrow> ('s splice_io \<times> 'e, ('s, 'e) poll_out) flow \<Rightarrow> bool" where
  "round_ok P pw pr off0 T S D (Continue (io, e)) = io_inv P pw pr off0 T S D io e"
| "round_ok P pw pr off0 T S D (Break out) = poll_post P pw pr off0 T S D out"

lemma fill_round:
  assumes env: "transfer_env pf P r w pw pr" and inv: "io_inv P pw pr off0 T S D io e"
    and st: "state io = Fill"
  shows "round_ok P pw pr off0 T S D (poll_step pf r w (io, e))"
  using env inv st
proof (cases rule: fill_polled)
  case (Left x e1)
  with st show ?thesis by (auto simp: io_inv_def split: poll.splits result.splits)
next
  case (Tried e1 res c' e2)
  obtain nxt where "after_fill res c' = Val nxt" "state_ok (io\<lparr>ctx := c', state := nxt\<rparr>)"
    using state_ok_after_fill [OF Tried(6)] inv st
    by (auto simp: io_inv_def state_ok_def ctx_inv_def)
  with st Tried show ?thesis by (simp add: io_inv_def)
qed

lemma drain_round:
  assumes env: "transfer_env pf P r w pw pr" and inv: "io_inv P pw pr off0 T S D io e"
    and st: "state io = Drain"
  shows "round_ok P pw pr off0 T S D (poll_step pf r w (io, e))"
  using env inv st
proof (cases rule: drain_polled)
  case (Left x e1)
  with st show ?thesis by (auto simp: io_inv_def split: poll.splits result.splits)
next
  case (Tried e1 res c' e2)
  have "state_ok (io\<lparr>ctx := c', state := after_drain res c'\<rparr>)"
    using state_ok_after_drain [OF Tried(6)] inv st Tried(5)
    by (auto simp: io_inv_def state_ok_def ctx_inv_def)
  with st Tried show ?thesis by (simp add: io_inv_def)
qed

lemma finished_round:
  assumes env: "transfer_env pf P r w pw pr" and inv: "io_inv P pw pr off0 T S D io e"
    and st: "state io = Finished error"
  shows "round_ok P pw pr off0 T S D (poll_step pf r w (io, e))"
proof -
  obtain x e1 where poll: "wr_poll_shutdown w e = (x, e1)" by (cases "wr_poll_shutdown w e")
  have "same_view P e e1"
    using env poll by (auto simp: transfer_env_def dest: writer_okD(2) poll_keepsD)
  then have "io_inv P pw pr off0 T S D io e1" using inv by (simp add: io_inv_same_view)
  then show ?thesis
    using st poll
    by (auto simp: io_inv_def state_ok_def split: poll.splits result.splits option.splits)
qed

lemma poll_step_round:
  assumes "transfer_env pf P r w pw pr" and "io_inv P pw pr off0 T S D io e"
  shows "round_ok P pw pr off0 T S D (poll_step pf r w (io, e))"
proof (cases "state io")
  case Fill
  with assms show ?thesis by (rule fill_round)
next
  case Drain
  with assms show ?thesis by (rule drain_round)
next
  case (Finished error)
  with assms show ?thesis by (rule finished_round)
qed

text \<open>The loop's state with everything it relies on, and the loop as an instance of the rule.\<close>

fun loop_state_ok ::
    "('s, 'e) platform \<Rightarrow> 'e probe \<Rightarrow> ('s, 'e) reader \<Rightarrow> ('s, 'e) writer \<Rightarrow> fd \<Rightarrow> fd \<Rightarrow> offset
      \<Rightarrow> usize \<Rightarrow> byte list \<Rightarrow> byte list \<Rightarrow> 's splice_io \<times> 'e \<Rightarrow> bool" where
  "loop_state_ok pf P r w pw pr off0 T S D (io, e) \<longleftrightarrow>
     transfer_env pf P r w pw pr \<and> io_inv P pw pr off0 T S D io e"

interpretation poll_loop: loop_inv "poll_step pf r w" "loop_state_ok pf P r w pw pr off0 T S D"
    "poll_post P pw pr off0 T S D"
  for pf :: "('s, 'e) platform" and r w P pw pr off0 T S D
proof
  fix st st' :: "'s splice_io \<times> 'e" and out
  assume ok: "loop_state_ok pf P r w pw pr off0 T S D st"
  obtain io e where st: "st = (io, e)" by (cases st)
  with ok have round: "round_ok P pw pr off0 T S D (poll_step pf r w st)"
    by (simp add: poll_step_round del: poll_step.simps)
  show "poll_step pf r w st = Continue st' \<Longrightarrow> loop_state_ok pf P r w pw pr off0 T S D st'"
    using round ok st by (cases st') (simp del: poll_step.simps)
  show "poll_step pf r w st = Break out \<Longrightarrow> poll_post P pw pr off0 T S D out"
    using round by simp
qed

section \<open>A poll returns\<close>

text \<open>
  A round that moves no byte and stays in its state is one whose attempt would have blocked.
  \<open>budget\<close> counts how often the runtime lets that happen within one poll: tokio's cooperative
  budget is spent by every readiness poll of a socket that returns ready, and nothing hands budget
  back before the task yields.  Only states of the transfer count, those whose counters agree with
  the pipe: there a call that fails because the pipe is full has data to write first, and none is
  made to write from an empty pipe, so a file, which is always ready, spends no budget.
\<close>

definition in_step :: "'e probe \<Rightarrow> fd \<Rightarrow> fd \<Rightarrow> 's splice_ctx \<Rightarrow> 'e \<Rightarrow> bool" where
  "in_step P pw pr c e \<longleftrightarrow> (\<exists>off0 T S D. ctx_inv P pw pr off0 T S D c e)"

lemma in_stepI: "ctx_inv P pw pr off0 T S D c e \<Longrightarrow> in_step P pw pr c e"
  unfolding in_step_def by blast

lemma io_inv_in_step: "io_inv P pw pr off0 T S D io e \<Longrightarrow> in_step P pw pr (ctx io) e"
  by (auto simp: io_inv_def intro: in_stepI)

lemma in_step_data:
  assumes "in_step P pw pr c e"
  shows "pipe_has_data c \<longleftrightarrow> v_buf P e \<noteq> []" "ends_ok pw pr c" "counts_ok c"
proof -
  from assms obtain off0 T S D where inv: "ctx_inv P pw pr off0 T S D c e"
    by (auto simp: in_step_def)
  show "ends_ok pw pr c" "counts_ok c" using ctx_invD(1,2) [OF inv] by blast+
  have "length (v_buf P e) = unat (bytes_read c) - unat (bytes_written c)"
    by (rule stream_rel_buf_length [OF ctx_invD(3) [OF inv]])
  then have "v_buf P e \<noteq> [] \<longleftrightarrow> unat (bytes_read c) - unat (bytes_written c) \<noteq> 0"
    by (metis length_0_conv)
  then show "pipe_has_data c \<longleftrightarrow> v_buf P e \<noteq> []"
    by (auto simp: pipe_has_data_def word_less_nat_alt not_le)
qed

definition yields ::
    "('s, 'e) platform \<Rightarrow> 'e probe \<Rightarrow> ('s, 'e) reader \<Rightarrow> ('s, 'e) writer \<Rightarrow> fd \<Rightarrow> fd
      \<Rightarrow> ('e \<Rightarrow> nat) \<Rightarrow> bool" where
  "yields pf P r w pw pr budget \<longleftrightarrow>
     (\<forall>c e e1 res c' e2. in_step P pw pr c e \<longrightarrow>
        rd_poll_ready r e = (Ready (Ok ()), e1) \<longrightarrow>
        rd_try_io r (try_splice_from_source pf (rd_fd r)) c e1 = Val (res, c', e2) \<longrightarrow>
        budget e2 \<le> budget e \<and>
        ((\<exists>er. res = Err er \<and> would_block er) \<and> \<not> pipe_has_data c' \<longrightarrow> budget e2 < budget e)) \<and>
     (\<forall>c e e1 res c' e2. in_step P pw pr c e \<longrightarrow>
        wr_poll_ready w e = (Ready (Ok ()), e1) \<longrightarrow>
        wr_try_io w (try_splice_to_dest pf (wr_fd w)) c e1 = Val (res, c', e2) \<longrightarrow>
        budget e2 \<le> budget e \<and>
        ((\<exists>er. res = Err er \<and> would_block er) \<longrightarrow> budget e2 < budget e))"

lemma yields_fill:
  assumes "yields pf P r w pw pr budget" and "in_step P pw pr c e"
    and "rd_poll_ready r e = (Ready (Ok ()), e1)"
    and "rd_try_io r (try_splice_from_source pf (rd_fd r)) c e1 = Val (res, c', e2)"
  shows "budget e2 \<le> budget e"
    and "res = Err er \<Longrightarrow> would_block er \<Longrightarrow> \<not> pipe_has_data c' \<Longrightarrow> budget e2 < budget e"
  using assms unfolding yields_def by blast+

lemma yields_drain:
  assumes "yields pf P r w pw pr budget" and "in_step P pw pr c e"
    and "wr_poll_ready w e = (Ready (Ok ()), e1)"
    and "wr_try_io w (try_splice_to_dest pf (wr_fd w)) c e1 = Val (res, c', e2)"
  shows "budget e2 \<le> budget e"
    and "res = Err er \<Longrightarrow> would_block er \<Longrightarrow> budget e2 < budget e"
  using assms unfolding yields_def by blast+

text \<open>
  The work left: every byte is read once and written once.  Among rounds that move nothing, the
  state machine goes from an empty pipe being drained to filling, from filling to draining, and
  from draining to the end.
\<close>

definition work_left :: "'s splice_ctx \<Rightarrow> nat" where
  "work_left c = 2 * (unat (size_to_splice c) - unat (bytes_read c))
     + (unat (bytes_read c) - unat (bytes_written c))"

definition phase_rank :: "'s splice_io \<Rightarrow> nat" where
  "phase_rank io =
     (case state io of
        Fill \<Rightarrow> 2
      | Drain \<Rightarrow> (if \<not> is_source_done (ctx io) \<and> \<not> pipe_has_data (ctx io) then 3 else 1)
      | Finished _ \<Rightarrow> 0)"

definition descent :: "('e \<Rightarrow> nat) \<Rightarrow> (('s splice_io \<times> 'e) \<times> ('s splice_io \<times> 'e)) set" where
  "descent budget = measures
     [\<lambda>(io, e). budget e, \<lambda>(io, e). work_left (ctx io), \<lambda>(io, e). phase_rank io]"

lemma wf_descent: "wf (descent budget)"
  by (simp add: descent_def)

lemma work_left_read:
  assumes "counts_ok c" "n \<noteq> 0" "n \<le> size_to_splice c - bytes_read c"
    and "size_to_splice c' = size_to_splice c" "bytes_written c' = bytes_written c"
    and "bytes_read c' = bytes_read c + n"
  shows "work_left c' < work_left c"
proof -
  have le: "bytes_written c \<le> bytes_read c" "bytes_read c \<le> size_to_splice c"
    using assms(1) by (simp_all add: counts_ok_def)
  have "unat (bytes_read c + n) = unat (bytes_read c) + unat n"
    using le(2) assms(3) by (rule unat_add_room)
  moreover have "bytes_read c + n \<le> size_to_splice c"
    using le(2) assms(3) by (rule add_room_le)
  moreover have "0 < unat n" using assms(2) by (simp add: unat_gt_0)
  ultimately show ?thesis
    using le unfolding work_left_def assms(4,5,6) word_le_nat_alt by linarith
qed

lemma work_left_written:
  assumes "counts_ok c" "n \<noteq> 0" "n \<le> bytes_read c - bytes_written c"
    and "size_to_splice c' = size_to_splice c" "bytes_read c' = bytes_read c"
    and "bytes_written c' = bytes_written c + n"
  shows "work_left c' < work_left c"
proof -
  have le: "bytes_written c \<le> bytes_read c"
    using assms(1) by (simp add: counts_ok_def)
  have "unat (bytes_written c + n) = unat (bytes_written c) + unat n"
    using le assms(3) by (rule unat_add_room)
  moreover have "bytes_written c + n \<le> bytes_read c"
    using le assms(3) by (rule add_room_le)
  moreover have "0 < unat n" using assms(2) by (simp add: unat_gt_0)
  ultimately show ?thesis
    using le unfolding work_left_def assms(4,5,6) word_le_nat_alt by linarith
qed

lemma fill_descends:
  assumes env: "transfer_env pf P r w pw pr" and inv: "io_inv P pw pr off0 T S D io e"
    and ylds: "yields pf P r w pw pr budget" and st: "state io = Fill"
    and step: "poll_step pf r w (io, e) = Continue (io', e')"
  shows "((io', e'), (io, e)) \<in> descent budget"
  using env inv st
proof (cases rule: fill_polled)
  case (Left x e1)
  with step st show ?thesis by (auto split: poll.splits result.splits)
next
  case (Tried e1 res c' e2)
  note poll = Tried(1) and run = Tried(4) and eff = Tried(6)
  from step st Tried(1,4) obtain nxt where nxt: "after_fill res c' = Val nxt"
    and io': "io' = io\<lparr>ctx := c', state := nxt\<rparr>" and e': "e' = e2"
    by (auto split: comp.splits)
  note bud = yields_fill [OF ylds io_inv_in_step [OF inv] poll run]
  have cnt: "counts_ok (ctx io)" using inv by (simp add: io_inv_def ctx_inv_def)
  have same: "work_left c' = work_left (ctx io)" if "\<forall>n. res \<noteq> Ok (BytesWritten n)"
    using eff that
    by (auto simp: fill_effect_def work_left_def split: result.splits splice_outcome.splits)
  show ?thesis
  proof (cases "\<exists>n. res = Ok (BytesWritten n)")
    case True
    with eff cnt have "work_left c' < work_left (ctx io)"
      by (auto simp: fill_effect_def intro: work_left_read)
    with bud(1) show ?thesis by (auto simp: descent_def io' e')
  next
    case False
    with same have w: "work_left c' = work_left (ctx io)" by blast
    from nxt eff False consider "nxt = Drain" "is_source_done c' \<or> pipe_has_data c'"
      | "\<exists>er. nxt = Finished (Some er)"
      | er where "nxt = Fill" "res = Err er" "would_block er" "\<not> pipe_has_data c'"
      by (auto simp: after_fill_def fill_effect_def faulted_def
          split: result.splits splice_outcome.splits if_splits)
    then show ?thesis
    proof cases
      case 3
      with bud(2) have "budget e2 < budget e" by blast
      then show ?thesis by (simp add: descent_def io' e')
    qed (use bud(1) w st in \<open>auto simp: descent_def io' e' phase_rank_def\<close>)
  qed
qed

lemma drain_descends:
  assumes env: "transfer_env pf P r w pw pr" and inv: "io_inv P pw pr off0 T S D io e"
    and ylds: "yields pf P r w pw pr budget" and st: "state io = Drain"
    and step: "poll_step pf r w (io, e) = Continue (io', e')"
  shows "((io', e'), (io, e)) \<in> descent budget"
  using env inv st
proof (cases rule: drain_polled)
  case (Left x e1)
  with step st show ?thesis by (auto split: poll.splits result.splits)
next
  case (Tried e1 res c' e2)
  note poll = Tried(1) and run = Tried(4) and eff = Tried(6)
  from step st Tried(1,4) have io': "io' = io\<lparr>ctx := c', state := after_drain res c'\<rparr>"
    and e': "e' = e2"
    by auto
  note bud = yields_drain [OF ylds io_inv_in_step [OF inv] poll run]
  have cnt: "counts_ok (ctx io)" using inv by (simp add: io_inv_def ctx_inv_def)
  show ?thesis
  proof (cases "\<exists>n. res = Ok (BytesWritten n)")
    case True
    with eff cnt have "work_left c' < work_left (ctx io)"
      by (auto simp: drain_effect_def intro: work_left_written)
    with bud(1) show ?thesis by (auto simp: descent_def io' e')
  next
    case False
    with eff have w: "work_left c' = work_left (ctx io)"
      by (auto simp: drain_effect_def work_left_def split: result.splits splice_outcome.splits)
    show ?thesis
    proof (cases "\<exists>er. res = Err er \<and> would_block er")
      case True
      with bud(2) have "budget e2 < budget e" by blast
      then show ?thesis by (simp add: descent_def io' e')
    next
      case no: False
      with False eff have "phase_rank io' < phase_rank io"
        by (auto simp: drain_effect_def after_drain_def io' phase_rank_def st finished_def
            faulted_def split: result.splits splice_outcome.splits)
      with bud(1) w show ?thesis by (auto simp: descent_def io' e')
    qed
  qed
qed

lemma round_descends:
  assumes "transfer_env pf P r w pw pr" and "io_inv P pw pr off0 T S D io e"
    and "yields pf P r w pw pr budget"
    and step: "poll_step pf r w (io, e) = Continue (io', e')"
  shows "((io', e'), (io, e)) \<in> descent budget"
proof (cases "state io")
  case Fill
  with assms show ?thesis by (blast intro: fill_descends)
next
  case Drain
  with assms show ?thesis by (blast intro: drain_descends)
next
  case (Finished error)
  with step show ?thesis by (auto split: prod.splits poll.splits result.splits)
qed

definition loop_state_total ::
    "('s, 'e) platform \<Rightarrow> 'e probe \<Rightarrow> ('s, 'e) reader \<Rightarrow> ('s, 'e) writer \<Rightarrow> fd \<Rightarrow> fd \<Rightarrow> offset
      \<Rightarrow> usize \<Rightarrow> byte list \<Rightarrow> byte list \<Rightarrow> ('e \<Rightarrow> nat) \<Rightarrow> 's splice_io \<times> 'e \<Rightarrow> bool" where
  "loop_state_total pf P r w pw pr off0 T S D budget st \<longleftrightarrow>
     loop_state_ok pf P r w pw pr off0 T S D st \<and> yields pf P r w pw pr budget"

interpretation poll_loop_total: loop_total "poll_step pf r w"
    "loop_state_total pf P r w pw pr off0 T S D budget" "poll_post P pw pr off0 T S D" "descent budget"
  for pf :: "('s, 'e) platform" and r w P pw pr off0 T S D budget
proof
  fix st st' :: "'s splice_io \<times> 'e" and out
  assume ok: "loop_state_total pf P r w pw pr off0 T S D budget st"
  then have inv: "loop_state_ok pf P r w pw pr off0 T S D st" and ylds: "yields pf P r w pw pr budget"
    by (simp_all add: loop_state_total_def)
  show "poll_step pf r w st = Continue st' \<Longrightarrow> loop_state_total pf P r w pw pr off0 T S D budget st'"
    using poll_loop.continue_inv [OF inv] ylds by (simp add: loop_state_total_def)
  show "poll_step pf r w st = Break out \<Longrightarrow> poll_post P pw pr off0 T S D out"
    using poll_loop.break_post [OF inv] .
  show "poll_step pf r w st = Continue st' \<Longrightarrow> (st', st) \<in> descent budget"
    using inv ylds round_descends by (cases st; cases st') (auto simp del: poll_step.simps)
qed (rule wf_descent)

text \<open>Polling a transfer never panics, and it returns with the meaning of its result.\<close>

lemma poll_execute_partial:
  assumes "transfer_env pf P r w pw pr" and "io_inv P pw pr off0 T S D io e"
    and "poll_execute pf r w (io, e) = Some out"
  shows "poll_post P pw pr off0 T S D out"
  using poll_loop.drive_post [of pf r w "(io, e)" out P pw pr off0 T S D] assms
  by (simp add: poll_execute_def)

lemma poll_execute_total:
  assumes "transfer_env pf P r w pw pr" and "io_inv P pw pr off0 T S D io e"
    and "yields pf P r w pw pr budget"
  shows "\<exists>out. poll_execute pf r w (io, e) = Some out \<and> poll_post P pw pr off0 T S D out"
  using poll_loop_total.drive_total [of pf P r w pw pr off0 T S D budget "(io, e)"] assms
  by (simp add: poll_execute_def loop_state_total_def)

end
