(* ===== verification/Execute_Correct.thy ===== *)
theory Execute_Correct
  imports Poll_Correct
begin

text \<open>
  Correctness of \<open>SpliceIo::execute\<close>: the report counts exactly the bytes delivered, a report
  without an error means that everything up to the target was delivered, and \<open>execute\<close> returns
  when the surroundings make it wait only finitely often.
\<close>

section \<open>Waiting\<close>

text \<open>The state of the future together with its surroundings, across a parked task.\<close>

fun park_state :: "('e \<Rightarrow> 'e) \<Rightarrow> 's splice_io \<times> 'e \<Rightarrow> 's splice_io \<times> 'e" where
  "park_state park (io, e) = (io, park e)"

definition park_keeps :: "'e probe \<Rightarrow> ('e \<Rightarrow> 'e) \<Rightarrow> bool" where
  "park_keeps P park \<longleftrightarrow> (\<forall>e. same_view P e (park e))"

text \<open>
  The surroundings report \<open>Pending\<close> only finitely often: \<open>patience\<close> bounds how often they will
  still do so.  A pending poll uses some of it up, and nothing gives any back.
\<close>

definition spends :: "('e \<Rightarrow> nat) \<Rightarrow> 'e poll_fn \<Rightarrow> bool" where
  "spends patience pl \<longleftrightarrow>
     (\<forall>e e'. pl e = (Pending, e') \<longrightarrow> patience e' < patience e) \<and>
     (\<forall>e x e'. pl e = (x, e') \<longrightarrow> patience e' \<le> patience e)"

definition saves :: "('e \<Rightarrow> nat) \<Rightarrow> ('s, 'e) attempt \<Rightarrow> bool" where
  "saves patience f \<longleftrightarrow>
     (\<forall>c e res c' e'. f c e = Val (res, c', e') \<longrightarrow> patience e' \<le> patience e)"

definition patient ::
    "('s, 'e) platform \<Rightarrow> ('s, 'e) reader \<Rightarrow> ('s, 'e) writer \<Rightarrow> ('e \<Rightarrow> nat) \<Rightarrow> bool" where
  "patient pf r w patience \<longleftrightarrow>
     spends patience (rd_poll_ready r) \<and> spends patience (wr_poll_ready w) \<and>
     spends patience (wr_poll_shutdown w) \<and>
     saves patience (rd_try_io r (try_splice_from_source pf (rd_fd r))) \<and>
     saves patience (wr_try_io w (try_splice_to_dest pf (wr_fd w)))"

definition park_saves :: "('e \<Rightarrow> nat) \<Rightarrow> ('e \<Rightarrow> 'e) \<Rightarrow> bool" where
  "park_saves patience park \<longleftrightarrow> (\<forall>e. patience (park e) \<le> patience e)"

lemma park_saves_less: "park_saves patience park \<Longrightarrow> patience e < k \<Longrightarrow> patience (park e) < k"
  by (meson le_less_trans park_saves_def)

lemma spendsD:
  "spends patience pl \<Longrightarrow> pl e = (Pending, e') \<Longrightarrow> patience e' < patience e"
  "spends patience pl \<Longrightarrow> pl e = (x, e') \<Longrightarrow> patience e' \<le> patience e"
  by (auto simp: spends_def)

lemma savesD:
  "saves patience f \<Longrightarrow> f c e = Val (res, c', e') \<Longrightarrow> patience e' \<le> patience e"
  by (auto simp: saves_def)

lemma patientD:
  assumes "patient pf r w patience"
  shows "spends patience (rd_poll_ready r)" "spends patience (wr_poll_ready w)"
    "spends patience (wr_poll_shutdown w)"
    "saves patience (rd_try_io r (try_splice_from_source pf (rd_fd r)))"
    "saves patience (wr_try_io w (try_splice_to_dest pf (wr_fd w)))"
  using assms by (simp_all add: patient_def)

text \<open>What a poll leaves of a bound \<open>k\<close> on the patience.\<close>

fun within :: "('e \<Rightarrow> nat) \<Rightarrow> nat \<Rightarrow> ('s, 'e) poll_out \<Rightarrow> bool" where
  "within patience k (Panic p) = True"
| "within patience k (Val (Pending, io, e)) = (patience e < k)"
| "within patience k (Val (Ready x, io, e)) = (patience e \<le> k)"

lemma patient_round:
  assumes "patient pf r w patience"
  shows "case poll_step pf r w (io, e) of
           Continue (io', e') \<Rightarrow> patience e' \<le> patience e
         | Break out \<Rightarrow> within patience (patience e) out"
proof (cases "state io")
  case Fill
  then show ?thesis
    using spendsD [OF patientD(1) [OF assms], of e] savesD [OF patientD(4) [OF assms]]
    by (fastforce split: prod.splits poll.splits result.splits comp.splits intro: le_trans)
next
  case Drain
  then show ?thesis
    using spendsD [OF patientD(2) [OF assms], of e] savesD [OF patientD(5) [OF assms]]
    by (fastforce split: prod.splits poll.splits result.splits comp.splits intro: le_trans)
next
  case (Finished error)
  then show ?thesis
    using spendsD [OF patientD(3) [OF assms], of e]
    by (auto split: prod.splits poll.splits result.splits)
qed

lemma within_mono: "within patience k out \<Longrightarrow> k \<le> m \<Longrightarrow> within patience m out"
  by (cases "(patience, k, out)" rule: within.cases) auto

interpretation patience_loop: loop_inv "poll_step pf r w"
    "\<lambda>(io, e). patient pf r w patience \<and> patience e \<le> k" "within patience k"
  for pf :: "('s, 'e) platform" and r w patience k
proof
  fix st st' :: "'s splice_io \<times> 'e" and out :: "('s, 'e) poll_out"
  obtain io e where st: "st = (io, e)" by (cases st)
  obtain io' e' where st': "st' = (io', e')" by (cases st')
  assume "case st of (io, e) \<Rightarrow> patient pf r w patience \<and> patience e \<le> k"
  then have pt: "patient pf r w patience" and k: "patience e \<le> k"
    by (simp_all add: st)
  note round = patient_round [OF pt, where io = io and e = e]
  show "case st' of (io, e) \<Rightarrow> patient pf r w patience \<and> patience e \<le> k"
    if "poll_step pf r w st = Continue st'"
    using round that pt k unfolding st st' by (simp del: poll_step.simps)
  show "within patience k out" if "poll_step pf r w st = Break out"
    using round that k unfolding st
    by (auto simp del: poll_step.simps intro: within_mono)
qed

lemma poll_execute_within:
  assumes "patient pf r w patience" and "poll_execute pf r w (io, e) = Some out"
  shows "within patience (patience e) out"
  using patience_loop.drive_post [of pf r w "(io, e)" out patience "patience e"] assms
  by (simp add: poll_execute_def)

section \<open>The await loop\<close>

fun exec_post ::
    "'e probe \<Rightarrow> fd \<Rightarrow> fd \<Rightarrow> offset \<Rightarrow> usize \<Rightarrow> byte list \<Rightarrow> byte list
      \<Rightarrow> (unit io_result \<times> 's splice_io \<times> 'e) comp option \<Rightarrow> bool" where
  "exec_post P pw pr off0 T S D None = True"
| "exec_post P pw pr off0 T S D (Some (Panic p)) = False"
| "exec_post P pw pr off0 T S D (Some (Val (res, io, e))) =
     poll_post P pw pr off0 T S D (Val (Ready res, io, e))"

definition exec_ok ::
    "('s, 'e) platform \<Rightarrow> 'e probe \<Rightarrow> ('s, 'e) reader \<Rightarrow> ('s, 'e) writer \<Rightarrow> ('e \<Rightarrow> 'e) \<Rightarrow> fd \<Rightarrow> fd
      \<Rightarrow> offset \<Rightarrow> usize \<Rightarrow> byte list \<Rightarrow> byte list \<Rightarrow> 's splice_io \<times> 'e \<Rightarrow> bool" where
  "exec_ok pf P r w park pw pr off0 T S D st \<longleftrightarrow>
     loop_state_ok pf P r w pw pr off0 T S D st \<and> park_keeps P park"

lemma exec_ok_park:
  assumes "exec_ok pf P r w park pw pr off0 T S D st"
    and "poll_execute pf r w st = Some (Val (Pending, st'))"
  shows "exec_ok pf P r w park pw pr off0 T S D (park_state park st')"
proof -
  obtain io e io' e' where st: "st = (io, e)" "st' = (io', e')" by (cases st; cases st')
  have "poll_post P pw pr off0 T S D (Val (Pending, io', e'))"
    by (rule poll_execute_partial) (use assms st in \<open>auto simp: exec_ok_def\<close>)
  moreover have view: "same_view P e' (park e')"
    using assms(1) by (simp add: exec_ok_def park_keeps_def)
  ultimately have "io_inv P pw pr off0 T S D io' (park e')"
    by (simp only: io_inv_same_view [OF view] poll_post.simps)
  then show ?thesis using assms st by (simp add: exec_ok_def)
qed

interpretation exec_loop: loop_inv "await_step (poll_execute pf r w) (park_state park)"
    "exec_ok pf P r w park pw pr off0 T S D" "exec_post P pw pr off0 T S D"
  for pf :: "('s, 'e) platform" and r w park P pw pr off0 T S D
proof
  fix st st' :: "'s splice_io \<times> 'e" and out :: "(unit io_result \<times> 's splice_io \<times> 'e) comp option"
  assume ok: "exec_ok pf P r w park pw pr off0 T S D st"
  obtain io e where st: "st = (io, e)" by (cases st)
  show "exec_ok pf P r w park pw pr off0 T S D st'"
    if "await_step (poll_execute pf r w) (park_state park) st = Continue st'"
    using that exec_ok_park [OF ok]
    by (auto simp: await_step_def split: option.splits comp.splits prod.splits poll.splits)
  show "exec_post P pw pr off0 T S D out"
    if step: "await_step (poll_execute pf r w) (park_state park) st = Break out"
  proof (cases "poll_execute pf r w st")
    case None
    with step show ?thesis by (simp add: await_step_def)
  next
    case (Some o1)
    have "poll_post P pw pr off0 T S D o1"
      by (rule poll_execute_partial) (use ok Some st in \<open>auto simp: exec_ok_def\<close>)
    with step Some show ?thesis
      by (auto simp: await_step_def split: comp.splits prod.splits poll.splits)
  qed
qed

text \<open>With bounded budget and patience the await loop returns, and with a value.\<close>

definition exec_total_ok where
  "exec_total_ok pf P r w park pw pr off0 T S D budget patience st \<longleftrightarrow>
     exec_ok pf P r w park pw pr off0 T S D st \<and> yields pf P r w pw pr budget \<and>
     patient pf r w patience \<and> park_saves patience park"

interpretation exec_loop_total: loop_total "await_step (poll_execute pf r w) (park_state park)"
    "exec_total_ok pf P r w park pw pr off0 T S D budget patience"
    "\<lambda>out. exec_post P pw pr off0 T S D out \<and> out \<noteq> None"
    "measure (\<lambda>(io, e). patience e)"
  for pf :: "('s, 'e) platform" and r w park P pw pr off0 T S D budget patience
proof
  fix st st' :: "'s splice_io \<times> 'e" and out :: "(unit io_result \<times> 's splice_io \<times> 'e) comp option"
  assume total: "exec_total_ok pf P r w park pw pr off0 T S D budget patience st"
  then have ok: "exec_ok pf P r w park pw pr off0 T S D st"
    and ylds: "yields pf P r w pw pr budget" and pt: "patient pf r w patience"
    and pk: "park_saves patience park"
    by (simp_all add: exec_total_ok_def)
  obtain io e where st: "st = (io, e)" by (cases st)
  show "exec_total_ok pf P r w park pw pr off0 T S D budget patience st'"
    if "await_step (poll_execute pf r w) (park_state park) st = Continue st'"
    using exec_loop.continue_inv [OF ok that] ylds pt pk by (simp add: exec_total_ok_def)
  have "poll_execute pf r w st \<noteq> None"
    using poll_execute_total [of pf P r w pw pr off0 T S D io e budget] ok ylds st
    by (auto simp: exec_ok_def)
  then show "exec_post P pw pr off0 T S D out \<and> out \<noteq> None"
    if "await_step (poll_execute pf r w) (park_state park) st = Break out"
    using exec_loop.break_post [OF ok that] that
    by (auto simp: await_step_def split: comp.splits prod.splits poll.splits)
  show "(st', st) \<in> measure (\<lambda>(io, e). patience e)"
    if "await_step (poll_execute pf r w) (park_state park) st = Continue st'"
    using that poll_execute_within [OF pt, of io e] pk unfolding st
    by (auto simp: await_step_def intro: park_saves_less
        split: option.splits comp.splits prod.splits poll.splits)
qed simp

section \<open>What execute reports\<close>

text \<open>
  The contract of a transfer: \<open>tx\<close> bytes, the first ones of the source in their order, have been
  added to the destination; no more than the target; and without an error, as many as there are.
\<close>

definition delivered ::
    "'e probe \<Rightarrow> offset \<Rightarrow> usize \<Rightarrow> byte list \<Rightarrow> byte list \<Rightarrow> transfer_report \<Rightarrow> 'e \<Rightarrow> bool" where
  "delivered P off0 T S D rep e' \<longleftrightarrow>
     (let n = unat (tx rep)
      in n \<le> unat T \<and> n \<le> length S \<and> rx rep = 0 \<and>
         v_dst P (advanced (off_out off0) (tx rep)) e' = D @ take n S \<and>
         (report_error rep = None \<longrightarrow> n = min (unat T) (length S)))"

lemma off_out_offset_at: "off_out (offset_at x r w) = advanced (off_out x) w"
  by (cases x) simp_all

lemma off_in_offset_at: "off_in (offset_at x r w) = advanced (off_in x) r"
  by (cases x) simp_all

lemma dst_drop_ctx:
  assumes keeps: "close_keeps os P pw pr" and ends: "ends_ok pw pr c"
  shows "v_dst P off (drop_ctx os c e) = v_dst P off e"
  using assms
  by (auto simp: drop_ctx_def drop_pipe_def ends_ok_def rust_defs close_keeps_def same_view_def)

text \<open>What the invariant says of the bytes delivered so far, and of all of them at the end.\<close>

lemma written_prefix:
  assumes inv: "ctx_inv P pw pr off0 T S D c e"
  shows "unat (bytes_written c) \<le> unat T" "unat (bytes_written c) \<le> length S"
    "v_dst P (advanced (off_out off0) (bytes_written c)) e = D @ take (unat (bytes_written c)) S"
proof -
  have "unat (bytes_written c) \<le> unat (bytes_read c)" "unat (bytes_read c) \<le> unat T"
    "unat (bytes_read c) \<le> length S"
    using ctx_invD(1,3,7) [OF inv] by (simp_all add: counts_ok_def stream_rel_def word_le_nat_alt)
  then show "unat (bytes_written c) \<le> unat T" "unat (bytes_written c) \<le> length S" by simp_all
  show "v_dst P (advanced (off_out off0) (bytes_written c)) e = D @ take (unat (bytes_written c)) S"
    using ctx_invD(3,6) [OF inv] by (simp add: stream_rel_def dst_of_def off_out_offset_at)
qed

lemma finished_all:
  assumes inv: "ctx_inv P pw pr off0 T S D c e" and fin: "is_finished c"
  shows "unat (bytes_written c) = min (unat T) (length S)"
proof -
  have "is_source_done c" "bytes_written c = bytes_read c"
    using fin by (simp_all add: is_finished_def is_source_done_def)
  with ctx_invD(4,7) [OF inv] written_prefix(1,2) [OF inv] show ?thesis
    by (auto simp: exhausted_def)
qed

lemma delivered_report:
  assumes inv: "ctx_inv P pw pr off0 T S D c e"
    and keeps: "close_keeps os P pw pr"
    and fin: "err_of res = None \<Longrightarrow> is_finished c"
  shows "delivered P off0 T S D
           \<lparr>tx = bytes_written c, rx = 0, report_error = err_of res\<rparr> (drop_ctx os c e)"
  using written_prefix [OF inv] finished_all [OF inv] fin
    dst_drop_ctx [OF keeps ctx_invD(2) [OF inv]]
  by (simp add: delivered_def)

lemma exec_post_delivered:
  assumes "exec_post P pw pr off0 T S D (Some out)" and "close_keeps os P pw pr"
  shows "\<exists>res io' e'. out = Val (res, io', e') \<and>
           delivered P off0 T S D
             \<lparr>tx = bytes_written (ctx io'), rx = 0, report_error = err_of res\<rparr>
             (drop_ctx os (ctx io') e')"
proof -
  from assms(1) obtain res io' e' where out: "out = Val (res, io', e')"
    and post: "poll_post P pw pr off0 T S D (Val (Ready res, io', e'))"
    by (cases out) auto
  from post have "ctx_inv P pw pr off0 T S D (ctx io') e'"
    and "err_of res = None \<Longrightarrow> is_finished (ctx io')"
    by (cases res; auto simp: io_inv_def state_ok_def)+
  from delivered_report [OF this(1) assms(2) this(2)] out show ?thesis by blast
qed

lemma park_state_eq: "(\<lambda>(io, e). (io, park e)) = park_state park"
  by (simp add: fun_eq_iff)

lemma execute_as_await:
  fixes io :: "'s splice_io"
  shows "execute pf r w park io e =
     map_option
       (\<lambda>out. bind_comp out (\<lambda>(res, io', e').
          Val (\<lparr>tx = bytes_written (ctx io'), rx = 0, report_error = err_of res\<rparr>,
               drop_ctx (pf_os pf) (ctx io') e')))
       (Option.bind (drive (await_step (poll_execute pf r w) (park_state park)) (io, e)) id)"
  by (simp only: execute_def await_def park_state_eq)

lemma execute_partial:
  assumes env: "transfer_env pf P r w pw pr" and inv: "io_inv P pw pr off0 T S D io e"
    and park: "park_keeps P park" and run: "execute pf r w park io e = Some out"
  shows "\<exists>rep e'. out = Val (rep, e') \<and> delivered P off0 T S D rep e'"
proof -
  from run obtain o1 where
    o1: "drive (await_step (poll_execute pf r w) (park_state park)) (io, e) = Some (Some o1)"
    and out: "out = bind_comp o1 (\<lambda>(res, io', e').
          Val (\<lparr>tx = bytes_written (ctx io'), rx = 0, report_error = err_of res\<rparr>,
               drop_ctx (pf_os pf) (ctx io') e'))"
    by (auto simp: execute_as_await bind_eq_Some_conv)
  have "exec_post P pw pr off0 T S D (Some o1)"
    by (rule exec_loop.drive_post [OF o1]) (use env inv park in \<open>simp add: exec_ok_def\<close>)
  then show ?thesis
    using exec_post_delivered env out by (fastforce simp: transfer_env_def)
qed

lemma execute_returns:
  assumes env: "transfer_env pf P r w pw pr" and inv: "io_inv P pw pr off0 T S D io e"
    and park: "park_keeps P park"
    and ylds: "yields pf P r w pw pr budget"
    and pt: "patient pf r w patience" and pk: "park_saves patience park"
  shows "\<exists>rep e'. execute pf r w park io e = Some (Val (rep, e')) \<and>
           delivered P off0 T S D rep e'"
proof -
  have "exec_total_ok pf P r w park pw pr off0 T S D budget patience (io, e)"
    using assms by (simp add: exec_total_ok_def exec_ok_def)
  from exec_loop_total.drive_total [OF this] obtain o1 where
    "drive (await_step (poll_execute pf r w) (park_state park)) (io, e) = Some (Some o1)"
    by auto
  then have "\<exists>out. execute pf r w park io e = Some out"
    by (simp add: execute_as_await)
  with execute_partial [OF env inv park] show ?thesis by blast
qed

end
