(* ===== verification/Attempt_Cases.thy ===== *)
theory Attempt_Cases
  imports Splice_Ctx
begin

text \<open>
  Case analysis of a returned splice attempt, whatever the \<open>Splicer\<close> implementation does: an
  attempt either ends the transfer on its side, or makes exactly one call and passes on its
  result.  Every later proof about attempts goes through these two rules.
\<close>

text \<open>The context after the call, before the counters are touched.\<close>

definition after_in :: "'s splice_ctx \<Rightarrow> 's \<Rightarrow> u64 option \<Rightarrow> 's splice_ctx" where
  "after_in c s' off' = c\<lparr>splicer := s', offset := put_off_in (offset c) off'\<rparr>"

definition after_out :: "'s splice_ctx \<Rightarrow> 's \<Rightarrow> u64 option \<Rightarrow> 's splice_ctx" where
  "after_out c s' off' = c\<lparr>splicer := s', offset := put_off_out (offset c) off'\<rparr>"

definition fill_closed :: "'s splice_ctx \<Rightarrow> 's splice_ctx" where
  "fill_closed c = c\<lparr>pipe := (pipe c)\<lparr>pipe_fill_fd := None\<rparr>\<rparr>"

definition drain_closed :: "'s splice_ctx \<Rightarrow> 's splice_ctx" where
  "drain_closed c = c\<lparr>pipe := (pipe c)\<lparr>pipe_drain_fd := None\<rparr>\<rparr>"

lemmas after_defs = after_in_def after_out_def fill_closed_def drain_closed_def

lemma close_source_eq:
  "close_source pf c e = Val (Ok Closed, fill_closed c, drop_fd (pf_os pf) (pipe_fill_fd (pipe c)) e)"
  by (simp add: close_source_def set_fill_done_def fill_closed_def)

lemma close_dest_eq:
  "close_dest pf c e = Val (Ok Closed, drain_closed c, drop_fd (pf_os pf) (pipe_drain_fd (pipe c)) e)"
  by (simp add: close_dest_def set_drain_done_def drain_closed_def)

lemma source_cases:
  assumes run: "try_splice_from_source pf r c e = Val (res, c', e')"
  obtains
    (Target) "res = Ok Closed" "c' = fill_closed c"
      "e' = drop_fd (pf_os pf) (pipe_fill_fd (pipe c)) e" "bytes_read c = size_to_splice c"
  | (Moved) d m n off' s' t where "pipe_fill_fd (pipe c) = Some d"
      "splice_in (pf_ops pf) (splicer c) r (off_in (offset c)) d m e = Val (Ok n, off', s', e')"
      "n \<noteq> 0" "res = Ok (BytesWritten n)" "c' = (after_in c s' off')\<lparr>bytes_read_field := t\<rparr>"
  | (Eof) d m off' s' e1 where "pipe_fill_fd (pipe c) = Some d"
      "splice_in (pf_ops pf) (splicer c) r (off_in (offset c)) d m e = Val (Ok 0, off', s', e1)"
      "res = Ok Closed" "c' = fill_closed (after_in c s' off')"
      "e' = drop_fd (pf_os pf) (pipe_fill_fd (pipe c)) e1"
  | (Failed) d m er off' s' where "pipe_fill_fd (pipe c) = Some d"
      "splice_in (pf_ops pf) (splicer c) r (off_in (offset c)) d m e = Val (Err er, off', s', e')"
      "res = Err er" "c' = after_in c s' off'"
proof -
  from run obtain m where m: "usize_sub (pf_profile pf) (size_to_splice c) (bytes_read c) = Val m"
    by (auto simp: try_splice_from_source_def bind_comp_Val_iff)
  show thesis
  proof (cases "m = 0")
    case True
    then have "bytes_read c = size_to_splice c"
      using m by (auto simp: usize_sub_def split: if_splits)
    with run m True show thesis
      by (intro Target) (simp_all add: try_splice_from_source_def close_source_eq)
  next
    case False
    from run m False obtain d x off' s' e1 where d: "pipe_fill_fd (pipe c) = Some d"
      and call: "splice_in (pf_ops pf) (splicer c) r (off_in (offset c)) d m e
        = Val (x, off', s', e1)"
      by (cases "pipe_fill_fd (pipe c)")
        (auto simp: try_splice_from_source_def bind_comp_Val_iff fill_fd_def)
    have pipe: "pipe (after_in c s' off') = pipe c" by (simp add: after_in_def)
    note eval = run [unfolded try_splice_from_source_def m bind_comp.simps if_not_P [OF False]
        fill_fd_def d expect.simps call Let_def prod.case, folded after_in_def]
    show thesis
    proof (cases x)
      case (Err er)
      with eval call d show thesis by (intro Failed) auto
    next
      case (Ok n)
      show thesis
      proof (cases "n = 0")
        case True
        with eval call d Ok show thesis by (intro Eof) (auto simp: close_source_eq pipe)
      next
        case False
        then show thesis
          using eval call d Ok by (auto simp: word_pos_iff bind_comp_Val_iff intro: Moved)
      qed
    qed
  qed
qed

lemma dest_cases:
  assumes run: "try_splice_to_dest pf w c e = Val (res, c', e')"
  obtains
    (Emptied) "res = Ok Closed" "c' = drain_closed c" "is_source_done c"
      "e' = drop_fd (pf_os pf) (pipe_drain_fd (pipe c)) e" "bytes_read c = bytes_written c"
  | (Idle) "res = Ok NoProgress" "c' = c" "e' = e" "\<not> is_source_done c"
      "bytes_read c = bytes_written c"
  | (Moved) d m n off' s' t where "pipe_drain_fd (pipe c) = Some d"
      "splice_out (pf_ops pf) (splicer c) d w (off_out (offset c)) m e = Val (Ok n, off', s', e')"
      "n \<noteq> 0" "res = Ok (BytesWritten n)" "c' = (after_out c s' off')\<lparr>bytes_written_field := t\<rparr>"
  | (Stuck) d m off' s' where "pipe_drain_fd (pipe c) = Some d"
      "splice_out (pf_ops pf) (splicer c) d w (off_out (offset c)) m e = Val (Ok 0, off', s', e')"
      "res = Ok NoProgress" "c' = after_out c s' off'"
  | (Failed) d m er off' s' where "pipe_drain_fd (pipe c) = Some d"
      "splice_out (pf_ops pf) (splicer c) d w (off_out (offset c)) m e = Val (Err er, off', s', e')"
      "res = Err er" "c' = after_out c s' off'"
proof -
  from run obtain m where m: "usize_sub (pf_profile pf) (bytes_read c) (bytes_written c) = Val m"
    by (auto simp: try_splice_to_dest_def bind_comp_Val_iff)
  show thesis
  proof (cases "m = 0")
    case True
    then have eq: "bytes_read c = bytes_written c"
      using m by (auto simp: usize_sub_def split: if_splits)
    note eval = run [unfolded try_splice_to_dest_def m bind_comp.simps if_P [OF True]]
    show thesis
    proof (cases "is_source_done c")
      case True
      with eval eq show thesis by (intro Emptied) (auto simp: close_dest_eq)
    next
      case False
      with eval eq show thesis by (intro Idle) auto
    qed
  next
    case False
    from run m False obtain d x off' s' e1 where d: "pipe_drain_fd (pipe c) = Some d"
      and call: "splice_out (pf_ops pf) (splicer c) d w (off_out (offset c)) m e
        = Val (x, off', s', e1)"
      by (cases "pipe_drain_fd (pipe c)")
        (auto simp: try_splice_to_dest_def bind_comp_Val_iff drain_fd_def)
    note eval = run [unfolded try_splice_to_dest_def m bind_comp.simps if_not_P [OF False]
        drain_fd_def d expect.simps call Let_def prod.case, folded after_out_def]
    show thesis
    proof (cases x)
      case (Err er)
      with eval call d show thesis by (intro Failed) auto
    next
      case (Ok n)
      show thesis
      proof (cases "n = 0")
        case True
        with eval call d Ok show thesis by (intro Stuck) auto
      next
        case False
        then show thesis
          using eval call d Ok by (auto simp: word_pos_iff bind_comp_Val_iff intro: Moved)
      qed
    qed
  qed
qed

end
