(* ===== verification/Frame.thy ===== *)
theory Frame
  imports Execute_Correct Attempt_Cases
begin

text \<open>
  What a transfer leaves alone.  A fact \<open>J\<close> about the context and its surroundings that
  survives every single step a transfer is made of (a call of the \<open>Splicer\<close>, a counter, closing an
  end, a readiness poll) survives a whole poll and a whole \<open>execute\<close>, on every path including the
  failing ones.  Two facts are carried through this way: which descriptors are open (below), and
  what another transfer sees (theory Bidi).
\<close>

locale poll_frame =
  fixes pf :: "('s, 'e) platform" and r :: "('s, 'e) reader" and w :: "('s, 'e) writer"
    and J :: "'s splice_ctx \<Rightarrow> 'e \<Rightarrow> bool" and R :: "'e \<Rightarrow> 'e \<Rightarrow> bool"
  assumes ends: "J c e \<Longrightarrow> reader_ok R r" "J c e \<Longrightarrow> writer_ok R w"
    and blind: "R e e' \<Longrightarrow> J c e \<Longrightarrow> J c e'"
    and called_in: "J c e \<Longrightarrow> pipe_fill_fd (pipe c) = Some d \<Longrightarrow>
      splice_in (pf_ops pf) (splicer c) (rd_fd r) (off_in (offset c)) d m e
        = Val (res, off', s', e') \<Longrightarrow> J (after_in c s' off') e'"
    and called_out: "J c e \<Longrightarrow> pipe_drain_fd (pipe c) = Some d \<Longrightarrow>
      splice_out (pf_ops pf) (splicer c) d (wr_fd w) (off_out (offset c)) m e
        = Val (res, off', s', e') \<Longrightarrow> J (after_out c s' off') e'"
    and counted: "J c e \<Longrightarrow> J (c\<lparr>bytes_read_field := n\<rparr>) e"
      "J c e \<Longrightarrow> J (c\<lparr>bytes_written_field := n\<rparr>) e"
    and closed: "J c e \<Longrightarrow> J (fill_closed c) (drop_fd (pf_os pf) (pipe_fill_fd (pipe c)) e)"
      "J c e \<Longrightarrow> J (drain_closed c) (drop_fd (pf_os pf) (pipe_drain_fd (pipe c)) e)"
begin

lemma source_kept:
  assumes J: "J c e" and run: "try_splice_from_source pf (rd_fd r) c e = Val (res, c', e')"
  shows "J c' e'"
  using run
proof (cases rule: source_cases)
  case Target
  then show ?thesis using closed(1) [OF J] by simp
next
  case (Moved d m n off' s' t)
  then show ?thesis using counted(1) [OF called_in [OF J Moved(1,2)]] by simp
next
  case (Eof d m off' s' e1)
  from closed(1) [OF called_in [OF J Eof(1,2)]] Eof show ?thesis by (simp add: after_in_def)
next
  case (Failed d m er off' s')
  then show ?thesis using called_in [OF J Failed(1,2)] by simp
qed

lemma dest_kept:
  assumes J: "J c e" and run: "try_splice_to_dest pf (wr_fd w) c e = Val (res, c', e')"
  shows "J c' e'"
  using run
proof (cases rule: dest_cases)
  case Emptied
  then show ?thesis using closed(2) [OF J] by simp
next
  case Idle
  then show ?thesis using J by simp
next
  case (Moved d m n off' s' t)
  then show ?thesis using counted(2) [OF called_out [OF J Moved(1,2)]] by simp
next
  case (Stuck d m off' s')
  then show ?thesis using called_out [OF J Stuck(1,2)] by simp
next
  case (Failed d m er off' s')
  then show ?thesis using called_out [OF J Failed(1,2)] by simp
qed

text \<open>Through \<open>try_io\<close>.\<close>

lemma ran_kept:
  assumes J: "J c e" and ran: "ran R f c e (Val (res, c', e'))"
    and f: "\<And>c e res c' e'. J c e \<Longrightarrow> f c e = Val (res, c', e') \<Longrightarrow> J c' e'"
  shows "J c' e'"
proof -
  from ran obtain e1 e2 where "R e e1" "f c e1 = Val (res, c', e2)" "R e2 e'"
    by (rule ran_ValD)
  then show ?thesis using J blind f by blast
qed

lemma try_read_kept:
  assumes J: "J c e"
    and run: "rd_try_io r (try_splice_from_source pf (rd_fd r)) c e = Val (res, c', e')"
  shows "J c' e'"
  using reader_okD(2) [OF ends(1) [OF J], of "try_splice_from_source pf (rd_fd r)" c e]
proof
  assume "ran R (try_splice_from_source pf (rd_fd r)) c e
    (rd_try_io r (try_splice_from_source pf (rd_fd r)) c e)"
  then show ?thesis unfolding run by (rule ran_kept [OF J _ source_kept])
next
  assume "\<exists>er e'. rd_try_io r (try_splice_from_source pf (rd_fd r)) c e = Val (Err er, c, e')
    \<and> R e e'"
  with run J blind show ?thesis by auto
qed

lemma try_write_kept:
  assumes J: "J c e" and ready: "wr_poll_ready w e0 = (Ready (Ok ()), e)"
    and run: "wr_try_io w (try_splice_to_dest pf (wr_fd w)) c e = Val (res, c', e')"
  shows "J c' e'"
  using writer_okD(3) [OF ends(2) [OF J] ready, of "try_splice_to_dest pf (wr_fd w)" c]
  unfolding run by (rule ran_kept [OF J _ dest_kept])

lemma polled_kept:
  assumes J: "J c e"
  shows "rd_poll_ready r e = (x, e') \<Longrightarrow> J c e'" "wr_poll_ready w e = (x, e') \<Longrightarrow> J c e'"
    "wr_poll_shutdown w e = (x, e') \<Longrightarrow> J c e'"
  using reader_okD(1) [OF ends(1) [OF J]] writer_okD(1,2) [OF ends(2) [OF J]] J
  by (blast intro: blind dest: poll_keepsD)+

fun kept :: "('s, 'e) poll_out \<Rightarrow> bool" where
  "kept (Val (x, io, e)) = J (ctx io) e"
| "kept (Panic p) = True"

lemma step_kept:
  assumes J: "J (ctx io) e"
  shows "poll_step pf r w (io, e) = Continue (io', e') \<Longrightarrow> J (ctx io') e'"
    and "poll_step pf r w (io, e) = Break out \<Longrightarrow> kept out"
  using polled_kept [OF J]
  by (auto split: transfer_state.splits prod.splits poll.splits result.splits comp.splits
      intro: try_read_kept try_write_kept)

end

sublocale poll_frame \<subseteq> framed: loop_inv "poll_step pf r w" "\<lambda>(io, e). J (ctx io) e" kept
proof
  fix st st' :: "'s splice_io \<times> 'e" and out
  obtain io e where st: "st = (io, e)" by (cases st)
  obtain io' e' where st': "st' = (io', e')" by (cases st')
  assume "case st of (io, e) \<Rightarrow> J (ctx io) e"
  then have J: "J (ctx io) e" by (simp add: st)
  show "case st' of (io, e) \<Rightarrow> J (ctx io) e" if "poll_step pf r w st = Continue st'"
    using step_kept(1) [OF J] that unfolding st st' by simp
  show "kept out" if "poll_step pf r w st = Break out"
    using step_kept(2) [OF J] that unfolding st by simp
qed

context poll_frame
begin

lemma poll_kept:
  assumes "J (ctx io) e" and "poll_execute pf r w (io, e) = Some (Val (x, io', e'))"
  shows "J (ctx io') e'"
  using framed.drive_post [of "(io, e)" "Val (x, io', e')"] assms by (simp add: poll_execute_def)

end

text \<open>The same across waits: what happens while the task is parked must leave \<open>J\<close> alone too.\<close>

locale exec_frame = poll_frame pf r w J R
  for pf :: "('s, 'e) platform" and r w J R +
  fixes park :: "'e \<Rightarrow> 'e"
  assumes parked: "J c e \<Longrightarrow> J c (park e)"

sublocale exec_frame \<subseteq> future: future_inv "poll_execute pf r w" "park_state park"
    "\<lambda>(io, e). J (ctx io) e"
  by unfold_locales (auto intro: poll_kept parked)

context exec_frame
begin

lemma execute_kept:
  assumes J: "J (ctx io) e" and run: "execute pf r w park io e = Some (Val (rep, e'))"
  shows "\<exists>c e1. J c e1 \<and> e' = drop_ctx (pf_os pf) c e1"
proof -
  from run obtain res io1 e1 where
    d: "drive (await_step (poll_execute pf r w) (park_state park)) (io, e)
          = Some (Some (Val (res, io1, e1)))"
    and e': "e' = drop_ctx (pf_os pf) (ctx io1) e1"
    by (auto simp: execute_as_await bind_eq_Some_conv bind_comp_Val_iff)
  from future.awaited.drive_post [OF d] J have "J (ctx io1) e1" by simp
  with e' show ?thesis by blast
qed

end

end
