(* ===== verification/Entry.thy ===== *)
theory Entry
  imports Execute_Correct
begin

text \<open>
  The entry points of the crate (\<open>src/lib.rs\<close>) that move data one way, \<open>copy\<close> and \<open>sendfile\<close>, on
  the production \<open>Splicer\<close>: which bytes they deliver, and what they report.
\<close>

definition live_platform :: "profile \<Rightarrow> 'e os \<Rightarrow> (live, 'e) platform" where
  "live_platform prof os = \<lparr>pf_profile = prof, pf_os = os, pf_ops = live_ops os\<rparr>"

lemma live_platform_simps [simp]:
  "pf_profile (live_platform prof os) = prof" "pf_os (live_platform prof os) = os"
  "pf_ops (live_platform prof os) = live_ops os"
  by (simp_all add: live_platform_def)

type_synonym 'e entry_out = "(transfer_report io_result \<times> 'e) comp option"

text \<open>The common tail \<open>Ok(SpliceIo::from(ctx?).execute(r, w).await)\<close>.\<close>

definition run_from ::
    "profile \<Rightarrow> 'e os \<Rightarrow> (live, 'e) reader \<Rightarrow> (live, 'e) writer \<Rightarrow> ('e \<Rightarrow> 'e)
      \<Rightarrow> live splice_ctx io_result \<times> 'e \<Rightarrow> 'e entry_out" where
  "run_from prof os r w park made =
     (case made of
        (Err er, e) \<Rightarrow> Some (Val (Err er, e))
      | (Ok c, e) \<Rightarrow>
          map_option (\<lambda>out. bind_comp out (\<lambda>(rep, e'). Val (Ok rep, e')))
            (execute (live_platform prof os) r w park (io_from c) e))"

definition copy ::
    "profile \<Rightarrow> 'e os \<Rightarrow> (live, 'e) reader \<Rightarrow> (live, 'e) writer \<Rightarrow> ('e \<Rightarrow> 'e) \<Rightarrow> 'e
      \<Rightarrow> 'e entry_out" where
  "copy prof os r w park e = run_from prof os r w park (ctx_new os e)"

definition sendfile ::
    "profile \<Rightarrow> 'e os \<Rightarrow> (live, 'e) reader \<Rightarrow> (live, 'e) writer \<Rightarrow> ('e \<Rightarrow> 'e)
      \<Rightarrow> u64 \<Rightarrow> u64 option \<Rightarrow> u64 option \<Rightarrow> 'e \<Rightarrow> 'e entry_out" where
  "sendfile prof os r w park f_len f_offset_start f_offset_end e =
     run_from prof os r w park (ctx_with_input_file os f_len f_offset_start f_offset_end e)"

section \<open>What the entry points rely on\<close>

text \<open>
  The kernel between one source, one destination and the pipe with the ends \<open>pw\<close>, \<open>pr\<close>; and a
  runtime that wakes the task up after finitely many waits.
\<close>

definition kernel_ok ::
    "'e os \<Rightarrow> 'e probe \<Rightarrow> ('s, 'e) reader \<Rightarrow> ('s, 'e) writer \<Rightarrow> fd \<Rightarrow> fd \<Rightarrow> bool" where
  "kernel_ok os P r w pw pr \<longleftrightarrow>
     kernel_moves os P (rd_fd r) (wr_fd w) pw pr \<and> close_keeps os P pw pr \<and>
     pipe_starts_empty os P pw pr \<and> reader_ok (same_view P) r \<and> writer_ok (same_view P) w"

definition runtime_ok ::
    "('s, 'e) platform \<Rightarrow> 'e probe \<Rightarrow> ('s, 'e) reader \<Rightarrow> ('s, 'e) writer \<Rightarrow> fd \<Rightarrow> fd
      \<Rightarrow> ('e \<Rightarrow> 'e) \<Rightarrow> ('e \<Rightarrow> nat) \<Rightarrow> ('e \<Rightarrow> nat) \<Rightarrow> bool" where
  "runtime_ok pf P r w pw pr park budget patience \<longleftrightarrow>
     park_keeps P park \<and> yields pf P r w pw pr budget \<and> patient pf r w patience \<and>
     park_saves patience park"

lemma kernel_ok_transfer_env:
  "kernel_ok os P r w pw pr \<Longrightarrow> transfer_env (live_platform prof os) P r w pw pr"
  by (simp add: kernel_ok_def transfer_env_def live_moves)

section \<open>A fresh context\<close>

lemma ctx_inv_fresh:
  assumes "bytes_read c = 0" "bytes_written c = 0" "size_to_splice c = T" "offset c = off0"
    and "drain_fd (pipe c) = Some pr" "fill_fd (pipe c) = Some pw" and "v_buf P e = []"
  shows "ctx_inv P pw pr off0 T (v_src P (off_in off0) e) (v_dst P (off_out off0) e) c e"
  using assms
  by (cases off0) (simp_all add: ctx_inv_def counts_ok_def ends_ok_def stream_rel_def src_of_def
      dst_of_def is_source_done_def is_finished_def is_drain_done_def is_fill_done_def
      drain_fd_def fill_fd_def)

lemma io_inv_fresh:
  assumes "bytes_read c = 0" "bytes_written c = 0" "size_to_splice c = T" "offset c = off0"
    and "drain_fd (pipe c) = Some pr" "fill_fd (pipe c) = Some pw" and "v_buf P e = []"
  shows "io_inv P pw pr off0 T (v_src P (off_in off0) e) (v_dst P (off_out off0) e) (io_from c) e"
  using ctx_inv_fresh [OF assms] assms
  by (simp add: io_inv_def io_from_def state_ok_def is_drain_done_def drain_fd_def
      is_source_done_def is_fill_done_def fill_fd_def)

text \<open>Both entry points from a context made on a new pipe.\<close>

lemma run_from_delivers:
  assumes kern: "kernel_ok os P r w pw pr"
    and run: "runtime_ok (live_platform prof os) P r w pw pr park budget patience"
    and new: "pipe_new os e = (Ok p, e1)"
    and ends: "drain_fd p = Some pr" "fill_fd p = Some pw"
    and c: "c = (new_ctx Live p)\<lparr>offset := off0, size_to_splice := T\<rparr>"
  shows "\<exists>rep e'. run_from prof os r w park (Ok c, e1) = Some (Val (Ok rep, e')) \<and>
    delivered P off0 T (v_src P (off_in off0) e) (v_dst P (off_out off0) e) rep e'"
proof -
  have starts: "pipe_starts_empty os P pw pr" using kern by (simp add: kernel_ok_def)
  note empty = pipe_new_empty [OF starts new, folded drain_fd_def fill_fd_def, OF ends]
  have "io_inv P pw pr off0 T (v_src P (off_in off0) e1) (v_dst P (off_out off0) e1)
      (io_from c) e1"
    by (rule io_inv_fresh) (simp_all add: c new_ctx_def rust_defs ends [unfolded rust_defs] empty)
  then have inv: "io_inv P pw pr off0 T (v_src P (off_in off0) e) (v_dst P (off_out off0) e)
      (io_from c) e1"
    by (simp add: empty)
  from run have rt: "park_keeps P park" "yields (live_platform prof os) P r w pw pr budget"
    "patient (live_platform prof os) r w patience" "park_saves patience park"
    by (simp_all add: runtime_ok_def)
  from execute_returns [OF kernel_ok_transfer_env [OF kern] inv rt]
  show ?thesis by (auto simp: run_from_def)
qed

section \<open>The two entry points\<close>

lemma copy_outcome:
  assumes kern: "kernel_ok os P r w pw pr"
    and run: "runtime_ok (live_platform prof os) P r w pw pr park budget patience"
    and new: "pipe_new os e = (Ok p, e1)"
    and ends: "drain_fd p = Some pr" "fill_fd p = Some pw"
  shows "\<exists>rep e'. copy prof os r w park e = Some (Val (Ok rep, e')) \<and>
    delivered P Off_None ISIZE_MAX (v_src P None e) (v_dst P None e) rep e'"
proof -
  have "copy prof os r w park e =
      run_from prof os r w park
        (Ok ((new_ctx Live p)\<lparr>offset := Off_None, size_to_splice := ISIZE_MAX\<rparr>), e1)"
    by (simp add: copy_def ctx_new_def ctx_new_inner_def new new_ctx_def)
  with run_from_delivers [where ?off0.0 = Off_None and T = ISIZE_MAX, OF kern run new ends refl] show ?thesis
    by simp
qed

lemma sendfile_outcome:
  assumes kern: "kernel_ok os P r w pw pr"
    and run: "runtime_ok (live_platform prof os) P r w pw pr park budget patience"
    and new: "pipe_new os e = (Ok p, e1)"
    and ends: "drain_fd p = Some pr" "fill_fd p = Some pw"
    and range: "calc_size_to_splice f_len s t = Ok len"
  shows "\<exists>rep e'. sendfile prof os r w park f_len s t e = Some (Val (Ok rep, e')) \<and>
    delivered P (Off_In (unwrap_or s 0)) len (v_src P (Some (unwrap_or s 0)) e) (v_dst P None e) rep e'"
proof -
  have "sendfile prof os r w park f_len s t e =
      run_from prof os r w park
        (Ok ((new_ctx Live p)\<lparr>offset := Off_In (unwrap_or s 0), size_to_splice := len\<rparr>), e1)"
    by (simp add: sendfile_def ctx_with_input_file_def ctx_with_file_def range ctx_new_inner_def new)
  with run_from_delivers [where ?off0.0 = "Off_In (unwrap_or s 0)" and T = len,
      OF kern run new ends refl] show ?thesis
    by simp
qed

text \<open>A transfer of a target length: \<open>SpliceCtx::new()?.with_target_len(n)\<close>, run by its caller.\<close>

lemma target_len_outcome:
  assumes kern: "kernel_ok os P r w pw pr"
    and run: "runtime_ok (live_platform prof os) P r w pw pr park budget patience"
    and new: "ctx_new os e = (Ok c, e1)"
    and ends: "drain_fd (pipe c) = Some pr" "fill_fd (pipe c) = Some pw"
  shows "\<exists>rep e'. run_from prof os r w park (Ok (ctx_with_target_len c n), e1)
      = Some (Val (Ok rep, e')) \<and>
    delivered P Off_None n (v_src P None e) (v_dst P None e) rep e'"
proof -
  from new obtain p where p: "pipe_new os e = (Ok p, e1)" and c: "c = new_ctx Live p"
    by (auto simp: ctx_new_def ctx_new_inner_def split: prod.splits result.splits)
  have "ctx_with_target_len c n = (new_ctx Live p)\<lparr>offset := Off_None, size_to_splice := n\<rparr>"
    by (simp add: c ctx_with_target_len_def new_ctx_def)
  with run_from_delivers [where ?off0.0 = Off_None and T = n, OF kern run p _ _ refl] ends c
  show ?thesis
    by (simp add: new_ctx_def)
qed

text \<open>
  A transfer into a file: \<open>SpliceIo::from(SpliceCtx::with_output_file(...)?).execute(r, w)\<close>, which
  the crate leaves to its callers.
\<close>

lemma output_file_outcome:
  assumes kern: "kernel_ok os P r w pw pr"
    and run: "runtime_ok (live_platform prof os) P r w pw pr park budget patience"
    and new: "pipe_new os e = (Ok p, e1)"
    and ends: "drain_fd p = Some pr" "fill_fd p = Some pw"
    and range: "calc_size_to_splice f_len s t = Ok len"
  shows "\<exists>rep e'. run_from prof os r w park (ctx_with_output_file os f_len s t e)
      = Some (Val (Ok rep, e')) \<and>
    delivered P (Off_Out (unwrap_or s 0)) len (v_src P None e) (v_dst P (Some (unwrap_or s 0)) e) rep e'"
proof -
  have "ctx_with_output_file os f_len s t e =
      (Ok ((new_ctx Live p)\<lparr>offset := Off_Out (unwrap_or s 0), size_to_splice := len\<rparr>), e1)"
    by (simp add: ctx_with_output_file_def ctx_with_file_def range ctx_new_inner_def new)
  with run_from_delivers [where ?off0.0 = "Off_Out (unwrap_or s 0)" and T = len,
      OF kern run new ends refl] show ?thesis
    by simp
qed

text \<open>
  A range the file does not have is refused before anything is touched, and a pipe that cannot
  be made is the other error; both leave the byte streams alone.
\<close>

lemma sendfile_bad_range:
  assumes "unwrap_or t f_len < unwrap_or s 0 \<or> f_len < unwrap_or t f_len"
  shows "sendfile prof os r w park f_len s t e =
    Some (Val (Err (Custom InvalidInput ''invalid offset range''), e))"
proof -
  have "calc_size_to_splice f_len s t = Err (Custom InvalidInput ''invalid offset range'')"
    using assms by (simp add: calc_size_Err_iff)
  then show ?thesis
    by (simp add: sendfile_def run_from_def ctx_with_input_file_def ctx_with_file_def)
qed

lemma entry_no_pipe:
  assumes "pipe_new os e = (Err er, e1)"
  shows "copy prof os r w park e = Some (Val (Err er, e1))"
    and "calc_size_to_splice f_len s t = Ok len \<Longrightarrow>
      sendfile prof os r w park f_len s t e = Some (Val (Err er, e1))"
  using assms
  by (simp_all add: copy_def sendfile_def run_from_def ctx_new_def ctx_new_inner_def
      ctx_with_input_file_def ctx_with_file_def)

text \<open>
  The first \<open>n\<close> bytes of a file, as they are once something is written behind them: a write past the
  end of a file leaves a hole, which reads as zeros.
\<close>

definition padded :: "nat \<Rightarrow> byte list \<Rightarrow> byte list" where
  "padded n xs = take n xs @ replicate (n - length xs) 0"

lemma padded_length [simp]: "length (padded n xs) = n"
  by (simp add: padded_def)

lemma padded_within: "n \<le> length xs \<Longrightarrow> padded n xs = take n xs"
  by (simp add: padded_def)

lemma padded_append [simp]: "padded (n + length ys) (padded n xs @ ys @ zs) = padded n xs @ ys"
  by (simp add: padded_def [of "n + length ys"])

text \<open>
  The content of a file: what is read at an offset is what lies behind it.  Then a transfer
  without an error delivers exactly the requested range.
\<close>

lemma delivered_range:
  assumes del: "delivered P (Off_In s) len (drop (unat s) F) D rep e'"
    and none: "report_error rep = None" and fits: "unat s + unat len \<le> length F"
  shows "v_dst P None e' = D @ take (unat len) (drop (unat s) F)" and "tx rep = len"
proof -
  have "unat (tx rep) = unat len"
    using del none fits by (auto simp: delivered_def Let_def)
  with del show "v_dst P None e' = D @ take (unat len) (drop (unat s) F)" and "tx rep = len"
    by (simp_all add: delivered_def Let_def word_unat_eq_iff)
qed

end
