(* ===== verification/Fd_Account.thy ===== *)
theory Fd_Account
  imports Frame Entry
begin

text \<open>
  Descriptor accounting (the concern of \<open>tests/fd_leak.rs\<close>): at every moment of a transfer the
  descriptors that are open are those that were open before and the ends the pipe still has, and
  when the transfer is over, in whatever way, they are those that were open before.
\<close>

definition same_fds :: "('e \<Rightarrow> fd set) \<Rightarrow> 'e \<Rightarrow> 'e \<Rightarrow> bool" where
  "same_fds opened e e' \<longleftrightarrow> opened e' = opened e"

definition opens_nothing :: "('s, 'e) splicer_ops \<Rightarrow> ('e \<Rightarrow> fd set) \<Rightarrow> bool" where
  "opens_nothing ops opened \<longleftrightarrow>
     (\<forall>s r off pw m e res off' s' e'.
        splice_in ops s r off pw m e = Val (res, off', s', e') \<longrightarrow> opened e' = opened e) \<and>
     (\<forall>s pr w off m e res off' s' e'.
        splice_out ops s pr w off m e = Val (res, off', s', e') \<longrightarrow> opened e' = opened e)"

lemma opens_nothingD:
  assumes "opens_nothing ops opened"
  shows "splice_in ops s r off pw m e = Val (res, off', s', e') \<Longrightarrow> opened e' = opened e"
    and "splice_out ops s pr w off m e = Val (res, off', s', e') \<Longrightarrow> opened e' = opened e"
  using assms unfolding opens_nothing_def by - (drule conjunct1, blast, drule conjunct2, blast)

lemma live_opens_nothing: "fd_laws os opened \<Longrightarrow> opens_nothing (live_ops os) opened"
  unfolding opens_nothing_def by (blast dest: live_opened)

definition accounts ::
    "('s, 'e) platform \<Rightarrow> ('s, 'e) reader \<Rightarrow> ('s, 'e) writer \<Rightarrow> ('e \<Rightarrow> 'e) \<Rightarrow> ('e \<Rightarrow> fd set) \<Rightarrow> bool" where
  "accounts pf r w park opened \<longleftrightarrow>
     fd_laws (pf_os pf) opened \<and> opens_nothing (pf_ops pf) opened \<and>
     reader_ok (same_fds opened) r \<and> writer_ok (same_fds opened) w \<and>
     (\<forall>e. opened (park e) = opened e)"

text \<open>The ends a context owns, apart from each other and from everything else.\<close>

definition owns_apart :: "('e \<Rightarrow> fd set) \<Rightarrow> fd set \<Rightarrow> pipe \<Rightarrow> 'e \<Rightarrow> bool" where
  "owns_apart opened base p e \<longleftrightarrow>
     opened e = base \<union> pipe_fds p \<and> pipe_fds p \<inter> base = {} \<and>
     set_option (pipe_drain_fd p) \<inter> set_option (pipe_fill_fd p) = {}"

definition accounted ::
    "('s, 'e) platform \<Rightarrow> ('s, 'e) reader \<Rightarrow> ('s, 'e) writer \<Rightarrow> ('e \<Rightarrow> 'e) \<Rightarrow> ('e \<Rightarrow> fd set)
      \<Rightarrow> fd set \<Rightarrow> 's splice_ctx \<Rightarrow> 'e \<Rightarrow> bool" where
  "accounted pf r w park opened base c e \<longleftrightarrow>
     accounts pf r w park opened \<and> owns_apart opened base (pipe c) e"

lemma accounts_calls:
  assumes "accounts pf r w park opened"
  shows "splice_in (pf_ops pf) s d1 off d2 m e = Val (res, off', s', e') \<Longrightarrow> opened e' = opened e"
    and "splice_out (pf_ops pf) s d1 d2 off m e = Val (res, off', s', e') \<Longrightarrow> opened e' = opened e"
    and "opened (drop_fd (pf_os pf) d e) = opened e - set_option d"
    and "opened (park e) = opened e"
proof -
  from assms have laws: "fd_laws (pf_os pf) opened" and ops: "opens_nothing (pf_ops pf) opened"
    and park: "\<forall>e. opened (park e) = opened e"
    by (simp_all only: accounts_def simp_thms)
  show "opened e' = opened e"
    if "splice_in (pf_ops pf) s d1 off d2 m e = Val (res, off', s', e')"
    using opens_nothingD(1) [OF ops that] .
  show "opened e' = opened e"
    if "splice_out (pf_ops pf) s d1 d2 off m e = Val (res, off', s', e')"
    using opens_nothingD(2) [OF ops that] .
  show "opened (drop_fd (pf_os pf) d e) = opened e - set_option d"
    using laws by (rule opened_drop_fd)
  show "opened (park e) = opened e" using park by (rule spec)
qed

lemma owns_apart_close:
  assumes "owns_apart opened base p e"
  shows "opened e1 = opened e - set_option (pipe_fill_fd p) \<Longrightarrow>
      owns_apart opened base (p\<lparr>pipe_fill_fd := None\<rparr>) e1"
    and "opened e1 = opened e - set_option (pipe_drain_fd p) \<Longrightarrow>
      owns_apart opened base (p\<lparr>pipe_drain_fd := None\<rparr>) e1"
  using assms by (auto simp: owns_apart_def pipe_fds_def)

lemma owns_apart_same:
  "opened e' = opened e \<Longrightarrow> owns_apart opened base p e' = owns_apart opened base p e"
  by (simp add: owns_apart_def)

interpretation account: exec_frame pf r w "accounted pf r w park opened base" "same_fds opened" park
  for pf :: "('s, 'e) platform" and r w park opened base
proof
  fix c :: "'s splice_ctx" and e :: 'e
  assume J: "accounted pf r w park opened base c e"
  then have acc: "accounts pf r w park opened" and own: "owns_apart opened base (pipe c) e"
    by (simp_all add: accounted_def)
  note calls = accounts_calls [OF acc]
  show "reader_ok (same_fds opened) r" "writer_ok (same_fds opened) w"
    using acc by (simp_all add: accounts_def)
  show "accounted pf r w park opened base (after_in c s' off') e'"
    if "splice_in (pf_ops pf) (splicer c) (rd_fd r) (off_in (offset c)) d m e
      = Val (res, off', s', e')" for d m res off' s' e'
    using acc own by (simp add: accounted_def after_in_def owns_apart_same [where opened = opened, OF calls(1) [OF that]])
  show "accounted pf r w park opened base (after_out c s' off') e'"
    if "splice_out (pf_ops pf) (splicer c) d (wr_fd w) (off_out (offset c)) m e
      = Val (res, off', s', e')" for d m res off' s' e'
    using acc own by (simp add: accounted_def after_out_def owns_apart_same [where opened = opened, OF calls(2) [OF that]])
  show "accounted pf r w park opened base (c\<lparr>bytes_read_field := n\<rparr>) e"
    "accounted pf r w park opened base (c\<lparr>bytes_written_field := n\<rparr>) e" for n
    using J by (simp_all add: accounted_def)
  show "accounted pf r w park opened base (fill_closed c)
      (drop_fd (pf_os pf) (pipe_fill_fd (pipe c)) e)"
    using acc owns_apart_close(1) [OF own calls(3)] by (simp add: accounted_def fill_closed_def)
  show "accounted pf r w park opened base (drain_closed c)
      (drop_fd (pf_os pf) (pipe_drain_fd (pipe c)) e)"
    using acc owns_apart_close(2) [OF own calls(3)] by (simp add: accounted_def drain_closed_def)
  show "accounted pf r w park opened base c (park e)"
    using acc own by (simp add: accounted_def owns_apart_same [where opened = opened, OF calls(4)])
  show "accounted pf r w park opened base c e'" if "same_fds opened e e'" for e'
    using acc own owns_apart_same [where opened = opened, OF that [unfolded same_fds_def]] by (simp add: accounted_def)
qed

section \<open>Nothing is leaked\<close>

lemma accounted_drop:
  assumes "accounted pf r w park opened base c e"
  shows "opened (drop_ctx (pf_os pf) c e) = base"
proof -
  have "fd_laws (pf_os pf) opened" and own: "owns_apart opened base (pipe c) e"
    using assms by (simp_all add: accounted_def accounts_def)
  then have "opened (drop_ctx (pf_os pf) c e) = opened e - pipe_fds (pipe c)"
    by (simp add: drop_ctx_def opened_drop_pipe)
  with own show ?thesis by (auto simp: owns_apart_def)
qed

lemma execute_accounted:
  assumes "accounted pf r w park opened base (ctx io) e"
    and "execute pf r w park io e = Some (Val (rep, e'))"
  shows "opened e' = base"
proof -
  from account.execute_kept [OF assms] obtain c e1 where
    "accounted pf r w park opened base c e1" and "e' = drop_ctx (pf_os pf) c e1"
    by (elim exE conjE)
  then show ?thesis by (simp only: accounted_drop)
qed

lemma pipe_new_owns:
  assumes laws: "fd_laws os opened" and new: "pipe_new os e = (Ok p, e')"
  shows "owns_apart opened (opened e) p e'"
proof -
  from new obtain a b e1 where mk: "sys_pipe os [PIPE_NONBLOCK, PIPE_CLOEXEC] e = (Ok (a, b), e1)"
    and p: "pipe_drain_fd p = Some a" "pipe_fill_fd p = Some b"
    by (auto simp: pipe_new_def split: prod.splits result.splits)
  with fd_laws_pipe_Ok [OF laws mk] pipe_new_opened_Ok [OF laws new] show ?thesis
    by (auto simp: owns_apart_def)
qed

lemma ctx_with_input_file_made:
  assumes "ctx_with_input_file os f_len s t e = (x, e')"
  shows "(\<exists>er. x = Err er \<and> (e' = e \<or> pipe_new os e = (Err er, e'))) \<or>
    (\<exists>c p. x = Ok c \<and> pipe c = p \<and> pipe_new os e = (Ok p, e'))"
  using assms
  by (auto simp: ctx_with_input_file_def ctx_with_file_def ctx_new_inner_def new_ctx_def
      split: result.splits prod.splits)

text \<open>
  Whatever a constructor gave, running it through \<open>execute\<close> leaves the descriptors as they were:
  on success, after an error of the transfer, and when no context could be made.
\<close>

lemma run_from_accounted:
  assumes acc: "accounts (live_platform prof os) r w park opened"
    and made: "(\<exists>er. made = (Err er, e1) \<and> opened e1 = opened e) \<or>
      (\<exists>c. made = (Ok c, e1) \<and> pipe_new os e = (Ok (pipe c), e1))"
    and run: "run_from prof os r w park made = Some (Val (res, e'))"
  shows "opened e' = opened e"
  using made
proof
  assume "\<exists>er. made = (Err er, e1) \<and> opened e1 = opened e"
  then obtain er where er: "made = (Err er, e1)" and same: "opened e1 = opened e"
    by (elim exE conjE)
  from run have "e' = e1" by (simp add: run_from_def er)
  with same show ?thesis by simp
next
  assume "\<exists>c. made = (Ok c, e1) \<and> pipe_new os e = (Ok (pipe c), e1)"
  then obtain c where c: "made = (Ok c, e1)" and new: "pipe_new os e = (Ok (pipe c), e1)" by blast
  have "fd_laws os opened" using acc by (simp add: accounts_def)
  from pipe_new_owns [OF this new] acc
  have "accounted (live_platform prof os) r w park opened (opened e) (ctx (io_from c)) e1"
    by (simp add: accounted_def io_from_def)
  moreover from run c obtain rep where
    "execute (live_platform prof os) r w park (io_from c) e1 = Some (Val (rep, e'))"
    by (auto simp: run_from_def bind_comp_Val_iff)
  ultimately show ?thesis by (rule execute_accounted)
qed

lemma copy_accounted:
  assumes acc: "accounts (live_platform prof os) r w park opened"
    and run: "copy prof os r w park e = Some (Val (res, e'))"
  shows "opened e' = opened e"
proof -
  have laws: "fd_laws os opened" using acc by (simp add: accounts_def)
  obtain x e1 where x: "ctx_new os e = (x, e1)" by (cases "ctx_new os e")
  then have "(\<exists>er. ctx_new os e = (Err er, e1) \<and> opened e1 = opened e) \<or>
      (\<exists>c. ctx_new os e = (Ok c, e1) \<and> pipe_new os e = (Ok (pipe c), e1))"
    by (auto simp: ctx_new_def ctx_new_inner_def new_ctx_def pipe_new_opened_Err [OF laws]
        split: result.splits prod.splits)
  from run_from_accounted [OF acc this] run show ?thesis by (simp add: copy_def)
qed

lemma sendfile_accounted:
  assumes acc: "accounts (live_platform prof os) r w park opened"
    and run: "sendfile prof os r w park f_len s t e = Some (Val (res, e'))"
  shows "opened e' = opened e"
proof -
  have laws: "fd_laws os opened" using acc by (simp add: accounts_def)
  obtain x e1 where x: "ctx_with_input_file os f_len s t e = (x, e1)"
    by (cases "ctx_with_input_file os f_len s t e")
  have "(\<exists>er. (x, e1) = (Err er, e1) \<and> opened e1 = opened e) \<or>
      (\<exists>c. (x, e1) = (Ok c, e1) \<and> pipe_new os e = (Ok (pipe c), e1))"
    using ctx_with_input_file_made [OF x] pipe_new_opened_Err [OF laws] by blast
  from run_from_accounted [OF acc this] run x show ?thesis by (simp add: sendfile_def)
qed

end
