(* ===== verification/Splice_Bidi.thy ===== *)
theory Splice_Bidi
  imports Fd_Account
begin

text \<open>
  The bidirectional transfer (\<open>SpliceBidiIo\<close> in \<open>src/io/mod.rs\<close>) and \<open>copy_bidirectional\<close>
  (\<open>src/lib.rs\<close>): two one-directional transfers polled one after the other.
\<close>

text \<open>
  A socket is read by one direction and written by the other, whose contexts may use different
  splicers.
\<close>

record ('s1, 's2, 'e) endpoint =
  as_reader :: "('s1, 'e) reader"
  as_writer :: "('s2, 'e) writer"

record ('s1, 's2) bidi_io =
  io_sl2sr :: "'s1 splice_io"
  io_sr2sl :: "'s2 splice_io"

type_synonym ('s1, 's2, 'e) bidi_out = "(unit io_result poll \<times> ('s1, 's2) bidi_io \<times> 'e) comp"

text \<open>The final match of \<open>poll_execute\<close>: pending wins, then the first error.\<close>

fun bidi_join :: "unit io_result poll \<Rightarrow> unit io_result poll \<Rightarrow> unit io_result poll" where
  "bidi_join Pending y = Pending"
| "bidi_join x Pending = Pending"
| "bidi_join (Ready (Ok u)) (Ready (Ok v)) = Ready (Ok ())"
| "bidi_join (Ready (Err er)) y = Ready (Err er)"
| "bidi_join x (Ready (Err er)) = Ready (Err er)"

definition bidi_poll_execute ::
    "('s1, 'e) platform \<Rightarrow> ('s2, 'e) platform \<Rightarrow> ('s1, 's2, 'e) endpoint \<Rightarrow> ('s2, 's1, 'e) endpoint
      \<Rightarrow> ('s1, 's2) bidi_io \<times> 'e \<Rightarrow> ('s1, 's2, 'e) bidi_out option" where
  "bidi_poll_execute pf1 pf2 sl sr = (\<lambda>(b, e).
     case poll_execute pf1 (as_reader sl) (as_writer sr) (io_sl2sr b, e) of
       None \<Rightarrow> None
     | Some (Panic p) \<Rightarrow> Some (Panic p)
     | Some (Val (x1, io1, e1)) \<Rightarrow>
         (case poll_execute pf2 (as_reader sr) (as_writer sl) (io_sr2sl b, e1) of
            None \<Rightarrow> None
          | Some (Panic p) \<Rightarrow> Some (Panic p)
          | Some (Val (x2, io2, e2)) \<Rightarrow>
              Some (Val (bidi_join x1 x2, \<lparr>io_sl2sr = io1, io_sr2sl = io2\<rparr>, e2))))"

text \<open>
  \<open>execute\<close> drops itself at the end: the two transfers, in the order of the fields.
\<close>

definition drop_bidi :: "'e os \<Rightarrow> 'e os \<Rightarrow> ('s1, 's2) bidi_io \<Rightarrow> 'e \<Rightarrow> 'e" where
  "drop_bidi os1 os2 b e = drop_ctx os2 (ctx (io_sr2sl b)) (drop_ctx os1 (ctx (io_sl2sr b)) e)"

definition bidi_execute ::
    "('s1, 'e) platform \<Rightarrow> ('s2, 'e) platform \<Rightarrow> ('s1, 's2, 'e) endpoint \<Rightarrow> ('s2, 's1, 'e) endpoint
      \<Rightarrow> ('e \<Rightarrow> 'e) \<Rightarrow> ('s1, 's2) bidi_io \<Rightarrow> 'e \<Rightarrow> (transfer_report \<times> 'e) comp option" where
  "bidi_execute pf1 pf2 sl sr park b e =
     map_option
       (\<lambda>out. bind_comp out (\<lambda>(res, b', e').
          Val (\<lparr>tx = bytes_written (ctx (io_sl2sr b')), rx = bytes_written (ctx (io_sr2sl b')),
                report_error = err_of res\<rparr>,
               drop_bidi (pf_os pf1) (pf_os pf2) b' e')))
       (await (bidi_poll_execute pf1 pf2 sl sr) (\<lambda>(b, e). (b, park e)) (b, e))"

lemmas bidi_execute_unfold = bidi_execute_def [unfolded drop_bidi_def]

text \<open>
  \<open>copy_bidirectional\<close>.  The two contexts are made in order; when the second cannot be made the
  first, already converted, is dropped.
\<close>

definition copy_bidirectional ::
    "profile \<Rightarrow> 'e os \<Rightarrow> (live, live, 'e) endpoint \<Rightarrow> (live, live, 'e) endpoint \<Rightarrow> ('e \<Rightarrow> 'e) \<Rightarrow> 'e
      \<Rightarrow> 'e entry_out" where
  "copy_bidirectional prof os sl sr park e =
     (case ctx_new os e of
        (Err er, e1) \<Rightarrow> Some (Val (Err er, e1))
      | (Ok c1, e1) \<Rightarrow>
          (case ctx_new os e1 of
             (Err er, e2) \<Rightarrow> Some (Val (Err er, drop_ctx os c1 e2))
           | (Ok c2, e2) \<Rightarrow>
               map_option (\<lambda>out. bind_comp out (\<lambda>(rep, e'). Val (Ok rep, e')))
                 (bidi_execute (live_platform prof os) (live_platform prof os) sl sr park
                    \<lparr>io_sl2sr = io_from c1, io_sr2sl = io_from c2\<rparr> e2)))"

section \<open>One direction under repeated polling\<close>

text \<open>
  \<open>SpliceBidiIo\<close> keeps polling a direction that is already over.  What one direction is about: its
  pipe, its probe, its target, and the bytes at its two sides.
\<close>

record 'e lane =
  ln_probe :: "'e probe"
  ln_pw :: fd
  ln_pr :: fd
  ln_target :: usize
  ln_src :: "byte list"
  ln_dst :: "byte list"

definition lane_inv :: "'e lane \<Rightarrow> 's splice_ctx \<Rightarrow> 'e \<Rightarrow> bool" where
  "lane_inv L = ctx_inv (ln_probe L) (ln_pw L) (ln_pr L) Off_None (ln_target L) (ln_src L) (ln_dst L)"

definition lane_env :: "('s, 'e) platform \<Rightarrow> 'e lane \<Rightarrow> ('s, 'e) reader \<Rightarrow> ('s, 'e) writer \<Rightarrow> bool" where
  "lane_env pf L r w \<longleftrightarrow> transfer_env pf (ln_probe L) r w (ln_pw L) (ln_pr L)"

text \<open>A direction is either under its invariant or over, its error possibly taken out already.\<close>

definition half_ok :: "'e lane \<Rightarrow> 's splice_io \<Rightarrow> 'e \<Rightarrow> bool" where
  "half_ok L io e \<longleftrightarrow> lane_inv L (ctx io) e \<and> (state_ok io \<or> state io = Finished None)"

definition steady :: "'e poll_fn \<Rightarrow> bool" where
  "steady pl \<longleftrightarrow> (\<forall>e er e'. pl e \<noteq> (Ready (Err er), e'))"

end
