(* ===== verification/Calm.thy ===== *)
theory Calm
  imports Frame
begin

text \<open>
  A transfer beside others: whatever relation all the operations of a transfer respect, between the
  surroundings before and after each of them, a whole poll respects.  With two such transfers on one
  task the relation says what one of them leaves of what the other depends on.
\<close>

definition calm ::
    "('s, 'e) platform \<Rightarrow> ('s, 'e) reader \<Rightarrow> ('s, 'e) writer \<Rightarrow> fd \<Rightarrow> fd \<Rightarrow> ('e \<Rightarrow> 'e \<Rightarrow> bool)
      \<Rightarrow> bool" where
  "calm pf r w pw pr R \<longleftrightarrow>
     (\<forall>s off m e res off' s' e'.
        splice_in (pf_ops pf) s (rd_fd r) off pw m e = Val (res, off', s', e') \<longrightarrow> R e e') \<and>
     (\<forall>s off m e res off' s' e'.
        splice_out (pf_ops pf) s pr (wr_fd w) off m e = Val (res, off', s', e') \<longrightarrow> R e e') \<and>
     (\<forall>e. R e (sys_close (pf_os pf) pw e)) \<and>
     (\<forall>e. R e (sys_close (pf_os pf) pr e)) \<and>
     reader_ok R r \<and> writer_ok R w"

lemma calmD:
  assumes "calm pf r w pw pr R"
  shows "splice_in (pf_ops pf) s (rd_fd r) off pw m e = Val (res, off', s', e') \<Longrightarrow> R e e'"
    and "splice_out (pf_ops pf) s pr (wr_fd w) off m e = Val (res, off', s', e') \<Longrightarrow> R e e'"
    and "reflp R \<Longrightarrow> d \<in> {None, Some pw, Some pr} \<Longrightarrow> R e (drop_fd (pf_os pf) d e)"
    and "reader_ok R r" "writer_ok R w"
proof -
  note split = assms [unfolded calm_def]
  show "R e e'" if "splice_in (pf_ops pf) s (rd_fd r) off pw m e = Val (res, off', s', e')"
    using conjunct1 [OF split] that by blast
  show "R e e'" if "splice_out (pf_ops pf) s pr (wr_fd w) off m e = Val (res, off', s', e')"
    using conjunct1 [OF conjunct2 [OF split]] that by blast
  show "R e (drop_fd (pf_os pf) d e)" if "reflp R" "d \<in> {None, Some pw, Some pr}"
    using conjunct2 [OF conjunct2 [OF split]] that by (auto dest: reflpD)
  show "reader_ok R r" "writer_ok R w"
    using conjunct2 [OF conjunct2 [OF split]] by simp_all
qed

definition undisturbed ::
    "('s, 'e) platform \<Rightarrow> ('s, 'e) reader \<Rightarrow> ('s, 'e) writer \<Rightarrow> fd \<Rightarrow> fd \<Rightarrow> ('e \<Rightarrow> 'e \<Rightarrow> bool) \<Rightarrow> 'e
      \<Rightarrow> 's splice_ctx \<Rightarrow> 'e \<Rightarrow> bool" where
  "undisturbed pf r w pw pr R e0 c e \<longleftrightarrow>
     calm pf r w pw pr R \<and> reflp R \<and> transp R \<and> ends_ok pw pr c \<and> R e0 e"

lemma undisturbed_step:
  "undisturbed pf r w pw pr R e0 c e \<Longrightarrow> R e e' \<Longrightarrow> ends_ok pw pr c' \<Longrightarrow>
     undisturbed pf r w pw pr R e0 c' e'"
  by (auto simp: undisturbed_def dest: transpD)

lemma ends_ok_simps [simp]:
  "ends_ok pw pr (after_in c s' off') = ends_ok pw pr c"
  "ends_ok pw pr (after_out c s' off') = ends_ok pw pr c"
  "ends_ok pw pr (c\<lparr>bytes_read_field := n\<rparr>) = ends_ok pw pr c"
  "ends_ok pw pr (c\<lparr>bytes_written_field := n\<rparr>) = ends_ok pw pr c"
  "ends_ok pw pr c \<Longrightarrow> ends_ok pw pr (fill_closed c)"
  "ends_ok pw pr c \<Longrightarrow> ends_ok pw pr (drain_closed c)"
  by (simp_all add: ends_ok_def after_defs fill_fd_def drain_fd_def)

interpretation others: poll_frame pf r w "undisturbed pf r w pw pr R e0" R
  for pf :: "('s, 'e) platform" and r w pw pr R e0
proof
  fix c :: "'s splice_ctx" and e :: 'e
  assume J: "undisturbed pf r w pw pr R e0 c e"
  then have cm: "calm pf r w pw pr R" and same: "reflp R" and ok: "ends_ok pw pr c"
    by (simp_all add: undisturbed_def)
  note step = undisturbed_step [OF J]
  show "reader_ok R r" "writer_ok R w" using cm by (rule calmD)+
  show "undisturbed pf r w pw pr R e0 (after_in c s' off') e'"
    if "pipe_fill_fd (pipe c) = Some d" and
      "splice_in (pf_ops pf) (splicer c) (rd_fd r) (off_in (offset c)) d m e
        = Val (res, off', s', e')" for d m res off' s' e'
  proof (rule step)
    have "d = pw" using that(1) ok by (simp add: ends_ok_def fill_fd_def)
    with that(2) show "R e e'" by (blast intro: calmD(1) [OF cm])
  qed (use ok in simp)
  show "undisturbed pf r w pw pr R e0 (after_out c s' off') e'"
    if "pipe_drain_fd (pipe c) = Some d" and
      "splice_out (pf_ops pf) (splicer c) d (wr_fd w) (off_out (offset c)) m e
        = Val (res, off', s', e')" for d m res off' s' e'
  proof (rule step)
    have "d = pr" using that(1) ok by (simp add: ends_ok_def drain_fd_def)
    with that(2) show "R e e'" by (blast intro: calmD(2) [OF cm])
  qed (use ok in simp)
  show "undisturbed pf r w pw pr R e0 (c\<lparr>bytes_read_field := n\<rparr>) e"
    "undisturbed pf r w pw pr R e0 (c\<lparr>bytes_written_field := n\<rparr>) e" for n
    using ok by (auto intro: step reflpD [OF same])
  have "pipe_fill_fd (pipe c) \<in> {None, Some pw, Some pr}"
    "pipe_drain_fd (pipe c) \<in> {None, Some pw, Some pr}"
    using ok by (auto simp: ends_ok_def fill_fd_def drain_fd_def)
  then show "undisturbed pf r w pw pr R e0 (fill_closed c)
      (drop_fd (pf_os pf) (pipe_fill_fd (pipe c)) e)"
    "undisturbed pf r w pw pr R e0 (drain_closed c)
      (drop_fd (pf_os pf) (pipe_drain_fd (pipe c)) e)"
    using ok by (auto intro: step calmD(3) [OF cm same])
  show "undisturbed pf r w pw pr R e0 c e'" if "R e e'" for e'
    using step [OF that] ok by simp
qed

lemma poll_calm:
  assumes "calm pf r w pw pr R" "reflp R" "transp R" and "ends_ok pw pr (ctx io)"
    and run: "poll_execute pf r w (io, e) = Some (Val (x, io', e'))"
  shows "R e e'"
proof -
  have "undisturbed pf r w pw pr R e (ctx io) e" using assms by (simp add: undisturbed_def reflpD)
  from others.poll_kept [OF this run] show ?thesis by (simp add: undisturbed_def)
qed

end
