(* ===== verification/Bidi_Correct.thy ===== *)
theory Bidi_Correct
  imports Splice_Bidi Calm
begin

text \<open>
  Correctness of the bidirectional transfer: the two directions do not disturb each other, each
  keeps its own invariant, and \<open>execute\<close> returns with what each direction delivered.
\<close>

section \<open>The directions do not disturb each other\<close>

text \<open>
  Nothing one direction calls changes what the probe \<open>Q\<close> of the other shows: its splices and the
  closing of its own two ends, readiness, and \<open>try_io\<close>'s own bookkeeping.
\<close>

definition apart ::
    "('s, 'e) platform \<Rightarrow> ('s, 'e) reader \<Rightarrow> ('s, 'e) writer \<Rightarrow> fd \<Rightarrow> fd \<Rightarrow> 'e probe \<Rightarrow> bool" where
  "apart pf r w pw pr Q \<longleftrightarrow> calm pf r w pw pr (same_view Q)"

lemma same_view_order: "reflp (same_view Q)" "transp (same_view Q)"
  by (auto intro: reflpI transpI same_view_trans)

lemmas apartD = calmD [where R = "same_view Q" for Q, folded apart_def]

lemma poll_undisturbed:
  assumes "apart pf r w pw pr Q" and "ends_ok pw pr (ctx io)"
    and "poll_execute pf r w (io, e) = Some (Val (x, io', e'))"
  shows "same_view Q e e'"
  by (rule poll_calm [OF assms(1) [unfolded apart_def] same_view_order assms(2,3)])

section \<open>One poll of one direction\<close>

lemma half_ok_same_view: "same_view (ln_probe L) e e' \<Longrightarrow> half_ok L io e' = half_ok L io e"
  by (simp add: half_ok_def lane_inv_def ctx_inv_same_view)

lemma half_ok_ends: "half_ok L io e \<Longrightarrow> ends_ok (ln_pw L) (ln_pr L) (ctx io)"
  by (simp add: half_ok_def lane_inv_def ctx_inv_def)

text \<open>A direction that is over is shut down again, and reports success this time.\<close>

lemma poll_over:
  assumes "state io = Finished None"
  shows "poll_execute pf r w (io, e) =
    (case wr_poll_shutdown w e of
       (Pending, e') \<Rightarrow> Some (Val (Pending, io, e'))
     | (Ready (Err er), e') \<Rightarrow> Some (Val (Ready (Err er), io, e'))
     | (Ready (Ok _), e') \<Rightarrow> Some (Val (Ready (Ok ()), io, e')))"
proof -
  have "io\<lparr>state := Finished None\<rparr> = io" using assms by simp
  then show ?thesis
    using assms
    by (auto simp: poll_execute_def drive_Break split: prod.splits poll.splits result.splits)
qed

lemma half_polled:
  assumes env: "lane_env pf L r w" and ok: "half_ok L io e"
    and run: "poll_execute pf r w (io, e) = Some (Val (x, io', e'))"
  shows "half_ok L io' e' \<and> (x = Ready (Ok ()) \<longrightarrow> state io' = Finished None) \<and>
    (state_ok io \<longrightarrow> state_ok io' \<or> (\<exists>er. x = Ready (Err er)))"
proof (cases "state_ok io")
  case True
  let ?P = "ln_probe L" and ?S = "ln_src L" and ?D = "ln_dst L" and ?T = "ln_target L"
  have "transfer_env pf ?P r w (ln_pw L) (ln_pr L)" using env by (simp add: lane_env_def)
  moreover have "io_inv ?P (ln_pw L) (ln_pr L) Off_None ?T ?S ?D io e"
    using True ok by (simp add: io_inv_def half_ok_def lane_inv_def)
  ultimately have "poll_post ?P (ln_pw L) (ln_pr L) Off_None ?T ?S ?D (Val (x, io', e'))"
    using poll_execute_partial [OF _ _ run] by blast
  then show ?thesis
    by (cases "(?P, ln_pw L, ln_pr L, Off_None, ?T, ?S, ?D, Val (x, io', e'))"
        rule: poll_post.cases)
      (auto simp: io_inv_def half_ok_def lane_inv_def)
next
  case False
  with ok have over: "state io = Finished None" by (simp add: half_ok_def)
  obtain y e1 where y: "wr_poll_shutdown w e = (y, e1)" by (cases "wr_poll_shutdown w e")
  have "io' = io" "e' = e1"
    using run by (auto simp: poll_over [OF over] y split: poll.splits result.splits)
  moreover have "same_view (ln_probe L) e e1"
    using env y by (auto simp: lane_env_def transfer_env_def dest: writer_okD(2) poll_keepsD)
  ultimately show ?thesis using False ok over by (simp add: half_ok_same_view)
qed

lemma half_poll:
  assumes env: "lane_env pf L r w" and ylds: "yields pf (ln_probe L) r w (ln_pw L) (ln_pr L) budget"
    and ok: "half_ok L io e"
  shows "\<exists>x io' e'. poll_execute pf r w (io, e) = Some (Val (x, io', e'))"
proof (cases "state_ok io")
  case True
  let ?P = "ln_probe L" and ?S = "ln_src L" and ?D = "ln_dst L" and ?T = "ln_target L"
  have "transfer_env pf ?P r w (ln_pw L) (ln_pr L)" using env by (simp add: lane_env_def)
  moreover have "io_inv ?P (ln_pw L) (ln_pr L) Off_None ?T ?S ?D io e"
    using True ok by (simp add: io_inv_def half_ok_def lane_inv_def)
  ultimately obtain out where out: "poll_execute pf r w (io, e) = Some out"
    and "poll_post ?P (ln_pw L) (ln_pr L) Off_None ?T ?S ?D out"
    using poll_execute_total [OF _ _ ylds] by blast
  then show ?thesis by (cases out) auto
next
  case False
  with ok have over: "state io = Finished None" by (simp add: half_ok_def)
  show ?thesis by (auto simp: poll_over [OF over] split: prod.splits poll.splits result.splits)
qed

section \<open>One poll of both\<close>

definition bidi_env where
  "bidi_env pf1 pf2 L1 L2 sl sr \<longleftrightarrow>
     lane_env pf1 L1 (as_reader sl) (as_writer sr) \<and>
     lane_env pf2 L2 (as_reader sr) (as_writer sl) \<and>
     apart pf1 (as_reader sl) (as_writer sr) (ln_pw L1) (ln_pr L1) (ln_probe L2) \<and>
     apart pf2 (as_reader sr) (as_writer sl) (ln_pw L2) (ln_pr L2) (ln_probe L1)"

definition bidi_ok :: "'e lane \<Rightarrow> 'e lane \<Rightarrow> ('s1, 's2) bidi_io \<Rightarrow> 'e \<Rightarrow> bool" where
  "bidi_ok L1 L2 b e \<longleftrightarrow> half_ok L1 (io_sl2sr b) e \<and> half_ok L2 (io_sr2sl b) e"

text \<open>How one poll of both is made of one poll of each, and what each leaves of the other.\<close>

lemma bidi_polled:
  assumes env: "bidi_env pf1 pf2 L1 L2 sl sr" and ok: "bidi_ok L1 L2 b e"
    and run: "bidi_poll_execute pf1 pf2 sl sr (b, e) = Some (Val (x, b', e'))"
  obtains x1 x2 e1 where
    "poll_execute pf1 (as_reader sl) (as_writer sr) (io_sl2sr b, e)
      = Some (Val (x1, io_sl2sr b', e1))"
    "poll_execute pf2 (as_reader sr) (as_writer sl) (io_sr2sl b, e1)
      = Some (Val (x2, io_sr2sl b', e'))"
    "x = bidi_join x1 x2" "bidi_ok L1 L2 b' e'" "half_ok L2 (io_sr2sl b) e1"
    "same_view (ln_probe L2) e e1" "same_view (ln_probe L1) e1 e'"
    "x1 = Ready (Ok ()) \<longrightarrow> state (io_sl2sr b') = Finished None"
    "x2 = Ready (Ok ()) \<longrightarrow> state (io_sr2sl b') = Finished None"
    "state_ok (io_sl2sr b) \<longrightarrow> state_ok (io_sl2sr b') \<or> (\<exists>er. x1 = Ready (Err er))"
    "state_ok (io_sr2sl b) \<longrightarrow> state_ok (io_sr2sl b') \<or> (\<exists>er. x2 = Ready (Err er))"
proof -
  from env have env1: "lane_env pf1 L1 (as_reader sl) (as_writer sr)"
    and env2: "lane_env pf2 L2 (as_reader sr) (as_writer sl)"
    and ap1: "apart pf1 (as_reader sl) (as_writer sr) (ln_pw L1) (ln_pr L1) (ln_probe L2)"
    and ap2: "apart pf2 (as_reader sr) (as_writer sl) (ln_pw L2) (ln_pr L2) (ln_probe L1)"
    by (simp_all only: bidi_env_def)
  from ok have ok1: "half_ok L1 (io_sl2sr b) e" and ok2: "half_ok L2 (io_sr2sl b) e"
    by (simp_all only: bidi_ok_def)
  from run obtain x1 e1 x2 where
    run1: "poll_execute pf1 (as_reader sl) (as_writer sr) (io_sl2sr b, e)
      = Some (Val (x1, io_sl2sr b', e1))"
    and run2: "poll_execute pf2 (as_reader sr) (as_writer sl) (io_sr2sl b, e1)
      = Some (Val (x2, io_sr2sl b', e'))"
    and x: "x = bidi_join x1 x2"
    by (auto simp: bidi_poll_execute_def split: option.splits comp.splits)
  have view2: "same_view (ln_probe L2) e e1"
    by (rule poll_undisturbed [OF ap1 half_ok_ends [OF ok1] run1])
  then have mid: "half_ok L2 (io_sr2sl b) e1" using ok2 by (simp add: half_ok_same_view)
  have view1: "same_view (ln_probe L1) e1 e'"
    by (rule poll_undisturbed [OF ap2 half_ok_ends [OF mid] run2])
  note polled1 = half_polled [OF env1 ok1 run1] and polled2 = half_polled [OF env2 mid run2]
  have "bidi_ok L1 L2 b' e'"
    using polled1 polled2 by (simp add: bidi_ok_def half_ok_same_view [OF view1])
  with run1 run2 x mid view2 view1 polled1 polled2 show thesis
    by (elim conjE) (rule that; assumption)
qed

lemma bidi_poll_returns:
  assumes env: "bidi_env pf1 pf2 L1 L2 sl sr"
    and ylds: "yields pf1 (ln_probe L1) (as_reader sl) (as_writer sr) (ln_pw L1) (ln_pr L1) budget1"
      "yields pf2 (ln_probe L2) (as_reader sr) (as_writer sl) (ln_pw L2) (ln_pr L2) budget2"
    and ok: "bidi_ok L1 L2 b e"
  shows "\<exists>x b' e'. bidi_poll_execute pf1 pf2 sl sr (b, e) = Some (Val (x, b', e'))"
proof -
  from env have env1: "lane_env pf1 L1 (as_reader sl) (as_writer sr)"
    and env2: "lane_env pf2 L2 (as_reader sr) (as_writer sl)"
    and ap1: "apart pf1 (as_reader sl) (as_writer sr) (ln_pw L1) (ln_pr L1) (ln_probe L2)"
    by (simp_all only: bidi_env_def)
  from ok have ok1: "half_ok L1 (io_sl2sr b) e" and ok2: "half_ok L2 (io_sr2sl b) e"
    by (simp_all only: bidi_ok_def)
  from half_poll [OF env1 ylds(1) ok1] obtain x1 io1 e1 where
    run1: "poll_execute pf1 (as_reader sl) (as_writer sr) (io_sl2sr b, e) = Some (Val (x1, io1, e1))"
    by blast
  have "half_ok L2 (io_sr2sl b) e1"
    by (simp only: ok2 half_ok_same_view [OF poll_undisturbed [OF ap1 half_ok_ends [OF ok1] run1]])
  from half_poll [OF env2 ylds(2) this] run1 show ?thesis
    by (auto simp: bidi_poll_execute_def)
qed

section \<open>Running both\<close>

definition bidi_runtime where
  "bidi_runtime pf1 pf2 L1 L2 sl sr park budget1 budget2 patience \<longleftrightarrow>
     bidi_env pf1 pf2 L1 L2 sl sr \<and>
     yields pf1 (ln_probe L1) (as_reader sl) (as_writer sr) (ln_pw L1) (ln_pr L1) budget1 \<and>
     yields pf2 (ln_probe L2) (as_reader sr) (as_writer sl) (ln_pw L2) (ln_pr L2) budget2 \<and>
     patient pf1 (as_reader sl) (as_writer sr) patience \<and>
     patient pf2 (as_reader sr) (as_writer sl) patience \<and>
     park_keeps (ln_probe L1) park \<and> park_keeps (ln_probe L2) park \<and> park_saves patience park"

lemma bidi_join_cases:
  "bidi_join x y = Ready (Ok ()) \<longleftrightarrow> x = Ready (Ok ()) \<and> y = Ready (Ok ())"
  "bidi_join x y = Pending \<longleftrightarrow> x = Pending \<or> y = Pending"
  "bidi_join x y = Ready (Err er) \<Longrightarrow> x = Ready (Err er) \<or> y = Ready (Err er)"
  by (cases "(x, y)" rule: bidi_join.cases; simp; fail)+

lemma bidi_poll_ok:
  assumes rt: "bidi_runtime pf1 pf2 L1 L2 sl sr park budget1 budget2 patience"
    and ok: "bidi_ok L1 L2 b e"
  shows "\<exists>x b' e'. bidi_poll_execute pf1 pf2 sl sr (b, e) = Some (Val (x, b', e')) \<and>
    bidi_ok L1 L2 b' e' \<and> (x = Pending \<longrightarrow> patience e' < patience e)"
proof -
  from rt have env: "bidi_env pf1 pf2 L1 L2 sl sr"
    and ylds: "yields pf1 (ln_probe L1) (as_reader sl) (as_writer sr) (ln_pw L1) (ln_pr L1) budget1"
      "yields pf2 (ln_probe L2) (as_reader sr) (as_writer sl) (ln_pw L2) (ln_pr L2) budget2"
    and pt: "patient pf1 (as_reader sl) (as_writer sr) patience"
      "patient pf2 (as_reader sr) (as_writer sl) patience"
    by (simp_all only: bidi_runtime_def)
  obtain x b' e2 where run: "bidi_poll_execute pf1 pf2 sl sr (b, e) = Some (Val (x, b', e2))"
    using bidi_poll_returns [OF env ylds ok] by blast
  obtain x1 x2 e1 where
    run1: "poll_execute pf1 (as_reader sl) (as_writer sr) (io_sl2sr b, e)
      = Some (Val (x1, io_sl2sr b', e1))"
    and run2: "poll_execute pf2 (as_reader sr) (as_writer sl) (io_sr2sl b, e1)
      = Some (Val (x2, io_sr2sl b', e2))"
    and x: "x = bidi_join x1 x2" and ok': "bidi_ok L1 L2 b' e2"
    by (rule bidi_polled [OF env ok run])
  have "x = Pending \<longrightarrow> patience e2 < patience e"
    using poll_execute_within [OF pt(1) run1] poll_execute_within [OF pt(2) run2]
    by (cases x1; cases x2; simp add: x bidi_join_cases(2))
  with run ok' show ?thesis by blast
qed

text \<open>The await loop of \<open>execute\<close>: what it keeps, what it ends with, and that it ends.\<close>

definition bidi_loop_ok where
  "bidi_loop_ok pf1 pf2 L1 L2 sl sr park budget1 budget2 patience =
     (\<lambda>(b, e). bidi_runtime pf1 pf2 L1 L2 sl sr park budget1 budget2 patience \<and> bidi_ok L1 L2 b e)"

definition bidi_done where
  "bidi_done L1 L2 out \<longleftrightarrow> (\<exists>res b e. out = Some (Val (res, b, e)) \<and> bidi_ok L1 L2 b e)"

lemma bidi_ok_same_view:
  "same_view (ln_probe L1) e e' \<Longrightarrow> same_view (ln_probe L2) e e' \<Longrightarrow> bidi_ok L1 L2 b e \<Longrightarrow>
     bidi_ok L1 L2 b e'"
  by (simp add: bidi_ok_def half_ok_same_view)

interpretation bidi_loop: loop_total
    "await_step (bidi_poll_execute pf1 pf2 sl sr) (\<lambda>(b, e). (b, park e))"
    "bidi_loop_ok pf1 pf2 L1 L2 sl sr park budget1 budget2 patience" "bidi_done L1 L2"
    "measure (\<lambda>(b, e). patience e)"
  for pf1 :: "('s1, 'e) platform" and pf2 :: "('s2, 'e) platform" and sl sr park L1 L2
    budget1 budget2 patience
proof
  fix st st' :: "('s1, 's2) bidi_io \<times> 'e"
    and out :: "(unit io_result \<times> ('s1, 's2) bidi_io \<times> 'e) comp option"
  obtain b e where st: "st = (b, e)" by (cases st)
  assume inv: "bidi_loop_ok pf1 pf2 L1 L2 sl sr park budget1 budget2 patience st"
  then have rt: "bidi_runtime pf1 pf2 L1 L2 sl sr park budget1 budget2 patience"
    and ok: "bidi_ok L1 L2 b e"
    by (simp_all add: bidi_loop_ok_def st)
  from bidi_poll_ok [OF rt ok] obtain x b' e' where
    run: "bidi_poll_execute pf1 pf2 sl sr (b, e) = Some (Val (x, b', e'))"
    and ok': "bidi_ok L1 L2 b' e'" and less: "x = Pending \<longrightarrow> patience e' < patience e"
    by blast
  from rt have view: "same_view (ln_probe L1) e' (park e')" "same_view (ln_probe L2) e' (park e')"
    and saves: "park_saves patience park"
    by (simp_all add: bidi_runtime_def park_keeps_def)
  show "bidi_loop_ok pf1 pf2 L1 L2 sl sr park budget1 budget2 patience st'"
    if "await_step (bidi_poll_execute pf1 pf2 sl sr) (\<lambda>(b, e). (b, park e)) st = Continue st'"
  proof -
    have "st' = (b', park e')"
      using that run by (cases x) (simp_all add: await_step_def st)
    then show ?thesis
      using rt bidi_ok_same_view [OF view ok'] by (simp add: bidi_loop_ok_def)
  qed
  show "(st', st) \<in> measure (\<lambda>(b, e). patience e)"
    if "await_step (bidi_poll_execute pf1 pf2 sl sr) (\<lambda>(b, e). (b, park e)) st = Continue st'"
  proof (cases x)
    case Pending
    with that run have "st' = (b', park e')" by (simp add: await_step_def st)
    then show ?thesis using park_saves_less [OF saves] less Pending by (simp add: st)
  next
    case (Ready y)
    with that run show ?thesis by (simp add: await_step_def st)
  qed
  show "bidi_done L1 L2 out"
    if "await_step (bidi_poll_execute pf1 pf2 sl sr) (\<lambda>(b, e). (b, park e)) st = Break out"
    using that run ok' by (cases x) (auto simp: await_step_def st bidi_done_def)
qed simp

section \<open>What execute reports\<close>

definition sent :: "'e lane \<Rightarrow> usize \<Rightarrow> 'e \<Rightarrow> bool" where
  "sent L n e \<longleftrightarrow>
     unat n \<le> unat (ln_target L) \<and> unat n \<le> length (ln_src L) \<and>
     v_dst (ln_probe L) None e = ln_dst L @ take (unat n) (ln_src L)"

lemma half_ok_sent: "half_ok L io e \<Longrightarrow> sent L (bytes_written (ctx io)) e"
  using written_prefix [of "ln_probe L" "ln_pw L" "ln_pr L" Off_None "ln_target L" "ln_src L"
      "ln_dst L" "ctx io" e]
  by (simp add: half_ok_def lane_inv_def sent_def)

lemma half_ok_all:
  "half_ok L io e \<Longrightarrow> is_finished (ctx io) \<Longrightarrow>
     unat (bytes_written (ctx io)) = min (unat (ln_target L)) (length (ln_src L))"
  using finished_all [of "ln_probe L" "ln_pw L" "ln_pr L" Off_None "ln_target L" "ln_src L"
      "ln_dst L" "ctx io" e]
  by (simp add: half_ok_def lane_inv_def)

text \<open>Dropping either transfer at the end does not touch what was delivered.\<close>

lemma drop_ctx_view:
  assumes ap: "apart pf r w pw pr Q" and ends: "ends_ok pw pr c"
  shows "same_view Q e (drop_ctx (pf_os pf) c e)"
proof -
  have "pipe_fill_fd (pipe c) \<in> {None, Some pw, Some pr}"
    "pipe_drain_fd (pipe c) \<in> {None, Some pw, Some pr}"
    using ends by (auto simp: ends_ok_def fill_fd_def drain_fd_def)
  then show ?thesis
    unfolding drop_ctx_def drop_pipe_def
    by (intro same_view_trans [OF apartD(3) [OF ap same_view_order(1)] apartD(3) [OF ap same_view_order(1)]])
qed

lemma sent_after_drops:
  assumes env: "bidi_env pf1 pf2 L1 L2 sl sr" and ok: "bidi_ok L1 L2 b e"
  defines "e' \<equiv> drop_ctx (pf_os pf2) (ctx (io_sr2sl b)) (drop_ctx (pf_os pf1) (ctx (io_sl2sr b)) e)"
  shows "sent L1 (bytes_written (ctx (io_sl2sr b))) e'" "sent L2 (bytes_written (ctx (io_sr2sl b))) e'"
proof -
  let ?e1 = "drop_ctx (pf_os pf1) (ctx (io_sl2sr b)) e"
  from ok have ok1: "half_ok L1 (io_sl2sr b) e" and ok2: "half_ok L2 (io_sr2sl b) e"
    by (simp_all add: bidi_ok_def)
  from env have keeps1: "close_keeps (pf_os pf1) (ln_probe L1) (ln_pw L1) (ln_pr L1)"
    and keeps2: "close_keeps (pf_os pf2) (ln_probe L2) (ln_pw L2) (ln_pr L2)"
    and ap1: "apart pf1 (as_reader sl) (as_writer sr) (ln_pw L1) (ln_pr L1) (ln_probe L2)"
    and ap2: "apart pf2 (as_reader sr) (as_writer sl) (ln_pw L2) (ln_pr L2) (ln_probe L1)"
    by (simp_all add: bidi_env_def lane_env_def transfer_env_def)
  have "v_dst (ln_probe L1) None e' = v_dst (ln_probe L1) None e"
    using drop_ctx_view [OF ap2 half_ok_ends [OF ok2], of ?e1]
      dst_drop_ctx [OF keeps1 half_ok_ends [OF ok1]]
    by (simp add: e'_def same_view_def)
  moreover have "v_dst (ln_probe L2) None e' = v_dst (ln_probe L2) None e"
    using drop_ctx_view [OF ap1 half_ok_ends [OF ok1], of e]
      dst_drop_ctx [OF keeps2 half_ok_ends [OF ok2]]
    by (simp add: e'_def same_view_def)
  ultimately show "sent L1 (bytes_written (ctx (io_sl2sr b))) e'"
    "sent L2 (bytes_written (ctx (io_sr2sl b))) e'"
    using half_ok_sent [OF ok1] half_ok_sent [OF ok2] by (simp_all add: sent_def)
qed

lemma bidi_execute_outcome:
  assumes rt: "bidi_runtime pf1 pf2 L1 L2 sl sr park budget1 budget2 patience"
    and ok: "bidi_ok L1 L2 b e"
  shows "\<exists>rep e'. bidi_execute pf1 pf2 sl sr park b e = Some (Val (rep, e')) \<and>
    sent L1 (tx rep) e' \<and> sent L2 (rx rep) e'"
proof -
  have env: "bidi_env pf1 pf2 L1 L2 sl sr" using rt by (simp add: bidi_runtime_def)
  have "bidi_loop_ok pf1 pf2 L1 L2 sl sr park budget1 budget2 patience (b, e)"
    using assms by (simp add: bidi_loop_ok_def)
  from bidi_loop.drive_total [OF this] obtain res b' e1 where
    run: "drive (await_step (bidi_poll_execute pf1 pf2 sl sr) (\<lambda>(b, e). (b, park e))) (b, e)
      = Some (Some (Val (res, b', e1)))"
    and ok': "bidi_ok L1 L2 b' e1"
    by (auto simp: bidi_done_def)
  with sent_after_drops [OF env ok'] show ?thesis
    by (auto simp: bidi_execute_unfold await_def)
qed

end
