(* ===== verification/Bidi_Entry.thy ===== *)
theory Bidi_Entry
  imports Bidi_Correct
begin

text \<open>
  \<open>copy_bidirectional\<close> (\<open>src/lib.rs\<close>): what it delivers, which descriptors it leaves open, and how
  \<open>SpliceBidiIo\<close> can lose the error of one direction.
\<close>

section \<open>Two pipes\<close>

text \<open>Making a pipe with other ends shows nothing to the probe \<open>Q\<close> of the pipe \<open>pw\<close>, \<open>pr\<close>.\<close>

definition pipe_elsewhere :: "'e os \<Rightarrow> 'e probe \<Rightarrow> fd \<Rightarrow> fd \<Rightarrow> bool" where
  "pipe_elsewhere os Q pw pr \<longleftrightarrow>
     (\<forall>fl e a b e'. sys_pipe os fl e = (Ok (a, b), e') \<longrightarrow> a \<notin> {pw, pr} \<longrightarrow> b \<notin> {pw, pr} \<longrightarrow>
        same_view Q e e')"

lemma pipe_new_elsewhere:
  assumes elsewhere: "pipe_elsewhere os Q pw pr" and starts: "pipe_starts_empty os Q pw pr"
    and new: "pipe_new os e = (Ok p, e')"
    and ends: "drain_fd p = Some a" "fill_fd p = Some b" and ne: "{a, b} \<inter> {pw, pr} = {}"
  shows "same_view Q e e'"
proof -
  from new ends obtain e1 sz where
    mk: "sys_pipe os [PIPE_NONBLOCK, PIPE_CLOEXEC] e = (Ok (a, b), e1)"
    and neg: "negotiate_size os a e1 = (Ok sz, e')"
    by (auto simp: pipe_new_def drain_fd_def fill_fd_def split: prod.splits result.splits)
  have "same_view Q e e1" using elsewhere mk ne unfolding pipe_elsewhere_def by blast
  then show ?thesis using negotiate_size_view [OF starts neg] by (rule same_view_trans)
qed

definition lane_of :: "'e probe \<Rightarrow> fd \<Rightarrow> fd \<Rightarrow> 'e \<Rightarrow> 'e lane" where
  "lane_of P pw pr e = \<lparr>ln_probe = P, ln_pw = pw, ln_pr = pr, ln_target = ISIZE_MAX,
     ln_src = v_src P None e, ln_dst = v_dst P None e\<rparr>"

lemma lane_of_simps [simp]:
  "ln_probe (lane_of P pw pr e) = P" "ln_pw (lane_of P pw pr e) = pw"
  "ln_pr (lane_of P pw pr e) = pr" "ln_target (lane_of P pw pr e) = ISIZE_MAX"
  "ln_src (lane_of P pw pr e) = v_src P None e" "ln_dst (lane_of P pw pr e) = v_dst P None e"
  by (simp_all add: lane_of_def)

lemma half_ok_fresh:
  assumes ends: "drain_fd p = Some pr" "fill_fd p = Some pw" and empty: "v_buf P e1 = []"
    and same: "v_src P None e1 = v_src P None e" "v_dst P None e1 = v_dst P None e"
  shows "half_ok (lane_of P pw pr e) (io_from (new_ctx Live p)) e1"
proof -
  have "io_inv P pw pr Off_None ISIZE_MAX (v_src P (off_in Off_None) e1)
      (v_dst P (off_out Off_None) e1) (io_from (new_ctx Live p)) e1"
    by (rule io_inv_fresh)
      (simp_all add: new_ctx_def rust_defs ends [unfolded rust_defs] empty)
  then show "half_ok (lane_of P pw pr e) (io_from (new_ctx Live p)) e1"
    using same by (simp add: half_ok_def lane_inv_def io_inv_def io_from_def)
qed

text \<open>The two transfers \<open>copy_bidirectional\<close> sets up on two new pipes.\<close>

lemma bidi_ok_fresh:
  assumes new1: "pipe_new os e = (Ok p1, e1)" "drain_fd p1 = Some pr1" "fill_fd p1 = Some pw1"
    and new2: "pipe_new os e1 = (Ok p2, e2)" "drain_fd p2 = Some pr2" "fill_fd p2 = Some pw2"
    and ne: "{pr1, pw1} \<inter> {pr2, pw2} = {}"
    and starts: "pipe_starts_empty os P1 pw1 pr1" "pipe_starts_empty os P2 pw2 pr2"
    and elsewhere: "pipe_elsewhere os P1 pw1 pr1" "pipe_elsewhere os P2 pw2 pr2"
  shows "bidi_ok (lane_of P1 pw1 pr1 e) (lane_of P2 pw2 pr2 e)
    \<lparr>io_sl2sr = io_from (new_ctx Live p1), io_sr2sl = io_from (new_ctx Live p2)\<rparr> e2"
proof -
  have view1: "same_view P1 e1 e2"
    using pipe_new_elsewhere [OF elsewhere(1) starts(1) new2] ne by blast
  have view2: "same_view P2 e e1"
    using pipe_new_elsewhere [OF elsewhere(2) starts(2) new1] ne by blast
  note empty1 = pipe_new_empty [OF starts(1) new1(1), folded drain_fd_def fill_fd_def, OF new1(2,3)]
  note empty2 = pipe_new_empty [OF starts(2) new2(1), folded drain_fd_def fill_fd_def, OF new2(2,3)]
  have "half_ok (lane_of P1 pw1 pr1 e) (io_from (new_ctx Live p1)) e2"
    using half_ok_fresh [OF new1(2,3), of P1 e2 e] view1 empty1 by (simp add: same_view_def)
  moreover have "half_ok (lane_of P2 pw2 pr2 e) (io_from (new_ctx Live p2)) e2"
    using half_ok_fresh [OF new2(2,3), of P2 e2 e] view2 empty2 by (simp add: same_view_def)
  ultimately show ?thesis by (simp add: bidi_ok_def)
qed

text \<open>\<open>copy_bidirectional\<close> on two new pipes.\<close>

lemma copy_bidirectional_outcome:
  fixes sl sr :: "(live, live, 'e) endpoint"
  assumes rt: "bidi_runtime (live_platform prof os) (live_platform prof os)
      (lane_of P1 pw1 pr1 e) (lane_of P2 pw2 pr2 e) sl sr park budget1 budget2 patience"
    and new1: "pipe_new os e = (Ok p1, e1)" "drain_fd p1 = Some pr1" "fill_fd p1 = Some pw1"
    and new2: "pipe_new os e1 = (Ok p2, e2)" "drain_fd p2 = Some pr2" "fill_fd p2 = Some pw2"
    and ne: "{pr1, pw1} \<inter> {pr2, pw2} = {}"
    and starts: "pipe_starts_empty os P1 pw1 pr1" "pipe_starts_empty os P2 pw2 pr2"
    and elsewhere: "pipe_elsewhere os P1 pw1 pr1" "pipe_elsewhere os P2 pw2 pr2"
  shows "\<exists>rep e'. copy_bidirectional prof os sl sr park e = Some (Val (Ok rep, e')) \<and>
    sent (lane_of P1 pw1 pr1 e) (tx rep) e' \<and> sent (lane_of P2 pw2 pr2 e) (rx rep) e'"
proof -
  let ?b = "\<lparr>io_sl2sr = io_from (new_ctx Live p1), io_sr2sl = io_from (new_ctx Live p2)\<rparr>"
  have ok: "bidi_ok (lane_of P1 pw1 pr1 e) (lane_of P2 pw2 pr2 e) ?b e2"
    by (rule bidi_ok_fresh [OF new1 new2 ne starts elsewhere])
  from bidi_execute_outcome [OF rt ok] show ?thesis
    by (auto simp: copy_bidirectional_def ctx_new_def ctx_new_inner_def new1(1) new2(1))
qed

section \<open>Descriptors\<close>

text \<open>Each direction accounts for its own ends; the other's belong to the rest.\<close>

definition bidi_accounted where
  "bidi_accounted pf1 pf2 sl sr park opened base b e \<longleftrightarrow>
     accounts pf1 (as_reader sl) (as_writer sr) park opened \<and>
     accounts pf2 (as_reader sr) (as_writer sl) park opened \<and>
     owns_apart opened (base \<union> pipe_fds (pipe (ctx (io_sr2sl b)))) (pipe (ctx (io_sl2sr b))) e \<and>
     owns_apart opened (base \<union> pipe_fds (pipe (ctx (io_sl2sr b)))) (pipe (ctx (io_sr2sl b))) e \<and>
     pipe_fds (pipe (ctx (io_sl2sr b))) \<inter> base = {} \<and>
     pipe_fds (pipe (ctx (io_sr2sl b))) \<inter> base = {}"

lemma owns_apart_swap:
  assumes "owns_apart opened (base \<union> pipe_fds q) p e" "owns_apart opened (base \<union> pipe_fds p0) q e0"
  shows "owns_apart opened (base \<union> pipe_fds p) q e"
  using assms by (auto simp: owns_apart_def)

lemma bidi_poll_accounted:
  assumes acc: "bidi_accounted pf1 pf2 sl sr park opened base b e"
    and run: "bidi_poll_execute pf1 pf2 sl sr (b, e) = Some (Val (x, b', e'))"
  shows "bidi_accounted pf1 pf2 sl sr park opened base b' e'"
proof -
  from run obtain x1 io1 e1 x2 io2 where
    run1: "poll_execute pf1 (as_reader sl) (as_writer sr) (io_sl2sr b, e) = Some (Val (x1, io1, e1))"
    and run2: "poll_execute pf2 (as_reader sr) (as_writer sl) (io_sr2sl b, e1)
      = Some (Val (x2, io2, e'))"
    and b': "b' = \<lparr>io_sl2sr = io1, io_sr2sl = io2\<rparr>"
    by (auto simp: bidi_poll_execute_def split: option.splits comp.splits)
  let ?p1 = "pipe (ctx (io_sl2sr b))" and ?p2 = "pipe (ctx (io_sr2sl b))"
  from acc have a1: "accounts pf1 (as_reader sl) (as_writer sr) park opened"
    and a2: "accounts pf2 (as_reader sr) (as_writer sl) park opened"
    and o1: "owns_apart opened (base \<union> pipe_fds ?p2) ?p1 e"
    and o2: "owns_apart opened (base \<union> pipe_fds ?p1) ?p2 e"
    and d: "pipe_fds ?p1 \<inter> base = {}" "pipe_fds ?p2 \<inter> base = {}"
    by (simp_all only: bidi_accounted_def)
  have "accounted pf1 (as_reader sl) (as_writer sr) park opened (base \<union> pipe_fds ?p2)
      (ctx (io_sl2sr b)) e"
    using a1 o1 by (simp add: accounted_def)
  from account.poll_kept [OF this run1]
  have o1': "owns_apart opened (base \<union> pipe_fds ?p2) (pipe (ctx io1)) e1"
    by (simp add: accounted_def)
  have "accounted pf2 (as_reader sr) (as_writer sl) park opened (base \<union> pipe_fds (pipe (ctx io1)))
      (ctx (io_sr2sl b)) e1"
    using a2 owns_apart_swap [OF o1' o2] by (simp add: accounted_def)
  from account.poll_kept [OF this run2]
  have o2': "owns_apart opened (base \<union> pipe_fds (pipe (ctx io1))) (pipe (ctx io2)) e'"
    by (simp add: accounted_def)
  have "owns_apart opened (base \<union> pipe_fds (pipe (ctx io2))) (pipe (ctx io1)) e'"
    by (rule owns_apart_swap [OF o2' o1'])
  with a1 a2 o2' show ?thesis
    by (auto simp: bidi_accounted_def b' owns_apart_def)
qed

lemma bidi_park_accounted:
  assumes "bidi_accounted pf1 pf2 sl sr park opened base b e"
  shows "bidi_accounted pf1 pf2 sl sr park opened base b (park e)"
proof -
  have "opened (park e) = opened e" using assms by (simp add: bidi_accounted_def accounts_def)
  from owns_apart_same [where opened = opened, OF this] assms show ?thesis
    unfolding bidi_accounted_def by (simp only:)
qed

interpretation bidi_account: future_inv "bidi_poll_execute pf1 pf2 sl sr"
    "\<lambda>(b, e). (b, park e)" "\<lambda>(b, e). bidi_accounted pf1 pf2 sl sr park opened base b e"
  for pf1 :: "('s1, 'e) platform" and pf2 :: "('s2, 'e) platform" and sl sr park opened base
  by unfold_locales (auto intro: bidi_poll_accounted bidi_park_accounted)

lemma bidi_drops_accounted:
  assumes acc: "bidi_accounted pf1 pf2 sl sr park opened base b e"
  shows "opened (drop_ctx (pf_os pf2) (ctx (io_sr2sl b)) (drop_ctx (pf_os pf1) (ctx (io_sl2sr b)) e))
    = base"
proof -
  from acc have "fd_laws (pf_os pf1) opened" "fd_laws (pf_os pf2) opened"
    by (simp_all add: bidi_accounted_def accounts_def)
  with acc show ?thesis
    by (auto simp: drop_ctx_def opened_drop_pipe bidi_accounted_def owns_apart_def)
qed

lemma bidi_execute_accounted:
  assumes acc: "bidi_accounted pf1 pf2 sl sr park opened base b e"
    and run: "bidi_execute pf1 pf2 sl sr park b e = Some (Val (rep, e'))"
  shows "opened e' = base"
proof -
  from run obtain res b1 e1 where
    d: "drive (await_step (bidi_poll_execute pf1 pf2 sl sr) (\<lambda>(b, e). (b, park e))) (b, e)
      = Some (Some (Val (res, b1, e1)))"
    and e': "e' = drop_ctx (pf_os pf2) (ctx (io_sr2sl b1)) (drop_ctx (pf_os pf1) (ctx (io_sl2sr b1)) e1)"
    by (auto simp: bidi_execute_unfold await_def bind_eq_Some_conv bind_comp_Val_iff)
  have "bidi_accounted pf1 pf2 sl sr park opened base b1 e1"
    using bidi_account.awaited.drive_post [where opened = opened and base = base, OF d] acc by simp
  then show ?thesis unfolding e' by (rule bidi_drops_accounted)
qed

lemma fresh_bidi_accounted:
  assumes acc1: "accounts (live_platform prof os) (as_reader sl) (as_writer sr) park opened"
    and acc2: "accounts (live_platform prof os) (as_reader sr) (as_writer sl) park opened"
    and new1: "pipe_new os e = (Ok p1, e1)" and new2: "pipe_new os e1 = (Ok p2, e2)"
  shows "bidi_accounted (live_platform prof os) (live_platform prof os) sl sr park opened (opened e)
    \<lparr>io_sl2sr = io_from (new_ctx Live p1), io_sr2sl = io_from (new_ctx Live p2)\<rparr> e2"
proof -
  have laws: "fd_laws os opened" using acc1 by (simp add: accounts_def)
  from acc1 acc2 pipe_new_owns [OF laws new1] pipe_new_owns [OF laws new2] show ?thesis
    by (auto simp: bidi_accounted_def owns_apart_def io_from_def new_ctx_def)
qed

lemma copy_bidirectional_accounted:
  assumes acc1: "accounts (live_platform prof os) (as_reader sl) (as_writer sr) park opened"
    and acc2: "accounts (live_platform prof os) (as_reader sr) (as_writer sl) park opened"
    and run: "copy_bidirectional prof os sl sr park e = Some (Val (res, e'))"
  shows "opened e' = opened e"
proof -
  have laws: "fd_laws os opened" using acc1 by (simp add: accounts_def)
  obtain x1 e1 where new1: "pipe_new os e = (x1, e1)" by (cases "pipe_new os e")
  show ?thesis
  proof (cases x1)
    case (Err er)
    then show ?thesis
      using run new1 pipe_new_opened_Err [OF laws]
      by (simp add: copy_bidirectional_def ctx_new_def ctx_new_inner_def)
  next
    case (Ok p1)
    note own1 = pipe_new_owns [OF laws new1 [unfolded Ok]]
    obtain x2 e2 where new2: "pipe_new os e1 = (x2, e2)" by (cases "pipe_new os e1")
    show ?thesis
    proof (cases x2)
      case (Err er)
      have "e' = drop_pipe os p1 e2"
        using run new1 Ok new2 Err
        by (simp add: copy_bidirectional_def ctx_new_def ctx_new_inner_def drop_ctx_def new_ctx_def)
      moreover have "opened e2 = opened e1" by (rule pipe_new_opened_Err [OF laws new2 [unfolded Err]])
      ultimately show ?thesis
        using own1 by (auto simp: opened_drop_pipe [OF laws] owns_apart_def)
    next
      case ok2: (Ok p2)
      let ?b = "\<lparr>io_sl2sr = io_from (new_ctx Live p1), io_sr2sl = io_from (new_ctx Live p2)\<rparr>"
      have "bidi_accounted (live_platform prof os) (live_platform prof os) sl sr park opened
          (opened e) ?b e2"
        by (rule fresh_bidi_accounted [OF acc1 acc2 new1 [unfolded Ok] new2 [unfolded ok2]])
      moreover obtain rep where
        "bidi_execute (live_platform prof os) (live_platform prof os) sl sr park ?b e2
          = Some (Val (rep, e'))"
        using run new1 Ok new2 ok2
        by (auto simp: copy_bidirectional_def ctx_new_def ctx_new_inner_def bind_comp_Val_iff)
      ultimately show ?thesis by (rule bidi_execute_accounted)
    qed
  qed
qed

section \<open>A lost error\<close>

text \<open>
  When one direction reports its error in a poll in which the other is still pending, the joint
  poll is pending and the error, already taken out of the state, is gone: the next poll of that
  direction reports success.
\<close>

lemma bidi_error_lost:
  assumes first: "poll_execute pf1 (as_reader sl) (as_writer sr) (io_sl2sr b, e)
      = Some (Val (Ready (Err er), io1, e1))"
    and taken: "state io1 = Finished None"
    and waiting: "poll_execute pf2 (as_reader sr) (as_writer sl) (io_sr2sl b, e1)
      = Some (Val (Pending, io2, e2))"
    and again: "wr_poll_shutdown (as_writer sr) (park e2) = (Ready (Ok ()), e3)"
    and done2: "poll_execute pf2 (as_reader sr) (as_writer sl) (io2, e3)
      = Some (Val (Ready (Ok ()), io2', e4))"
  shows "\<exists>rep e'. bidi_execute pf1 pf2 sl sr park b e = Some (Val (rep, e')) \<and>
    report_error rep = None"
proof -
  let ?poll = "bidi_poll_execute pf1 pf2 sl sr" and ?park = "\<lambda>(b, e). (b, park e)"
  have "?poll (b, e) = Some (Val (Pending, \<lparr>io_sl2sr = io1, io_sr2sl = io2\<rparr>, e2))"
    by (simp add: bidi_poll_execute_def first waiting)
  then have "await ?poll ?park (b, e) = await ?poll ?park (?park (\<lparr>io_sl2sr = io1, io_sr2sl = io2\<rparr>, e2))"
    by (rule await_Pending)
  moreover have "?poll (\<lparr>io_sl2sr = io1, io_sr2sl = io2\<rparr>, park e2)
      = Some (Val (Ready (Ok ()), \<lparr>io_sl2sr = io1, io_sr2sl = io2'\<rparr>, e4))"
    using done2 by (simp add: bidi_poll_execute_def poll_over [OF taken] again)
  then have "await ?poll ?park (\<lparr>io_sl2sr = io1, io_sr2sl = io2\<rparr>, park e2)
      = Some (Val (Ok (), \<lparr>io_sl2sr = io1, io_sr2sl = io2'\<rparr>, e4))"
    by (rule await_Ready)
  ultimately show ?thesis by (simp add: bidi_execute_unfold)
qed

end
