(* ===== verification/Health.thy ===== *)
theory Health
  imports Bidi_Entry
begin

text \<open>
  Transfers in which nothing fails: surroundings in which no call of a transfer has a reason to fail,
  as long as the descriptors are open and a socket is not written to after it was shut down.  Then
  \<open>copy\<close> and \<open>copy_bidirectional\<close> report no error and deliver everything.
\<close>

section \<open>Surroundings in which nothing fails\<close>

text \<open>
  \<open>sound\<close> says that no peer resets, no signal interrupts and no resource runs out from here on;
  \<open>unshut\<close> that the destination is not shut down for writing.  Under both, with the descriptors open
  and the pipe in step with the counters, readiness does not fail and an attempt fails only because
  it would block.  A closed descriptor or a destination that was shut down may fail as documented.
  Everything a direction does keeps \<open>sound\<close>, and everything but its shutdown keeps \<open>unshut\<close>.
\<close>

definition never_shut :: "('s, 'e) writer \<Rightarrow> ('s, 'e) writer" where
  "never_shut w = w\<lparr>wr_poll_shutdown := (\<lambda>e. (Pending, e))\<rparr>"

definition kept_by :: "('e \<Rightarrow> bool) \<Rightarrow> 'e \<Rightarrow> 'e \<Rightarrow> bool" where
  "kept_by p e e' \<longleftrightarrow> (p e \<longrightarrow> p e')"

definition blocks_at_most :: "(splice_outcome io_result \<times> 's splice_ctx \<times> 'e) comp \<Rightarrow> bool" where
  "blocks_at_most out \<longleftrightarrow> (\<forall>er c e. out = Val (Err er, c, e) \<longrightarrow> would_block er)"

definition healthy ::
    "('s, 'e) platform \<Rightarrow> 'e probe \<Rightarrow> ('s, 'e) reader \<Rightarrow> ('s, 'e) writer \<Rightarrow> fd \<Rightarrow> fd \<Rightarrow> ('e \<Rightarrow> 'e)
      \<Rightarrow> ('e \<Rightarrow> fd set) \<Rightarrow> ('e \<Rightarrow> bool) \<Rightarrow> ('e \<Rightarrow> bool) \<Rightarrow> bool" where
  "healthy pf P r w pw pr park opened sound unshut \<longleftrightarrow>
     accounts pf r w park opened \<and>
     (\<forall>e er e'. sound e \<longrightarrow> {rd_fd r, wr_fd w} \<subseteq> opened e \<longrightarrow>
        wr_poll_shutdown w e \<noteq> (Ready (Err er), e') \<and>
        (unshut e \<longrightarrow> rd_poll_ready r e \<noteq> (Ready (Err er), e') \<and>
                      wr_poll_ready w e \<noteq> (Ready (Err er), e'))) \<and>
     (\<forall>c e. sound e \<longrightarrow> unshut e \<longrightarrow> in_step P pw pr c e \<longrightarrow> offset c = Off_None \<longrightarrow>
        {rd_fd r, wr_fd w} \<union> pipe_fds (pipe c) \<subseteq> opened e \<longrightarrow>
        blocks_at_most (rd_try_io r (try_splice_from_source pf (rd_fd r)) c e) \<and>
        blocks_at_most (wr_try_io w (try_splice_to_dest pf (wr_fd w)) c e)) \<and>
     calm pf r w pw pr (kept_by sound) \<and> calm pf r (never_shut w) pw pr (kept_by unshut) \<and>
     (\<forall>e. kept_by sound e (park e)) \<and> (\<forall>e. kept_by unshut e (park e))"

lemma healthyD:
  assumes "healthy pf P r w pw pr park opened sound unshut"
  shows "accounts pf r w park opened"
    and "sound e \<Longrightarrow> {rd_fd r, wr_fd w} \<subseteq> opened e \<Longrightarrow> wr_poll_shutdown w e \<noteq> (Ready (Err er), e')"
    and "sound e \<Longrightarrow> unshut e \<Longrightarrow> {rd_fd r, wr_fd w} \<subseteq> opened e \<Longrightarrow>
      rd_poll_ready r e \<noteq> (Ready (Err er), e')"
    and "sound e \<Longrightarrow> unshut e \<Longrightarrow> {rd_fd r, wr_fd w} \<subseteq> opened e \<Longrightarrow>
      wr_poll_ready w e \<noteq> (Ready (Err er), e')"
    and "sound e \<Longrightarrow> unshut e \<Longrightarrow> in_step P pw pr c e \<Longrightarrow> offset c = Off_None \<Longrightarrow>
      {rd_fd r, wr_fd w} \<union> pipe_fds (pipe c) \<subseteq> opened e \<Longrightarrow>
      blocks_at_most (rd_try_io r (try_splice_from_source pf (rd_fd r)) c e)"
    and "sound e \<Longrightarrow> unshut e \<Longrightarrow> in_step P pw pr c e \<Longrightarrow> offset c = Off_None \<Longrightarrow>
      {rd_fd r, wr_fd w} \<union> pipe_fds (pipe c) \<subseteq> opened e \<Longrightarrow>
      blocks_at_most (wr_try_io w (try_splice_to_dest pf (wr_fd w)) c e)"
    and "calm pf r w pw pr (kept_by sound)" "calm pf r (never_shut w) pw pr (kept_by unshut)"
    and "sound e \<Longrightarrow> sound (park e)" "unshut e \<Longrightarrow> unshut (park e)"
  using assms unfolding healthy_def kept_by_def by simp_all

lemma kept_by_order: "reflp (kept_by p)" "transp (kept_by p)"
  by (auto simp: kept_by_def intro: reflpI transpI)

text \<open>What every operation respects, one round respects.\<close>

lemma calm_step:
  assumes "calm pf r w pw pr R" "reflp R" "transp R" and "ends_ok pw pr (ctx io)"
  shows "poll_step pf r w (io, e) = Continue (io', e') \<Longrightarrow> R e e'"
    and "poll_step pf r w (io, e) = Break (Val (x, io', e')) \<Longrightarrow> R e e'"
proof -
  have J: "undisturbed pf r w pw pr R e (ctx io) e" using assms by (simp add: undisturbed_def reflpD)
  show "R e e'" if "poll_step pf r w (io, e) = Continue (io', e')"
    using others.step_kept(1) [OF J that] by (simp add: undisturbed_def)
  show "R e e'" if "poll_step pf r w (io, e) = Break (Val (x, io', e'))"
    using others.step_kept(2) [OF J that] by (simp add: undisturbed_def)
qed

lemma never_shut_simps:
  "wr_fd (never_shut w) = wr_fd w" "wr_poll_ready (never_shut w) = wr_poll_ready w"
  "wr_try_io (never_shut w) = wr_try_io w"
  by (simp_all add: never_shut_def)

lemma never_shut_step:
  "\<forall>error. state io \<noteq> Finished error \<Longrightarrow> poll_step pf r (never_shut w) (io, e) = poll_step pf r w (io, e)"
  unfolding poll_step.simps never_shut_simps by (simp split: transfer_state.splits)

section \<open>One direction\<close>

text \<open>
  A direction in which nothing has failed, in such surroundings: its two descriptors are in \<open>base\<close>,
  which stays open whatever happens to the pipe.
\<close>

definition well ::
    "('s, 'e) platform \<Rightarrow> 'e lane \<Rightarrow> ('s, 'e) reader \<Rightarrow> ('s, 'e) writer \<Rightarrow> ('e \<Rightarrow> 'e)
      \<Rightarrow> ('e \<Rightarrow> fd set) \<Rightarrow> ('e \<Rightarrow> bool) \<Rightarrow> ('e \<Rightarrow> bool) \<Rightarrow> fd set \<Rightarrow> 's splice_io \<Rightarrow> 'e \<Rightarrow> bool" where
  "well pf L r w park opened sound unshut base io e \<longleftrightarrow>
     lane_env pf L r w \<and>
     healthy pf (ln_probe L) r w (ln_pw L) (ln_pr L) park opened sound unshut \<and>
     lane_inv L (ctx io) e \<and> state_ok io \<and> (\<forall>er. state io \<noteq> Finished (Some er)) \<and>
     sound e \<and> (unshut e \<or> state io = Finished None) \<and>
     owns_apart opened base (pipe (ctx io)) e \<and> {rd_fd r, wr_fd w} \<subseteq> base"

lemma wellD:
  assumes "well pf L r w park opened sound unshut base io e"
  shows "lane_env pf L r w"
    and "healthy pf (ln_probe L) r w (ln_pw L) (ln_pr L) park opened sound unshut"
    and "loop_state_ok pf (ln_probe L) r w (ln_pw L) (ln_pr L) Off_None (ln_target L) (ln_src L)
      (ln_dst L) (io, e)"
    and "accounted pf r w park opened base (ctx io) e"
    and "sound e" "state io \<noteq> Finished (Some er)" "state io \<noteq> Finished None \<Longrightarrow> unshut e"
    and "{rd_fd r, wr_fd w} \<union> pipe_fds (pipe (ctx io)) \<subseteq> opened e"
    and "offset (ctx io) = Off_None" "ends_ok (ln_pw L) (ln_pr L) (ctx io)"
proof -
  note parts = assms [unfolded well_def]
  show env: "lane_env pf L r w" and h: "healthy pf (ln_probe L) r w (ln_pw L) (ln_pr L) park opened
      sound unshut"
    and "sound e" "state io \<noteq> Finished (Some er)" "state io \<noteq> Finished None \<Longrightarrow> unshut e"
    using parts by blast+
  show "loop_state_ok pf (ln_probe L) r w (ln_pw L) (ln_pr L) Off_None (ln_target L) (ln_src L)
      (ln_dst L) (io, e)"
    using parts by (simp add: lane_env_def lane_inv_def io_inv_def)
  show "accounted pf r w park opened base (ctx io) e"
    using parts healthyD(1) [OF h] by (simp add: accounted_def)
  show "{rd_fd r, wr_fd w} \<union> pipe_fds (pipe (ctx io)) \<subseteq> opened e"
    using parts by (auto simp: owns_apart_def)
  from parts have "lane_inv L (ctx io) e" by blast
  then show "offset (ctx io) = Off_None" "ends_ok (ln_pw L) (ln_pr L) (ctx io)"
    unfolding lane_inv_def by (auto simp: ctx_inv_def)
qed

text \<open>What \<open>well\<close> needs of a step that the state machine, the accounts and \<open>calm\<close> do not give.\<close>

lemma well_next:
  assumes well: "well pf L r w park opened sound unshut base io e"
    and "loop_state_ok pf (ln_probe L) r w (ln_pw L) (ln_pr L) Off_None (ln_target L) (ln_src L)
      (ln_dst L) (io', e')"
    and "accounted pf r w park opened base (ctx io') e'" and "kept_by sound e e'"
    and "state io' \<noteq> Finished None \<Longrightarrow> state io \<noteq> Finished None \<and> kept_by unshut e e'"
    and "\<And>er. state io' \<noteq> Finished (Some er)"
  shows "well pf L r w park opened sound unshut base io' e'"
  using assms well [unfolded well_def]
  by (auto simp: well_def lane_inv_def io_inv_def accounted_def kept_by_def)

text \<open>Polling readiness (and, at the end, the shutdown) leaves a direction well, and does not fail.\<close>

lemma well_polled:
  assumes well: "well pf L r w park opened sound unshut base io e"
  shows "state io \<noteq> Finished None \<Longrightarrow> rd_poll_ready r e = (x, e1) \<Longrightarrow>
      well pf L r w park opened sound unshut base io e1 \<and> x \<noteq> Ready (Err er)"
    and "state io \<noteq> Finished None \<Longrightarrow> wr_poll_ready w e = (x, e1) \<Longrightarrow>
      well pf L r w park opened sound unshut base io e1 \<and> x \<noteq> Ready (Err er)"
    and "state io = Finished None \<Longrightarrow> wr_poll_shutdown w e = (x, e1) \<Longrightarrow>
      well pf L r w park opened sound unshut base io e1 \<and> x \<noteq> Ready (Err er)"
proof -
  note fine = wellD [OF well] and h = healthyD [OF wellD(2) [OF well]]
  have fds: "{rd_fd r, wr_fd w} \<subseteq> opened e" using fine(8) by blast
  have view: "reader_ok (same_view (ln_probe L)) r" "writer_ok (same_view (ln_probe L)) w"
    using fine(1) by (simp_all add: lane_env_def transfer_env_def)
  have same: "loop_state_ok pf (ln_probe L) r w (ln_pw L) (ln_pr L) Off_None (ln_target L) (ln_src L)
      (ln_dst L) (io, e1)" if "same_view (ln_probe L) e e1"
    using fine(3) by (simp add: io_inv_same_view [OF that])
  note onward = well_next [OF well same _ _ _ fine(6)]
  show "well pf L r w park opened sound unshut base io e1 \<and> x \<noteq> Ready (Err er)"
    if st: "state io \<noteq> Finished None" and poll: "rd_poll_ready r e = (x, e1)"
  proof
    show "x \<noteq> Ready (Err er)" using h(3) [OF fine(5) fine(7) [OF st] fds] poll by auto
    show "well pf L r w park opened sound unshut base io e1"
      by (rule onward [OF poll_keepsD [OF reader_okD(1) [OF view(1)] poll]
            account.polled_kept(1) [OF fine(4) poll]
            poll_keepsD [OF reader_okD(1) [OF calmD(4) [OF h(7)]] poll]])
        (use st poll_keepsD [OF reader_okD(1) [OF calmD(4) [OF h(8)]] poll] in blast)
  qed
  show "well pf L r w park opened sound unshut base io e1 \<and> x \<noteq> Ready (Err er)"
    if st: "state io \<noteq> Finished None" and poll: "wr_poll_ready w e = (x, e1)"
  proof
    show "x \<noteq> Ready (Err er)" using h(4) [OF fine(5) fine(7) [OF st] fds] poll by auto
    show "well pf L r w park opened sound unshut base io e1"
      by (rule onward [OF poll_keepsD [OF writer_okD(1) [OF view(2)] poll]
            account.polled_kept(2) [OF fine(4) poll]
            poll_keepsD [OF writer_okD(1) [OF calmD(5) [OF h(7)]] poll]])
        (use st poll_keepsD [OF writer_okD(1) [OF calmD(5) [OF h(8)], unfolded never_shut_simps] poll]
          in blast)
  qed
  show "well pf L r w park opened sound unshut base io e1 \<and> x \<noteq> Ready (Err er)"
    if st: "state io = Finished None" and poll: "wr_poll_shutdown w e = (x, e1)"
  proof
    show "x \<noteq> Ready (Err er)" using h(2) [OF fine(5) fds] poll by auto
    show "well pf L r w park opened sound unshut base io e1"
      by (rule onward [OF poll_keepsD [OF writer_okD(2) [OF view(2)] poll]
            account.polled_kept(3) [OF fine(4) poll]
            poll_keepsD [OF writer_okD(2) [OF calmD(5) [OF h(7)]] poll]])
        (use st in simp)
  qed
qed

lemma after_healthy:
  assumes "blocks_at_most (Val (res, c', e'))"
  shows "after_fill res c' \<noteq> Val (Finished (Some er))" "after_drain res c' \<noteq> Finished (Some er)"
  using assms
  by (auto simp: blocks_at_most_def after_fill_def after_drain_def finished_def
      split: result.splits splice_outcome.splits if_splits)

lemma well_attempt:
  assumes well: "well pf L r w park opened sound unshut base io e" and st: "state io \<noteq> Finished None"
  shows "blocks_at_most (rd_try_io r (try_splice_from_source pf (rd_fd r)) (ctx io) e)"
    and "blocks_at_most (wr_try_io w (try_splice_to_dest pf (wr_fd w)) (ctx io) e)"
proof -
  note fine = wellD [OF well] and h = healthyD [OF wellD(2) [OF well]]
  have "in_step (ln_probe L) (ln_pw L) (ln_pr L) (ctx io) e"
    using fine(3) by (auto intro: io_inv_in_step)
  then show "blocks_at_most (rd_try_io r (try_splice_from_source pf (rd_fd r)) (ctx io) e)"
    "blocks_at_most (wr_try_io w (try_splice_to_dest pf (wr_fd w)) (ctx io) e)"
    using fine(5,8,9) fine(7) [OF st] by (auto intro: h(5,6))
qed

text \<open>One round.\<close>

lemma well_no_fault:
  assumes well: "well pf L r w park opened sound unshut base io e"
    and step: "poll_step pf r w (io, e) = Continue (io', e')"
  shows "state io' \<noteq> Finished (Some er)" and "state io \<noteq> Finished error"
proof -
  show going: "state io \<noteq> Finished error" for error
    using step by (auto split: prod.splits poll.splits result.splits)
  show "state io' \<noteq> Finished (Some er)"
  proof (cases "state io")
    case Fill
    then obtain e1 res c' nxt where poll: "rd_poll_ready r e = (Ready (Ok ()), e1)"
      and run: "rd_try_io r (try_splice_from_source pf (rd_fd r)) (ctx io) e1 = Val (res, c', e')"
      and nxt: "after_fill res c' = Val nxt" "io' = io\<lparr>ctx := c', state := nxt\<rparr>"
      using step by (auto split: prod.splits poll.splits result.splits comp.splits)
    have "well pf L r w park opened sound unshut base io e1"
      using well_polled(1) [OF well going poll] by blast
    from after_healthy(1) [OF well_attempt(1) [OF this going, unfolded run]] nxt show ?thesis by auto
  next
    case Drain
    then obtain e1 res c' where poll: "wr_poll_ready w e = (Ready (Ok ()), e1)"
      and run: "wr_try_io w (try_splice_to_dest pf (wr_fd w)) (ctx io) e1 = Val (res, c', e')"
      and nxt: "io' = io\<lparr>ctx := c', state := after_drain res c'\<rparr>"
      using step by (auto split: prod.splits poll.splits result.splits comp.splits)
    have "well pf L r w park opened sound unshut base io e1"
      using well_polled(2) [OF well going poll] by blast
    from after_healthy(2) [OF well_attempt(2) [OF this going, unfolded run]] nxt show ?thesis by simp
  qed (use going in blast)
qed

lemma well_continues:
  assumes well: "well pf L r w park opened sound unshut base io e"
    and step: "poll_step pf r w (io, e) = Continue (io', e')"
  shows "well pf L r w park opened sound unshut base io' e'"
proof -
  note fine = wellD [OF well] and h = healthyD [OF wellD(2) [OF well]]
  note going = well_no_fault(2) [OF well step]
  have step2: "poll_step pf r (never_shut w) (io, e) = Continue (io', e')"
    using step going by (simp add: never_shut_step del: poll_step.simps)
  show ?thesis
  proof (rule well_next [OF well poll_loop.continue_inv [OF fine(3) step]
        account.step_kept(1) [OF fine(4) step]
        calm_step(1) [OF h(7) kept_by_order fine(10) step]])
    show "state io \<noteq> Finished None \<and> kept_by unshut e e'"
      using going calm_step(1) [OF h(8) kept_by_order fine(10) step2] by blast
  qed (rule well_no_fault(1) [OF well step])
qed

text \<open>What a poll of such a direction gives: no panic, no error, and the same surroundings.\<close>

fun well_out ::
    "('s, 'e) platform \<Rightarrow> 'e lane \<Rightarrow> ('s, 'e) reader \<Rightarrow> ('s, 'e) writer \<Rightarrow> ('e \<Rightarrow> 'e)
      \<Rightarrow> ('e \<Rightarrow> fd set) \<Rightarrow> ('e \<Rightarrow> bool) \<Rightarrow> ('e \<Rightarrow> bool) \<Rightarrow> fd set \<Rightarrow> ('s, 'e) poll_out \<Rightarrow> bool" where
  "well_out pf L r w park opened sound unshut base (Val (x, io, e)) =
     (well pf L r w park opened sound unshut base io e \<and>
      (x = Pending \<or> x = Ready (Ok ()) \<and> state io = Finished None))"
| "well_out pf L r w park opened sound unshut base (Panic p) = False"

lemma well_breaks:
  assumes well: "well pf L r w park opened sound unshut base io e"
    and step: "poll_step pf r w (io, e) = Break out"
  shows "well_out pf L r w park opened sound unshut base out"
proof -
  note fine = wellD [OF well]
  have post: "poll_post (ln_probe L) (ln_pw L) (ln_pr L) Off_None (ln_target L) (ln_src L) (ln_dst L) out"
    by (rule poll_loop.break_post [OF fine(3) step])
  show ?thesis
  proof (cases "state io")
    case Fill
    obtain x e1 where poll: "rd_poll_ready r e = (x, e1)" by (cases "rd_poll_ready r e")
    from Fill have "state io \<noteq> Finished None" by simp
    note polled = well_polled(1) [OF well this poll]
    show ?thesis
      using step Fill poll post polled
      by (auto split: poll.splits result.splits comp.splits)
  next
    case Drain
    obtain x e1 where poll: "wr_poll_ready w e = (x, e1)" by (cases "wr_poll_ready w e")
    from Drain have "state io \<noteq> Finished None" by simp
    note polled = well_polled(2) [OF well this poll]
    show ?thesis
      using step Drain poll post polled
      by (auto split: poll.splits result.splits comp.splits)
  next
    case (Finished error)
    then have over: "state io = Finished None" using fine(6) by (cases error) auto
    then have same: "io\<lparr>state := Finished None\<rparr> = io" by simp
    obtain x e1 where poll: "wr_poll_shutdown w e = (x, e1)" by (cases "wr_poll_shutdown w e")
    have taken: "well pf L r w park opened sound unshut base (io\<lparr>state := Finished None\<rparr>) e1
      = well pf L r w park opened sound unshut base io e1"
      by (simp only: same)
    note polled = well_polled(3) [OF well over poll]
    show ?thesis
      using step over poll polled
      by (auto simp: taken split: poll.splits result.splits)
  qed
qed

interpretation well_loop: loop_inv "poll_step pf r w"
    "\<lambda>(io, e). well pf L r w park opened sound unshut base io e"
    "well_out pf L r w park opened sound unshut base"
  for pf :: "('s, 'e) platform" and L r w park opened sound unshut base
  by unfold_locales (auto simp del: poll_step.simps intro: well_continues well_breaks)

lemma well_poll:
  assumes "well pf L r w park opened sound unshut base io e"
    and "poll_execute pf r w (io, e) = Some (Val (x, io', e'))"
  shows "well pf L r w park opened sound unshut base io' e'"
    and "x = Pending \<or> x = Ready (Ok ()) \<and> state io' = Finished None"
  using well_loop.drive_post [of pf r w "(io, e)" "Val (x, io', e')" L park opened sound unshut base]
    assms
  by (simp_all add: poll_execute_def)

text \<open>A direction stays well while something else happens: the other direction, or a wait.\<close>

lemma well_rebase:
  assumes well: "well pf L r w park opened sound unshut base io e"
    and view: "same_view (ln_probe L) e e'" and "sound e'" and "kept_by unshut e e'"
    and "owns_apart opened base' (pipe (ctx io)) e'" and "{rd_fd r, wr_fd w} \<subseteq> base'"
  shows "well pf L r w park opened sound unshut base' io e'"
proof -
  have "lane_inv L (ctx io) e'"
    using well unfolding well_def lane_inv_def ctx_inv_same_view [OF view] by blast
  with assms show ?thesis by (auto simp: well_def kept_by_def)
qed

lemma well_parked:
  assumes well: "well pf L r w park opened sound unshut base io e"
    and view: "park_keeps (ln_probe L) park"
  shows "well pf L r w park opened sound unshut base io (park e)"
proof (rule well_rebase [OF well])
  note h = healthyD [OF wellD(2) [OF well]]
  show "same_view (ln_probe L) e (park e)" using view by (simp add: park_keeps_def)
  show "sound (park e)" using h(9) [OF wellD(5) [OF well]] .
  show "kept_by unshut e (park e)" using h(10) by (simp add: kept_by_def)
  have "opened (park e) = opened e" using h(1) by (simp add: accounts_def)
  from owns_apart_same [where opened = opened, OF this] well
  show "owns_apart opened base (pipe (ctx io)) (park e)" by (simp add: well_def)
  show "{rd_fd r, wr_fd w} \<subseteq> base" using well by (simp add: well_def)
qed

text \<open>So one direction that is awaited ends without an error.\<close>

interpretation fine: future_inv "poll_execute pf r w" "\<lambda>(io, e). (io, park e)"
    "\<lambda>(io, e). well pf L r w park opened sound unshut base io e \<and> park_keeps (ln_probe L) park"
  for pf :: "('s, 'e) platform" and L r w park opened sound unshut base
  by unfold_locales (auto intro: well_poll(1) well_parked)

lemma execute_well:
  assumes "well pf L r w park opened sound unshut base io e" and "park_keeps (ln_probe L) park"
    and run: "execute pf r w park io e = Some (Val (rep, e'))"
  shows "report_error rep = None"
proof -
  from run obtain res io' e1 where
    d: "await (poll_execute pf r w) (\<lambda>(io, e). (io, park e)) (io, e) = Some (Val (res, io', e1))"
    and rep: "report_error rep = err_of res"
    by (auto simp: execute_def bind_comp_Val_iff)
  from fine.awaited_last [OF d, of L opened sound unshut base] assms(1,2) obtain io0 e0 where
    w0: "well pf L r w park opened sound unshut base io0 e0"
    and last: "poll_execute pf r w (io0, e0) = Some (Val (Ready res, io', e1))"
    by auto
  from well_poll(2) [OF w0 last] rep show ?thesis by simp
qed

lemma well_fresh:
  assumes "lane_env pf (lane_of P pw pr e0) r w" and "healthy pf P r w pw pr park opened sound unshut"
    and "half_ok (lane_of P pw pr e0) (io_from (new_ctx Live p)) e" and "sound e" "unshut e"
    and "drain_fd p = Some pr" "fill_fd p = Some pw"
    and "owns_apart opened base p e" "{rd_fd r, wr_fd w} \<subseteq> base"
  shows "well pf (lane_of P pw pr e0) r w park opened sound unshut base (io_from (new_ctx Live p)) e"
  using assms
  by (simp add: well_def half_ok_def io_from_def new_ctx_def state_ok_def rust_defs)

text \<open>\<open>copy\<close> on a new pipe.\<close>

lemma copy_complete:
  assumes kern: "kernel_ok os P r w pw pr" and park: "park_keeps P park"
    and new: "pipe_new os e = (Ok p, e1)" and ends: "drain_fd p = Some pr" "fill_fd p = Some pw"
    and h: "healthy (live_platform prof os) P r w pw pr park opened sound unshut"
    and ok: "{rd_fd r, wr_fd w} \<subseteq> opened e" "sound e1" "unshut e1"
    and run: "copy prof os r w park e = Some (Val (Ok rep, e'))"
  shows "report_error rep = None"
proof -
  have starts: "pipe_starts_empty os P pw pr" using kern by (simp add: kernel_ok_def)
  note empty = pipe_new_empty [OF starts new, folded drain_fd_def fill_fd_def, OF ends]
  have "lane_env (live_platform prof os) (lane_of P pw pr e) r w"
    using kernel_ok_transfer_env [OF kern] by (simp add: lane_env_def)
  moreover have "half_ok (lane_of P pw pr e) (io_from (new_ctx Live p)) e1"
    by (rule half_ok_fresh [OF ends]) (simp_all add: empty)
  moreover have "owns_apart opened (opened e) p e1"
    by (rule pipe_new_owns [OF _ new]) (use healthyD(1) [OF h] in \<open>simp add: accounts_def\<close>)
  ultimately have well: "well (live_platform prof os) (lane_of P pw pr e) r w park opened sound
      unshut (opened e) (io_from (new_ctx Live p)) e1"
    using h ok ends by (intro well_fresh)
  from run new have "execute (live_platform prof os) r w park (io_from (new_ctx Live p)) e1
      = Some (Val (rep, e'))"
    by (auto simp: copy_def run_from_def ctx_new_def ctx_new_inner_def bind_comp_Val_iff)
  from execute_well [OF well _ this] park show ?thesis by simp
qed

section \<open>Both directions\<close>

text \<open>The shutdown of one direction's destination does not shut down the other's.\<close>

definition bidi_healthy where
  "bidi_healthy pf1 pf2 L1 L2 sl sr park opened sound unshut1 unshut2 \<longleftrightarrow>
     healthy pf1 (ln_probe L1) (as_reader sl) (as_writer sr) (ln_pw L1) (ln_pr L1) park opened sound
       unshut1 \<and>
     healthy pf2 (ln_probe L2) (as_reader sr) (as_writer sl) (ln_pw L2) (ln_pr L2) park opened sound
       unshut2 \<and>
     calm pf1 (as_reader sl) (as_writer sr) (ln_pw L1) (ln_pr L1) (kept_by unshut2) \<and>
     calm pf2 (as_reader sr) (as_writer sl) (ln_pw L2) (ln_pr L2) (kept_by unshut1)"

definition bidi_well where
  "bidi_well pf1 pf2 L1 L2 sl sr park opened sound unshut1 unshut2 base b e \<longleftrightarrow>
     bidi_env pf1 pf2 L1 L2 sl sr \<and>
     bidi_healthy pf1 pf2 L1 L2 sl sr park opened sound unshut1 unshut2 \<and>
     park_keeps (ln_probe L1) park \<and> park_keeps (ln_probe L2) park \<and>
     {rd_fd (as_reader sl), wr_fd (as_writer sl), rd_fd (as_reader sr), wr_fd (as_writer sr)} \<subseteq> base \<and>
     well pf1 L1 (as_reader sl) (as_writer sr) park opened sound unshut1
       (base \<union> pipe_fds (pipe (ctx (io_sr2sl b)))) (io_sl2sr b) e \<and>
     well pf2 L2 (as_reader sr) (as_writer sl) park opened sound unshut2
       (base \<union> pipe_fds (pipe (ctx (io_sl2sr b)))) (io_sr2sl b) e"

lemma well_half_ok: "well pf L r w park opened sound unshut base io e \<Longrightarrow> half_ok L io e"
  by (simp add: well_def half_ok_def)

lemma bidi_poll_well:
  assumes all: "bidi_well pf1 pf2 L1 L2 sl sr park opened sound unshut1 unshut2 base b e"
    and run: "bidi_poll_execute pf1 pf2 sl sr (b, e) = Some (Val (x, b', e'))"
  shows "bidi_well pf1 pf2 L1 L2 sl sr park opened sound unshut1 unshut2 base b' e'"
    and "x = Pending \<or> x = Ready (Ok ()) \<and> state (io_sl2sr b') = Finished None \<and>
      state (io_sr2sl b') = Finished None"
proof -
  note parts = all [unfolded bidi_well_def]
  from parts have env: "bidi_env pf1 pf2 L1 L2 sl sr"
    and h: "bidi_healthy pf1 pf2 L1 L2 sl sr park opened sound unshut1 unshut2"
    and fds: "{rd_fd (as_reader sl), wr_fd (as_writer sl), rd_fd (as_reader sr),
      wr_fd (as_writer sr)} \<subseteq> base"
    and w1: "well pf1 L1 (as_reader sl) (as_writer sr) park opened sound unshut1
       (base \<union> pipe_fds (pipe (ctx (io_sr2sl b)))) (io_sl2sr b) e"
    and w2: "well pf2 L2 (as_reader sr) (as_writer sl) park opened sound unshut2
       (base \<union> pipe_fds (pipe (ctx (io_sl2sr b)))) (io_sr2sl b) e"
    by blast+
  have calms: "calm pf1 (as_reader sl) (as_writer sr) (ln_pw L1) (ln_pr L1) (kept_by unshut2)"
    "calm pf2 (as_reader sr) (as_writer sl) (ln_pw L2) (ln_pr L2) (kept_by unshut1)"
    using h unfolding bidi_healthy_def by blast+
  have owns: "owns_apart opened base0 (pipe (ctx io0)) e0"
    if "well pf L r w park opened sound unshut base0 io0 e0" for pf L r w unshut base0 io0 e0
    using that by (simp add: well_def)
  have sounds: "sound e0" if "well pf L r w park opened sound unshut base0 io0 e0"
    for pf L r w unshut base0 io0 e0
    using that by (simp add: well_def)
  have ok: "bidi_ok L1 L2 b e" using w1 w2 by (simp add: bidi_ok_def well_half_ok)
  obtain x1 x2 e1 where
    run1: "poll_execute pf1 (as_reader sl) (as_writer sr) (io_sl2sr b, e)
      = Some (Val (x1, io_sl2sr b', e1))"
    and run2: "poll_execute pf2 (as_reader sr) (as_writer sl) (io_sr2sl b, e1)
      = Some (Val (x2, io_sr2sl b', e'))"
    and x: "x = bidi_join x1 x2" and view2: "same_view (ln_probe L2) e e1"
    and view1: "same_view (ln_probe L1) e1 e'"
    by (rule bidi_polled [OF env ok run])
  note w1' = well_poll [OF w1 run1]
  have w2': "well pf2 L2 (as_reader sr) (as_writer sl) park opened sound unshut2
      (base \<union> pipe_fds (pipe (ctx (io_sl2sr b')))) (io_sr2sl b) e1"
    by (rule well_rebase [OF w2 view2 sounds [OF w1'(1)]
          poll_calm [OF calms(1) kept_by_order wellD(10) [OF w1] run1]
          owns_apart_swap [OF owns [OF w1'(1)] owns [OF w2]]])
      (use fds in auto)
  note w2'' = well_poll [OF w2' run2]
  have "well pf1 L1 (as_reader sl) (as_writer sr) park opened sound unshut1
      (base \<union> pipe_fds (pipe (ctx (io_sr2sl b')))) (io_sl2sr b') e'"
    by (rule well_rebase [OF w1'(1) view1 sounds [OF w2''(1)]
          poll_calm [OF calms(2) kept_by_order wellD(10) [OF w2'] run2]
          owns_apart_swap [OF owns [OF w2''(1)] owns [OF w1'(1)]]])
      (use fds in auto)
  with parts w2''(1)
  show "bidi_well pf1 pf2 L1 L2 sl sr park opened sound unshut1 unshut2 base b' e'"
    by (simp add: bidi_well_def)
  show "x = Pending \<or> x = Ready (Ok ()) \<and> state (io_sl2sr b') = Finished None \<and>
      state (io_sr2sl b') = Finished None"
    using w1'(2) w2''(2) by (auto simp: x bidi_join_cases(2))
qed

lemma bidi_park_well:
  assumes all: "bidi_well pf1 pf2 L1 L2 sl sr park opened sound unshut1 unshut2 base b e"
  shows "bidi_well pf1 pf2 L1 L2 sl sr park opened sound unshut1 unshut2 base b (park e)"
proof -
  note parts = all [unfolded bidi_well_def]
  from parts have w1: "well pf1 L1 (as_reader sl) (as_writer sr) park opened sound unshut1
       (base \<union> pipe_fds (pipe (ctx (io_sr2sl b)))) (io_sl2sr b) e"
    and w2: "well pf2 L2 (as_reader sr) (as_writer sl) park opened sound unshut2
       (base \<union> pipe_fds (pipe (ctx (io_sl2sr b)))) (io_sr2sl b) e"
    by blast+
  from parts have keeps: "park_keeps (ln_probe L1) park" "park_keeps (ln_probe L2) park" by blast+
  from parts well_parked [OF w1 keeps(1)] well_parked [OF w2 keeps(2)] show ?thesis
    by (simp add: bidi_well_def)
qed

interpretation bidi_fine: future_inv "bidi_poll_execute pf1 pf2 sl sr" "\<lambda>(b, e). (b, park e)"
    "\<lambda>(b, e). bidi_well pf1 pf2 L1 L2 sl sr park opened sound unshut1 unshut2 base b e"
  for pf1 :: "('s1, 'e) platform" and pf2 :: "('s2, 'e) platform" and L1 L2 sl sr park opened sound
    unshut1 unshut2 base
  by unfold_locales (auto intro: bidi_poll_well(1) bidi_park_well)

text \<open>The whole transfer: no error, and everything of both sources.\<close>

lemma well_over:
  assumes "well pf L r w park opened sound unshut base io e" and "state io = Finished None"
  shows "unat (bytes_written (ctx io)) = min (unat (ln_target L)) (length (ln_src L))"
  using half_ok_all [OF well_half_ok [OF assms(1)]] assms by (simp add: well_def state_ok_def)

lemma bidi_execute_well:
  assumes well: "bidi_well pf1 pf2 L1 L2 sl sr park opened sound unshut1 unshut2 base b e"
    and run: "bidi_execute pf1 pf2 sl sr park b e = Some (Val (rep, e'))"
  shows "report_error rep = None \<and>
    unat (tx rep) = min (unat (ln_target L1)) (length (ln_src L1)) \<and>
    unat (rx rep) = min (unat (ln_target L2)) (length (ln_src L2))"
proof -
  from run obtain res b' e1 where
    d: "await (bidi_poll_execute pf1 pf2 sl sr) (\<lambda>(b, e). (b, park e)) (b, e)
      = Some (Val (res, b', e1))"
    and rep: "rep = \<lparr>tx = bytes_written (ctx (io_sl2sr b')), rx = bytes_written (ctx (io_sr2sl b')),
      report_error = err_of res\<rparr>"
    by (auto simp: bidi_execute_unfold bind_comp_Val_iff)
  from bidi_fine.awaited_last [OF d, of L1 L2 opened sound unshut1 unshut2 base] well obtain b0 e0 where
    w0: "bidi_well pf1 pf2 L1 L2 sl sr park opened sound unshut1 unshut2 base b0 e0"
    and last: "bidi_poll_execute pf1 pf2 sl sr (b0, e0) = Some (Val (Ready res, b', e1))"
    by auto
  from bidi_poll_well(2) [OF w0 last] have res: "res = Ok ()"
    and over: "state (io_sl2sr b') = Finished None" "state (io_sr2sl b') = Finished None"
    by auto
  from bidi_poll_well(1) [OF w0 last, unfolded bidi_well_def] res show ?thesis
    by (auto simp: rep well_over [OF _ over(1)] well_over [OF _ over(2)])
qed

text \<open>
  Nothing fails for a \<open>copy_bidirectional\<close> that starts in \<open>e\<close> and has made its pipes by \<open>e2\<close>: the
  sockets are open, and the surroundings are, for some reading of their state, as described above.
\<close>

definition nothing_fails where
  "nothing_fails pf L1 L2 sl sr park e e2 \<longleftrightarrow>
     (\<exists>opened sound unshut1 unshut2.
        bidi_healthy pf pf L1 L2 sl sr park opened sound unshut1 unshut2 \<and>
        {rd_fd (as_reader sl), wr_fd (as_writer sl), rd_fd (as_reader sr), wr_fd (as_writer sr)}
          \<subseteq> opened e \<and>
        sound e2 \<and> unshut1 e2 \<and> unshut2 e2)"

lemma copy_bidirectional_complete:
  fixes sl sr :: "(live, live, 'e) endpoint"
  assumes env: "bidi_env (live_platform prof os) (live_platform prof os)
      (lane_of P1 pw1 pr1 e) (lane_of P2 pw2 pr2 e) sl sr"
    and parks: "park_keeps P1 park" "park_keeps P2 park"
    and new1: "pipe_new os e = (Ok p1, e1)" "drain_fd p1 = Some pr1" "fill_fd p1 = Some pw1"
    and new2: "pipe_new os e1 = (Ok p2, e2)" "drain_fd p2 = Some pr2" "fill_fd p2 = Some pw2"
    and ne: "{pr1, pw1} \<inter> {pr2, pw2} = {}"
    and starts: "pipe_starts_empty os P1 pw1 pr1" "pipe_starts_empty os P2 pw2 pr2"
    and elsewhere: "pipe_elsewhere os P1 pw1 pr1" "pipe_elsewhere os P2 pw2 pr2"
    and fine: "nothing_fails (live_platform prof os) (lane_of P1 pw1 pr1 e) (lane_of P2 pw2 pr2 e)
      sl sr park e e2"
    and run: "copy_bidirectional prof os sl sr park e = Some (Val (Ok rep, e'))"
  shows "report_error rep = None \<and>
    unat (tx rep) = min (unat ISIZE_MAX) (length (v_src P1 None e)) \<and>
    unat (rx rep) = min (unat ISIZE_MAX) (length (v_src P2 None e))"
proof -
  let ?L1 = "lane_of P1 pw1 pr1 e" and ?L2 = "lane_of P2 pw2 pr2 e"
  let ?pf = "live_platform prof os"
  let ?io1 = "io_from (new_ctx Live p1)" and ?io2 = "io_from (new_ctx Live p2)"
  from fine obtain opened sound unshut1 unshut2 where
    h: "bidi_healthy ?pf ?pf ?L1 ?L2 sl sr park opened sound unshut1 unshut2"
    and fds: "{rd_fd (as_reader sl), wr_fd (as_writer sl), rd_fd (as_reader sr),
      wr_fd (as_writer sr)} \<subseteq> opened e"
    and ok: "sound e2" "unshut1 e2" "unshut2 e2"
    unfolding nothing_fails_def by blast
  note both = h [unfolded bidi_healthy_def lane_of_simps]
  from both have h1: "healthy ?pf P1 (as_reader sl) (as_writer sr) pw1 pr1 park opened sound unshut1"
    and h2: "healthy ?pf P2 (as_reader sr) (as_writer sl) pw2 pr2 park opened sound unshut2"
    by blast+
  have acc: "bidi_accounted ?pf ?pf sl sr park opened (opened e)
      \<lparr>io_sl2sr = ?io1, io_sr2sl = ?io2\<rparr> e2"
    by (rule fresh_bidi_accounted [OF healthyD(1) [OF h1] healthyD(1) [OF h2] new1(1) new2(1)])
  have fresh: "bidi_ok ?L1 ?L2 \<lparr>io_sl2sr = ?io1, io_sr2sl = ?io2\<rparr> e2"
    by (rule bidi_ok_fresh [OF new1 new2 ne starts elsewhere])
  have pipes: "pipe (ctx (io_from (new_ctx Live p))) = p" for p
    by (simp add: io_from_def new_ctx_def)
  have "well ?pf ?L1 (as_reader sl) (as_writer sr) park opened sound unshut1
      (opened e \<union> pipe_fds p2) ?io1 e2"
    by (rule well_fresh [OF _ h1 _ ok(1,2) new1(2,3)])
      (use env fresh acc fds in \<open>auto simp: bidi_env_def bidi_ok_def bidi_accounted_def pipes\<close>)
  moreover have "well ?pf ?L2 (as_reader sr) (as_writer sl) park opened sound unshut2
      (opened e \<union> pipe_fds p1) ?io2 e2"
    by (rule well_fresh [OF _ h2 _ ok(1,3) new2(2,3)])
      (use env fresh acc fds in \<open>auto simp: bidi_env_def bidi_ok_def bidi_accounted_def pipes\<close>)
  ultimately have "bidi_well ?pf ?pf ?L1 ?L2 sl sr park opened sound unshut1 unshut2 (opened e)
      \<lparr>io_sl2sr = ?io1, io_sr2sl = ?io2\<rparr> e2"
    using env h parks fds by (simp add: bidi_well_def pipes)
  moreover have "bidi_execute ?pf ?pf sl sr park \<lparr>io_sl2sr = ?io1, io_sr2sl = ?io2\<rparr> e2
      = Some (Val (rep, e'))"
    using run new1(1) new2(1)
    by (auto simp: copy_bidirectional_def ctx_new_def ctx_new_inner_def bind_comp_Val_iff)
  ultimately show ?thesis
    using bidi_execute_well [of ?pf ?pf ?L1 ?L2 sl sr park opened sound unshut1 unshut2 "opened e"]
    by simp
qed

end
