(* ===== verification/Decimal.thy ===== *)
theory Decimal
  imports Prelude
begin

text \<open>
  Decimal numerals as \<open>Display\<close> and \<open>Debug\<close> of the standard library write them: \<open>show_nat\<close> for the
  unsigned integers, \<open>show_int\<close> for the signed ones, the value of a numeral, and that a numeral
  can be told apart from the text after it.
\<close>

section \<open>Digits and numerals\<close>

definition digit_of :: "char \<Rightarrow> nat option" where
  "digit_of c = (let k = of_char c in if 48 \<le> k \<and> k \<le> (57 :: nat) then Some (k - 48) else None)"

text \<open>\<open>Display\<close> for unsigned integers.\<close>

fun show_nat :: "nat \<Rightarrow> string" where
  "show_nat n =
     (if n < 10 then [char_of (48 + n)] else show_nat (n div 10) @ [char_of (48 + n mod 10)])"

declare show_nat.simps [simp del]

text \<open>The value of a numeral.\<close>

definition is_digit :: "char \<Rightarrow> bool" where
  "is_digit c \<longleftrightarrow> digit_of c \<noteq> None"

fun decimal :: "nat \<Rightarrow> string \<Rightarrow> nat" where
  "decimal acc [] = acc"
| "decimal acc (c # cs) = decimal (acc * 10 + (case digit_of c of Some d \<Rightarrow> d | None \<Rightarrow> 0)) cs"

lemma decimal_mono: "acc \<le> decimal acc s"
proof (induction s arbitrary: acc)
  case (Cons c cs)
  have "acc \<le> acc * 10 + (case digit_of c of Some d \<Rightarrow> d | None \<Rightarrow> 0)" by simp
  also have "\<dots> \<le> decimal acc (c # cs)" using Cons.IH by simp
  finally show ?case .
qed simp

lemma digit_of_char: "d < 10 \<Longrightarrow> digit_of (char_of (48 + d)) = Some d"
  by (simp add: digit_of_def Let_def)

lemma is_digit_char: "(d :: nat) < 10 \<Longrightarrow> is_digit (char_of (48 + d))"
  by (simp add: is_digit_def digit_of_char)

lemma decimal_append: "decimal acc (s @ s') = decimal (decimal acc s) s'"
  by (induction acc s rule: decimal.induct) auto

lemma show_nat_digits: "list_all is_digit (show_nat n)" "show_nat n \<noteq> []"
proof (induction n rule: show_nat.induct)
  case (1 n)
  { case 1 then show ?case
      using "1.IH" is_digit_char [of n] is_digit_char [of "n mod 10"]
      by (subst show_nat.simps) simp
  next
    case 2 then show ?case by (subst show_nat.simps) simp
  }
qed

lemma decimal_show_nat: "decimal 0 (show_nat n) = n"
proof (induction n rule: show_nat.induct)
  case (1 n)
  show ?case
  proof (cases "n < 10")
    case True
    then show ?thesis using digit_of_char [of n] by (subst show_nat.simps) simp
  next
    case False
    then show ?thesis
      using 1 digit_of_char [of "n mod 10"]
      by (subst show_nat.simps) (simp add: decimal_append)
  qed
qed

section \<open>Numerals inside a text\<close>

definition show_int :: "int \<Rightarrow> string" where
  "show_int i = (if i < 0 then CHR ''-'' # show_nat (nat (- i)) else show_nat (nat i))"

lemma show_nat_inject: "show_nat m = show_nat n \<longleftrightarrow> m = n"
  by (metis decimal_show_nat)

text \<open>A text begins with something that ends a numeral.\<close>

fun ends_number :: "string \<Rightarrow> bool" where
  "ends_number [] = True"
| "ends_number (c # cs) = (\<not> is_digit c)"

lemma digits_prefix:
  assumes "list_all is_digit s" "list_all is_digit t" "ends_number u" "ends_number v"
  shows "s @ u = t @ v \<longleftrightarrow> s = t \<and> u = v"
  using assms
proof (induction s arbitrary: t)
  case Nil
  then show ?case by (cases t; cases u) auto
next
  case (Cons c s)
  then show ?case by (cases t; cases v) auto
qed

lemma show_nat_prefix:
  "ends_number u \<Longrightarrow> ends_number v \<Longrightarrow> show_nat m @ u = show_nat n @ v \<longleftrightarrow> m = n \<and> u = v"
  by (simp add: digits_prefix show_nat_digits show_nat_inject)

lemma not_digit_minus: "\<not> is_digit CHR ''-''"
  by (simp add: is_digit_def digit_of_def)

lemma show_nat_no_minus: "show_nat n @ u \<noteq> CHR ''-'' # v"
  using show_nat_digits [of n] not_digit_minus by (cases "show_nat n") auto

lemma show_int_prefix:
  "ends_number u \<Longrightarrow> ends_number v \<Longrightarrow> show_int i @ u = show_int j @ v \<longleftrightarrow> i = j \<and> u = v"
  using show_nat_no_minus [of "nat i" u "show_nat (nat (- j)) @ v"]
    show_nat_no_minus [of "nat j" v "show_nat (nat (- i)) @ u"]
  by (auto simp: show_int_def show_nat_prefix)

end
