(* ===== verification/Proxy.thy ===== *)
theory Proxy
  imports Health Decimal
begin

text \<open>
  The example program of the crate, a proxy (\<open>examples/proxy.rs\<close>): its command line and the task
  that forwards one connection through a \<open>SpliceBidiIo\<close>.  The clock is left out; what the program
  prints about a connection is a value.
\<close>

section \<open>The command line\<close>

type_synonym u16 = "16 word"

datatype parse_int_error = Parse_Int_Error

text \<open>\<open>u16::from_str\<close>: an optional plus sign, then decimal digits, checked for overflow.\<close>

fun parse_digits :: "nat \<Rightarrow> string \<Rightarrow> nat option" where
  "parse_digits acc [] = Some acc"
| "parse_digits acc (c # cs) =
     (case digit_of c of
        None \<Rightarrow> None
      | Some d \<Rightarrow> if 65535 < acc * 10 + d then None else parse_digits (acc * 10 + d) cs)"

fun strip_plus :: "string \<Rightarrow> string" where
  "strip_plus (c # d # cs) = (if c = CHR ''+'' then d # cs else c # d # cs)"
| "strip_plus s = s"

definition parse_u16 :: "string \<Rightarrow> (u16, parse_int_error) result" where
  "parse_u16 s =
     (if s = [] then Err Parse_Int_Error
      else case parse_digits 0 (strip_plus s) of
        None \<Rightarrow> Err Parse_Int_Error
      | Some n \<Rightarrow> Ok (of_nat n))"

text \<open>
  The parser reads exactly the decimal numerals of the numbers below \<open>2 ^ 16\<close>, and in particular
  what \<open>show_nat\<close> writes.
\<close>

lemma parse_digits_iff:
  "acc \<le> 65535 \<Longrightarrow>
     parse_digits acc s = Some n \<longleftrightarrow> list_all is_digit s \<and> n = decimal acc s \<and> n \<le> 65535"
proof (induction acc s rule: parse_digits.induct)
  case (2 acc c cs)
  show ?case
  proof (cases "digit_of c")
    case (Some d)
    show ?thesis
    proof (cases "65535 < acc * 10 + d")
      case True
      with decimal_mono [of "acc * 10 + d" cs] Some show ?thesis by auto
    next
      case False
      with 2 Some show ?thesis by (simp add: is_digit_def)
    qed
  qed (simp add: is_digit_def)
qed auto

lemma strip_plus_digits: "list_all is_digit s \<Longrightarrow> strip_plus s = s"
  by (cases s rule: strip_plus.cases) (auto simp: is_digit_def digit_of_def Let_def)

lemma strip_plus_Nil_iff [simp]: "strip_plus s = [] \<longleftrightarrow> s = []"
  by (cases s rule: strip_plus.cases) auto

lemma parse_u16_Ok_iff:
  "parse_u16 s = Ok n \<longleftrightarrow>
     strip_plus s \<noteq> [] \<and> list_all is_digit (strip_plus s) \<and> decimal 0 (strip_plus s) = unat n"
proof -
  have bound: "unat n < 65536" using unsigned_less [of n] by simp
  have "parse_u16 s = Ok n \<longleftrightarrow> s \<noteq> [] \<and> parse_digits 0 (strip_plus s) = Some (unat n)"
  proof
    assume ok: "parse_u16 s = Ok n"
    then obtain k where k: "parse_digits 0 (strip_plus s) = Some k" "n = of_nat k" and "s \<noteq> []"
      by (auto simp: parse_u16_def split: if_splits option.splits)
    then have "k \<le> 65535" by (simp add: parse_digits_iff)
    with k(2) have "unat n = k" by (simp add: unat_of_nat take_bit_nat_eq_self)
    with k \<open>s \<noteq> []\<close> show "s \<noteq> [] \<and> parse_digits 0 (strip_plus s) = Some (unat n)" by simp
  qed (simp add: parse_u16_def)
  with bound show ?thesis by (auto simp: parse_digits_iff)
qed

lemma parse_show_u16: "parse_u16 (show_nat (unat n)) = Ok n"
  by (simp add: parse_u16_Ok_iff strip_plus_digits show_nat_digits decimal_show_nat)

text \<open>
  \<open>parse_args\<close>: the wrong number of arguments ends the process with the status 2, after a usage
  line that names \<open>args[0]\<close>.
\<close>

datatype invocation = Exit int | Addresses string string

definition parse_args :: "string list \<Rightarrow> invocation comp" where
  "parse_args args =
     (if length args \<noteq> 3 then (if args = [] then Panic Index_Bounds else Val (Exit 2))
      else bind_comp (unwrap (parse_u16 (args ! 1))) (\<lambda>listen_port.
        bind_comp (unwrap (parse_u16 (args ! 2))) (\<lambda>upstream_port.
          Val (Addresses (''0.0.0.0:'' @ show_nat (unat listen_port))
                         (''127.0.0.1:'' @ show_nat (unat upstream_port))))))"

text \<open>Everything the command line can lead to, by what the arguments are.\<close>

definition is_port :: "string \<Rightarrow> bool" where
  "is_port s \<longleftrightarrow>
     strip_plus s \<noteq> [] \<and> list_all is_digit (strip_plus s) \<and> decimal 0 (strip_plus s) < 65536"

lemma parse_u16_cases:
  "parse_u16 s =
     (if is_port s then Ok (of_nat (decimal 0 (strip_plus s))) else Err Parse_Int_Error)"
proof (cases "is_port s")
  case True
  then have "unat (of_nat (decimal 0 (strip_plus s)) :: u16) = decimal 0 (strip_plus s)"
    by (simp add: is_port_def unat_of_nat take_bit_nat_eq_self)
  with True show ?thesis by (simp add: parse_u16_Ok_iff is_port_def)
next
  case False
  have "parse_u16 s \<noteq> Ok n" for n
    using False unsigned_less [of n] by (auto simp: parse_u16_Ok_iff is_port_def)
  then show ?thesis using False by (cases "parse_u16 s"; cases "case parse_u16 s of Err x \<Rightarrow> x") auto
qed

lemma show_port:
  "is_port s \<Longrightarrow> unat (of_nat (decimal 0 (strip_plus s)) :: u16) = decimal 0 (strip_plus s)"
  by (simp add: is_port_def unat_of_nat take_bit_nat_eq_self)

lemma parse_args_cases:
  "parse_args args =
     (case args of
        [] \<Rightarrow> Panic Index_Bounds
      | [prog, s, t] \<Rightarrow>
          if is_port s \<and> is_port t
          then Val (Addresses (''0.0.0.0:'' @ show_nat (decimal 0 (strip_plus s)))
                              (''127.0.0.1:'' @ show_nat (decimal 0 (strip_plus t))))
          else Panic Unwrap_Err
      | _ \<Rightarrow> Val (Exit 2))"
  by (auto simp: parse_args_def parse_u16_cases show_port split: list.splits)

section \<open>Forwarding one connection\<close>

text \<open>
  \<open>TcpStream::connect\<close> and \<open>TcpListener\<close> are tokio's: parameters, like what the connected stream
  can do.  A stream that is dropped closes its descriptor; the stream that was connected last is
  dropped first.
\<close>

type_synonym 'e tcp_stream = "(live, live, 'e) endpoint"

type_synonym 'e connector = "string \<Rightarrow> 'e \<Rightarrow> 'e tcp_stream io_result \<times> 'e"

definition stream_fd :: "'e tcp_stream \<Rightarrow> fd" where
  "stream_fd s = rd_fd (as_reader s)"

definition drop_stream :: "'e os \<Rightarrow> 'e tcp_stream \<Rightarrow> 'e \<Rightarrow> 'e" where
  "drop_stream os s e = sys_close os (stream_fd s) e"

text \<open>What \<open>forwarding\<close> prints about a connection, the times left out.\<close>

datatype traffic_line = Connect_Failed io_error | Forwarded usize "io_error option"

type_synonym 'e forward_out = "(unit io_result \<times> traffic_line option \<times> 'e) comp option"

definition forwarding ::
    "profile \<Rightarrow> 'e os \<Rightarrow> 'e connector \<Rightarrow> ('e \<Rightarrow> 'e) \<Rightarrow> 'e tcp_stream \<Rightarrow> string \<Rightarrow> 'e
      \<Rightarrow> 'e forward_out" where
  "forwarding prof os connect park stream1 upstream_addr e =
     (case connect upstream_addr e of
        (Err er, e1) \<Rightarrow> Some (Val (Err er, Some (Connect_Failed er), drop_stream os stream1 e1))
      | (Ok stream2, e1) \<Rightarrow>
          let leave = (\<lambda>e. drop_stream os stream1 (drop_stream os stream2 e))
          in case ctx_new os e1 of
               (Err er, e2) \<Rightarrow> Some (Val (Err er, None, leave e2))
             | (Ok c1, e2) \<Rightarrow>
                 (case ctx_new os e2 of
                    (Err er, e3) \<Rightarrow> Some (Val (Err er, None, leave (drop_ctx os c1 e3)))
                  | (Ok c2, e3) \<Rightarrow>
                      map_option
                        (\<lambda>out. bind_comp out (\<lambda>(traffic, e4).
                           bind_comp (usize_add prof (tx traffic) (rx traffic)) (\<lambda>total.
                             Val (Ok (), Some (Forwarded total (report_error traffic)), leave e4))))
                        (bidi_execute (live_platform prof os) (live_platform prof os) stream1 stream2
                           park \<lparr>io_sl2sr = io_from c1, io_sr2sl = io_from c2\<rparr> e3)))"

text \<open>
  Once it is connected, \<open>forwarding\<close> is \<open>copy_bidirectional\<close> between the two streams, which it
  drops, with the two counts added up.
\<close>

lemma forwarding_via_copy:
  assumes "connect upstream_addr e = (Ok stream2, e1)"
  shows "forwarding prof os connect park stream1 upstream_addr e =
    map_option
      (\<lambda>out. bind_comp out (\<lambda>(res, e4).
         case res of
           Err er \<Rightarrow> Val (Err er, None, drop_stream os stream1 (drop_stream os stream2 e4))
         | Ok traffic \<Rightarrow>
             bind_comp (usize_add prof (tx traffic) (rx traffic)) (\<lambda>total.
               Val (Ok (), Some (Forwarded total (report_error traffic)),
                    drop_stream os stream1 (drop_stream os stream2 e4)))))
      (copy_bidirectional prof os stream1 stream2 park e1)"
proof -
  have collapse: "bind_comp (bind_comp out (\<lambda>(rep, e'). Val (Ok rep, e'))) f
      = bind_comp out (\<lambda>(rep, e'). f (Ok rep, e'))"
    for out :: "(transfer_report \<times> 'a) comp" and f :: "transfer_report io_result \<times> 'a \<Rightarrow> 'b comp"
    by (cases out) auto
  show ?thesis
    using assms
    by (auto simp: forwarding_def copy_bidirectional_def option.map_comp comp_def collapse
        split: prod.splits result.splits)
qed

text \<open>The total is exact: each count is at most \<open>isize::MAX\<close>, so no build overflows.\<close>

lemma add_traffic:
  assumes "unat a \<le> unat ISIZE_MAX" "unat b \<le> unat ISIZE_MAX"
  shows "usize_add prof a b = Val (a + b)" and "unat (a + b) = unat a + unat b"
proof -
  have "unat a + unat b < 2 ^ LENGTH(64)" using assms by (simp add: ISIZE_MAX_def)
  then show eq: "unat (a + b) = unat a + unat b" by (rule unat_add_lem [THEN iffD1])
  then show "usize_add prof a b = Val (a + b)" by (rule usize_add_ok)
qed

lemma forwarding_outcome:
  fixes stream1 stream2 :: "'e tcp_stream"
  assumes conn: "connect upstream_addr e = (Ok stream2, e0)"
    and rt: "bidi_runtime (live_platform prof os) (live_platform prof os)
      (lane_of P1 pw1 pr1 e0) (lane_of P2 pw2 pr2 e0) stream1 stream2 park budget1 budget2 patience"
    and new1: "pipe_new os e0 = (Ok p1, e1)" "drain_fd p1 = Some pr1" "fill_fd p1 = Some pw1"
    and new2: "pipe_new os e1 = (Ok p2, e2)" "drain_fd p2 = Some pr2" "fill_fd p2 = Some pw2"
    and ne: "{pr1, pw1} \<inter> {pr2, pw2} = {}"
    and starts: "pipe_starts_empty os P1 pw1 pr1" "pipe_starts_empty os P2 pw2 pr2"
    and elsewhere: "pipe_elsewhere os P1 pw1 pr1" "pipe_elsewhere os P2 pw2 pr2"
    and closing: "\<And>s e. s \<in> {stream1, stream2} \<Longrightarrow> same_view P1 e (drop_stream os s e) \<and>
      same_view P2 e (drop_stream os s e)"
  shows "\<exists>(rep :: transfer_report) total e'. forwarding prof os connect park stream1 upstream_addr e
      = Some (Val (Ok (), Some (Forwarded total (report_error rep)), e')) \<and>
    unat total = unat (tx rep) + unat (rx rep) \<and>
    sent (lane_of P1 pw1 pr1 e0) (tx rep) e' \<and> sent (lane_of P2 pw2 pr2 e0) (rx rep) e' \<and>
    (nothing_fails (live_platform prof os) (lane_of P1 pw1 pr1 e0) (lane_of P2 pw2 pr2 e0)
       stream1 stream2 park e0 e2 \<longrightarrow>
     report_error rep = None \<and>
     unat (tx rep) = min (unat ISIZE_MAX) (length (v_src P1 None e0)) \<and>
     unat (rx rep) = min (unat ISIZE_MAX) (length (v_src P2 None e0)))"
proof -
  from copy_bidirectional_outcome [OF rt new1 new2 ne starts elsewhere]
  obtain rep e3 where
    run: "copy_bidirectional prof os stream1 stream2 park e0 = Some (Val (Ok rep, e3))"
    and s1: "sent (lane_of P1 pw1 pr1 e0) (tx rep) e3"
    and s2: "sent (lane_of P2 pw2 pr2 e0) (rx rep) e3"
    by blast
  let ?e' = "drop_stream os stream1 (drop_stream os stream2 e3)"
  have "same_view P1 e3 ?e'" "same_view P2 e3 ?e'"
    using closing by (auto intro: same_view_trans)
  then have sent: "sent (lane_of P1 pw1 pr1 e0) (tx rep) ?e'" "sent (lane_of P2 pw2 pr2 e0) (rx rep) ?e'"
    using s1 s2 by (simp_all add: sent_def same_view_def)
  have "unat (tx rep) \<le> unat ISIZE_MAX" "unat (rx rep) \<le> unat ISIZE_MAX"
    using s1 s2 by (simp_all add: sent_def)
  note add = add_traffic [OF this]
  have "forwarding prof os connect park stream1 upstream_addr e
      = Some (Val (Ok (), Some (Forwarded (tx rep + rx rep) (report_error rep)), ?e'))"
    by (simp add: forwarding_via_copy [where connect = connect, OF conn] run add(1))
  moreover have "bidi_env (live_platform prof os) (live_platform prof os) (lane_of P1 pw1 pr1 e0)
      (lane_of P2 pw2 pr2 e0) stream1 stream2" "park_keeps P1 park" "park_keeps P2 park"
    using rt by (simp_all add: bidi_runtime_def)
  note complete = copy_bidirectional_complete [OF this new1 new2 ne starts elsewhere _ run]
  ultimately show ?thesis using add(2) sent complete by blast
qed

text \<open>
  Descriptors: \<open>connect\<close> opens one, or none when it fails; \<open>forwarding\<close> closes it again, and with
  it the stream it was given.
\<close>

definition connects_one :: "('e \<Rightarrow> fd set) \<Rightarrow> 'e connector \<Rightarrow> bool" where
  "connects_one opened connect \<longleftrightarrow>
     (\<forall>addr e res e'. connect addr e = (res, e') \<longrightarrow>
        (case res of
           Ok s \<Rightarrow> stream_fd s \<notin> opened e \<and> opened e' = insert (stream_fd s) (opened e)
         | Err er \<Rightarrow> opened e' = opened e))"

lemma drop_stream_opened:
  "fd_laws os opened \<Longrightarrow> opened (drop_stream os s e) = opened e - {stream_fd s}"
  using opened_drop_fd [of os opened "Some (stream_fd s)" e] by (simp add: drop_stream_def)

lemma forwarding_accounted:
  fixes stream1 :: "'e tcp_stream"
  assumes conn: "connects_one opened connect"
    and laws: "fd_laws os opened"
    and acc: "\<And>stream2 e e'. connect upstream_addr e = (Ok stream2, e') \<Longrightarrow>
      accounts (live_platform prof os) (as_reader stream1) (as_writer stream2) park opened \<and>
      accounts (live_platform prof os) (as_reader stream2) (as_writer stream1) park opened"
    and run: "forwarding prof os connect park stream1 upstream_addr e = Some (Val (res, line, e'))"
  shows "opened e' = opened e - {stream_fd stream1}"
proof -
  obtain r e1 where c: "connect upstream_addr e = (r, e1)" by (cases "connect upstream_addr e")
  note one = conn [unfolded connects_one_def, rule_format, OF c]
  show ?thesis
  proof (cases r)
    case (Err er)
    with c run have "e' = drop_stream os stream1 e1" by (simp add: forwarding_def)
    with Err one show ?thesis by (simp add: drop_stream_opened [OF laws])
  next
    case (Ok stream2)
    note c = c [unfolded Ok]
    from run [unfolded forwarding_via_copy [where connect = connect, OF c]] obtain rep e4 where
      copy: "copy_bidirectional prof os stream1 stream2 park e1 = Some (Val (rep, e4))"
      and "(case rep of
           Err er \<Rightarrow> Val (Err er, None, drop_stream os stream1 (drop_stream os stream2 e4))
         | Ok traffic \<Rightarrow>
             bind_comp (usize_add prof (tx traffic) (rx traffic)) (\<lambda>total.
               Val (Ok (), Some (Forwarded total (report_error traffic)),
                    drop_stream os stream1 (drop_stream os stream2 e4)))) = Val (res, line, e')"
      by (auto simp: bind_comp_Val_iff)
    then have e': "e' = drop_stream os stream1 (drop_stream os stream2 e4)"
      by (auto simp: bind_comp_Val_iff split: result.splits)
    have "opened e4 = opened e1"
      using acc [OF c] by (intro copy_bidirectional_accounted [OF _ _ copy]) simp_all
    with Ok one e' show ?thesis by (auto simp: drop_stream_opened [OF laws])
  qed
qed

end
