(* ===== verification/Proxy_Main.thy ===== *)
theory Proxy_Main
  imports Proxy
begin

text \<open>
  The main program of the proxy (\<open>examples/proxy.rs\<close>): its accept loop, the set-up of its logging,
  and the race of the accept loop against Ctrl-C.
\<close>

section \<open>Accepting connections\<close>

definition ECONNABORTED :: errno where "ECONNABORTED = 103"

definition conn_aborted :: "io_error \<Rightarrow> bool" where
  "conn_aborted er \<longleftrightarrow> kind er = Kind_Of ECONNABORTED"

text \<open>
  \<open>serve\<close> leaves behind the tasks it has spawned, in order: the arguments of their \<open>forwarding\<close>.
  The listener is its descriptor, and closed at the end.
\<close>

type_synonym 'e task = "'e tcp_stream \<times> string"

type_synonym ('e, 'a) acceptor = "fd \<Rightarrow> 'e \<Rightarrow> ('e tcp_stream \<times> 'a) io_result \<times> 'e"

definition serve_step ::
    "('e, 'a) acceptor \<Rightarrow> fd \<Rightarrow> string \<Rightarrow> 'e task list \<times> 'e
      \<Rightarrow> ('e task list \<times> 'e, unit io_result \<times> 'e task list \<times> 'e) flow" where
  "serve_step accept listener upstream_addr = (\<lambda>(tasks, e).
     case accept listener e of
       (Ok (incoming, remote_addr), e') \<Rightarrow> Continue (tasks @ [(incoming, upstream_addr)], e')
     | (Err er, e') \<Rightarrow>
         if conn_aborted er then Continue (tasks, e') else Break (Err er, tasks, e'))"

definition serve ::
    "'e os \<Rightarrow> (string \<Rightarrow> 'e \<Rightarrow> fd io_result \<times> 'e) \<Rightarrow> ('e, 'a) acceptor \<Rightarrow> string \<Rightarrow> string \<Rightarrow> 'e
      \<Rightarrow> (unit io_result \<times> 'e task list \<times> 'e) option" where
  "serve os bind accept listen_addr upstream_addr e =
     (case bind listen_addr e of
        (Err er, e1) \<Rightarrow> Some (Err er, [], e1)
      | (Ok listener, e1) \<Rightarrow>
          map_option (\<lambda>(res, tasks, e2). (res, tasks, sys_close os listener e2))
            (drive (serve_step accept listener upstream_addr) ([], e1)))"

text \<open>What a listener answers, one accept after the other.\<close>

inductive accepts :: "('e, 'a) acceptor \<Rightarrow> fd \<Rightarrow> 'e \<Rightarrow> ('e tcp_stream \<times> 'a) io_result list \<Rightarrow> 'e \<Rightarrow> bool"
  for accept :: "('e, 'a) acceptor" and listener :: fd where
  accepts_Nil: "accepts accept listener e [] e"
| accepts_Cons: "accept listener e = (r, e1) \<Longrightarrow> accepts accept listener e1 rs e2 \<Longrightarrow>
    accepts accept listener e (r # rs) e2"

inductive_cases accepts_NilE: "accepts accept listener e [] e'"
inductive_cases accepts_ConsE: "accepts accept listener e (r # rs) e'"

definition goes_on :: "('e tcp_stream \<times> 'a) io_result \<Rightarrow> bool" where
  "goes_on r = (case r of Ok c \<Rightarrow> True | Err er \<Rightarrow> conn_aborted er)"

fun tasks_for :: "string \<Rightarrow> ('e tcp_stream \<times> 'a) io_result list \<Rightarrow> 'e task list" where
  "tasks_for addr [] = []"
| "tasks_for addr (Ok (s, remote) # rs) = (s, addr) # tasks_for addr rs"
| "tasks_for addr (Err er # rs) = tasks_for addr rs"

text \<open>
  The loop spawns one task for every connection it accepts, in order, skips aborted ones, and
  ends with the first other error.
\<close>

lemma serve_loop:
  assumes "accepts accept listener e rs e1" "list_all goes_on rs"
    and "accept listener e1 = (Err er, e2)" "\<not> conn_aborted er"
  shows "drive (serve_step accept listener addr) (tasks, e)
    = Some (Err er, tasks @ tasks_for addr rs, e2)"
  using assms
proof (induction e rs e1 arbitrary: tasks rule: accepts.induct)
  case (accepts_Nil e)
  then show ?case by (simp add: drive_Break serve_step_def)
next
  case (accepts_Cons e r e1 rs e2)
  show ?case
  proof (cases r)
    case (Ok c)
    obtain s remote where c: "c = (s, remote)" by (cases c)
    have "serve_step accept listener addr (tasks, e) = Continue (tasks @ [(s, addr)], e1)"
      using accepts_Cons.hyps(1) by (simp add: serve_step_def Ok c)
    with accepts_Cons Ok c show ?thesis by (simp add: drive_Continue)
  next
    case (Err err)
    with accepts_Cons.prems have "conn_aborted err" by (simp add: goes_on_def)
    then have "serve_step accept listener addr (tasks, e) = Continue (tasks, e1)"
      using accepts_Cons.hyps(1) by (simp add: serve_step_def Err)
    with accepts_Cons Err show ?thesis by (simp add: drive_Continue)
  qed
qed

lemma serve_spawns:
  assumes "bind listen_addr e = (Ok listener, e0)"
    and "accepts accept listener e0 rs e1" "list_all goes_on rs"
    and "accept listener e1 = (Err er, e2)" "\<not> conn_aborted er"
  shows "serve os bind accept listen_addr upstream_addr e
    = Some (Err er, tasks_for upstream_addr rs, sys_close os listener e2)"
  using serve_loop [OF assms(2-5)] assms(1) by (simp add: serve_def)

text \<open>As long as no accept fails for good, the loop has no end.\<close>

definition never_fails :: "('e, 'a) acceptor \<Rightarrow> fd \<Rightarrow> bool" where
  "never_fails accept listener \<longleftrightarrow> (\<forall>e. goes_on (fst (accept listener e)))"

interpretation serving: loop_inv "serve_step accept listener addr"
    "\<lambda>_. never_fails accept listener" "\<lambda>_. False"
  for accept :: "('e, 'a) acceptor" and listener addr
proof
  fix st :: "'e task list \<times> 'e" and r
  obtain tasks e where st: "st = (tasks, e)" by (cases st)
  assume never: "never_fails accept listener"
    and step: "serve_step accept listener addr st = Break r"
  have "goes_on (fst (accept listener e))" using never by (simp add: never_fails_def)
  with step st show False
    by (auto simp: serve_step_def goes_on_def split: prod.splits result.splits if_splits)
qed

lemma serve_endless:
  assumes "bind listen_addr e = (Ok listener, e0)" "never_fails accept listener"
  shows "serve os bind accept listen_addr upstream_addr e = None"
proof -
  have "drive (serve_step accept listener upstream_addr) ([], e0) = None"
    using serving.drive_post [of accept listener upstream_addr "([], e0)"] assms(2)
    by (cases "drive (serve_step accept listener upstream_addr) ([], e0)") auto
  with assms(1) show ?thesis by (simp add: serve_def)
qed

text \<open>The size \<open>main\<close> reports at the start, read off a pipe that is dropped at once.\<close>

definition startup_pipe_size :: "'e os \<Rightarrow> 'e \<Rightarrow> nonzero_usize io_result \<times> 'e" where
  "startup_pipe_size os e =
     (case pipe_new os e of
        (Err er, e') \<Rightarrow> (Err er, e')
      | (Ok p, e') \<Rightarrow> (Ok (pipe_size p), drop_pipe os p e'))"

lemma startup_pipe_accounted:
  assumes "fd_laws os opened" "startup_pipe_size os e = (res, e')"
  shows "opened e' = opened e"
proof -
  obtain x e1 where new: "pipe_new os e = (x, e1)" by (cases "pipe_new os e")
  show ?thesis
  proof (cases x)
    case (Ok p)
    from pipe_new_owns [OF assms(1) new [unfolded Ok]] assms(2) new Ok show ?thesis
      by (auto simp: startup_pipe_size_def opened_drop_pipe [OF assms(1)] owns_apart_def)
  next
    case (Err er)
    with pipe_new_opened_Err [OF assms(1) new [unfolded Err]] assms(2) new show ?thesis
      by (simp add: startup_pipe_size_def)
  qed
qed

section \<open>The program\<close>

text \<open>
  The logging set-up of \<open>main\<close>: four filter directives are parsed and unwrapped, and the subscriber
  made of them is installed, which panics when there is one already.  Both are operations of the
  tracing-subscriber package and so parameters.
\<close>

record ('d, 'e) logging =
  parse_directive :: "string \<Rightarrow> ('d, unit) result"
  install_subscriber :: "'d list \<Rightarrow> 'e \<Rightarrow> 'e comp"

definition log_directives :: "string list" where
  "log_directives = [''otel::tracing=trace'', ''h2=error'', ''tower=error'', ''hyper=error'']"

fun parse_directives :: "(string \<Rightarrow> ('d, unit) result) \<Rightarrow> string list \<Rightarrow> 'd list comp" where
  "parse_directives parse [] = Val []"
| "parse_directives parse (s # ss) =
     bind_comp (unwrap (parse s)) (\<lambda>d. bind_comp (parse_directives parse ss) (\<lambda>ds. Val (d # ds)))"

definition set_up_logging :: "('d, 'e) logging \<Rightarrow> 'e \<Rightarrow> 'e comp" where
  "set_up_logging lg e =
     bind_comp (parse_directives (parse_directive lg) log_directives)
       (\<lambda>ds. install_subscriber lg ds e)"

text \<open>
  \<open>main\<close> races \<open>serve\<close> against Ctrl-C: \<open>ctrl_c\<close> says that the signal comes before the next step of
  \<open>serve\<close>, which binds its address and then accepts.
  The future that loses is dropped, and with it the listener.  Whatever \<open>serve\<close> returns is only
  printed.
\<close>

definition race_step ::
    "('e, 'a) acceptor \<Rightarrow> ('e \<Rightarrow> bool) \<Rightarrow> fd \<Rightarrow> string \<Rightarrow> 'e task list \<times> 'e
      \<Rightarrow> ('e task list \<times> 'e, 'e task list \<times> 'e) flow" where
  "race_step accept ctrl_c listener upstream_addr = (\<lambda>(tasks, e).
     if ctrl_c e then Break (tasks, e)
     else case serve_step accept listener upstream_addr (tasks, e) of
       Continue st \<Rightarrow> Continue st
     | Break (res, st) \<Rightarrow> Break st)"

datatype main_end = Exited int | Returned "unit io_result"

definition proxy_main ::
    "('d, 'e) logging \<Rightarrow> 'e os \<Rightarrow> (string \<Rightarrow> 'e \<Rightarrow> fd io_result \<times> 'e) \<Rightarrow> ('e, 'a) acceptor
      \<Rightarrow> ('e \<Rightarrow> bool) \<Rightarrow> string list \<Rightarrow> 'e \<Rightarrow> (main_end \<times> 'e task list \<times> 'e) comp option" where
  "proxy_main lg os bind accept ctrl_c args e =
     (case parse_args args of
        Panic p \<Rightarrow> Some (Panic p)
      | Val (Exit n) \<Rightarrow> Some (Val (Exited n, [], e))
      | Val (Addresses listen_addr upstream_addr) \<Rightarrow>
          (case set_up_logging lg e of
             Panic p \<Rightarrow> Some (Panic p)
           | Val e0 \<Rightarrow>
               (case startup_pipe_size os e0 of
                  (Err er, e1) \<Rightarrow> Some (Val (Returned (Err er), [], e1))
                | (Ok reported, e1) \<Rightarrow>
                    if ctrl_c e1 then Some (Val (Returned (Ok ()), [], e1))
                    else case bind listen_addr e1 of
                       (Err er, e2) \<Rightarrow> Some (Val (Returned (Ok ()), [], e2))
                     | (Ok listener, e2) \<Rightarrow>
                         map_option
                           (\<lambda>(tasks, e3). Val (Returned (Ok ()), tasks, sys_close os listener e3))
                           (drive (race_step accept ctrl_c listener upstream_addr) ([], e2)))))"

text \<open>
  Until the signal comes the race is the accept loop; when it comes, the loop is over, with the
  tasks of the connections accepted before.
\<close>

lemma race_interrupted:
  assumes "accepts accept listener e rs e1" "list_all goes_on rs" "ctrl_c e1"
    and "\<And>qs e'. accepts accept listener e qs e' \<Longrightarrow> length qs < length rs \<Longrightarrow> \<not> ctrl_c e'"
  shows "drive (race_step accept ctrl_c listener addr) (tasks, e) = Some (tasks @ tasks_for addr rs, e1)"
  using assms
proof (induction e rs e1 arbitrary: tasks rule: accepts.induct)
  case (accepts_Nil e)
  then show ?case by (simp add: drive_Break race_step_def)
next
  case (accepts_Cons e r e1 rs e2)
  have quiet: "\<not> ctrl_c e" using accepts_Cons.prems(3) [OF accepts_Nil] by simp
  define tasks' where "tasks' = tasks @ tasks_for addr [r]"
  have "race_step accept ctrl_c listener addr (tasks, e) = Continue (tasks', e1)"
    using quiet accepts_Cons.hyps(1) accepts_Cons.prems(1)
    by (cases r) (auto simp: race_step_def serve_step_def goes_on_def tasks'_def)
  note step = drive_Continue [where step = "race_step accept ctrl_c listener addr", OF this]
  have "drive (race_step accept ctrl_c listener addr) (tasks', e1) = Some (tasks' @ tasks_for addr rs, e2)"
  proof (rule accepts_Cons.IH)
    show "\<not> ctrl_c e'" if "accepts accept listener e1 qs e'" "length qs < length rs" for qs e'
      using accepts_Cons.prems(3) [OF accepts.accepts_Cons [OF accepts_Cons.hyps(1) that(1)]] that(2)
      by simp
  qed (use accepts_Cons.prems in simp_all)
  then show ?case unfolding step tasks'_def by (cases r) auto
qed

text \<open>How the process ends, and when.\<close>

lemma proxy_main_ends:
  assumes "proxy_main lg os bind accept ctrl_c args e = Some (Val (how, tasks, e'))"
  shows "(how = Exited 2 \<and> length args \<noteq> 3 \<and> args \<noteq> [] \<and> tasks = [] \<and> e' = e) \<or>
    (length args = 3 \<and> (\<exists>e0. set_up_logging lg e = Val e0 \<and>
       (how = Returned (Ok ()) \<or>
        (\<exists>er. how = Returned (Err er) \<and> tasks = [] \<and> startup_pipe_size os e0 = (Err er, e')))))"
proof -
  have "args \<noteq> []" using assms by (auto simp: proxy_main_def parse_args_def)
  moreover have "parse_args args = Val (Exit n) \<Longrightarrow> n = 2 \<and> length args \<noteq> 3" for n
    by (auto simp: parse_args_def bind_comp_Val_iff split: if_splits)
  moreover have "parse_args args = Val (Addresses a b) \<Longrightarrow> length args = 3" for a b
    by (auto simp: parse_args_def split: if_splits)
  ultimately show ?thesis
    using assms
    by (auto simp: proxy_main_def split: comp.splits invocation.splits prod.splits result.splits if_splits)
qed

lemma proxy_main_interrupted:
  assumes args: "parse_args args = Val (Addresses listen_addr upstream_addr)"
    and log: "set_up_logging lg e = Val e0" and size: "startup_pipe_size os e0 = (Ok sz, e1)"
    and quiet: "\<not> ctrl_c e1" and bound: "bind listen_addr e1 = (Ok listener, e2)"
    and conns: "accepts accept listener e2 rs e3" "list_all goes_on rs" "ctrl_c e3"
    and before: "\<And>qs e'. accepts accept listener e2 qs e' \<Longrightarrow> length qs < length rs \<Longrightarrow> \<not> ctrl_c e'"
  shows "proxy_main lg os bind accept ctrl_c args e
    = Some (Val (Returned (Ok ()), tasks_for upstream_addr rs, sys_close os listener e3))"
proof -
  have "drive (race_step accept ctrl_c listener upstream_addr) ([], e2)
      = Some (tasks_for upstream_addr rs, e3)"
    using race_interrupted [where ctrl_c = ctrl_c and addr = upstream_addr and tasks = "[]", OF conns]
      before by simp
  then show ?thesis by (simp add: proxy_main_def args log size quiet bound)
qed

end
