(* ===== verification/Mock_Fd.thy ===== *)
theory Mock_Fd
  imports Splice_Io
begin

text \<open>
  The scripted descriptor of the crate's unit tests (\<open>src/io/mock.rs\<close>): it plays back readiness
  and \<open>try_io\<close> outcomes from four queues.  The queues sit in \<open>RefCell\<close>s, so they are part of the
  surroundings; \<open>get\<close> and \<open>put\<close> say where.
\<close>

datatype try_io = CallInner | TryIo_WouldBlock | TryIo_Err error_kind

record mock_fd =
  mock_fd_field :: fd
  read_ready :: "unit io_result poll list"
  write_ready :: "unit io_result poll list"
  try_io_read_field :: "try_io list"
  try_io_write_field :: "try_io list"

text \<open>\<open>MockFd::new\<close> opens \<open>/dev/null\<close>; what that returns is an argument.\<close>

definition mock_fd_new :: "(fd, io_error) result \<Rightarrow> mock_fd io_result" where
  "mock_fd_new dev_null =
     (case dev_null of
        Err er \<Rightarrow> Err er
      | Ok d \<Rightarrow> Ok \<lparr>mock_fd_field = d, read_ready = [], write_ready = [],
                    try_io_read_field = [], try_io_write_field = []\<rparr>)"

definition script_read_ready :: "mock_fd \<Rightarrow> unit io_result poll list \<Rightarrow> mock_fd" where
  "script_read_ready self it = self\<lparr>read_ready := read_ready self @ it\<rparr>"

definition script_write_ready :: "mock_fd \<Rightarrow> unit io_result poll list \<Rightarrow> mock_fd" where
  "script_write_ready self it = self\<lparr>write_ready := write_ready self @ it\<rparr>"

definition script_try_io_read :: "mock_fd \<Rightarrow> try_io list \<Rightarrow> mock_fd" where
  "script_try_io_read self it = self\<lparr>try_io_read_field := try_io_read_field self @ it\<rparr>"

definition script_try_io_write :: "mock_fd \<Rightarrow> try_io list \<Rightarrow> mock_fd" where
  "script_try_io_write self it = self\<lparr>try_io_write_field := try_io_write_field self @ it\<rparr>"

section \<open>Playing back\<close>

text \<open>An empty readiness queue means the descriptor is idle.\<close>

definition mock_poll_read_ready :: "mock_fd \<Rightarrow> unit io_result poll \<times> mock_fd" where
  "mock_poll_read_ready self =
     (case pop_front (read_ready self) of
        (x, q) \<Rightarrow> (unwrap_or x Pending, self\<lparr>read_ready := q\<rparr>))"

definition mock_poll_write_ready :: "mock_fd \<Rightarrow> unit io_result poll \<times> mock_fd" where
  "mock_poll_write_ready self =
     (case pop_front (write_ready self) of
        (x, q) \<Rightarrow> (unwrap_or x Pending, self\<lparr>write_ready := q\<rparr>))"

text \<open>The bare reads and writes of \<open>AsyncRead\<close> and \<open>AsyncWrite\<close> must never be called.\<close>

definition mock_as_fd :: "mock_fd \<Rightarrow> fd" where
  "mock_as_fd self = mock_fd_field self"

definition mock_poll_read :: "mock_fd \<Rightarrow> (unit io_result poll \<times> mock_fd) comp" where
  "mock_poll_read self = Panic Explicit_Panic"

definition mock_poll_write :: "mock_fd \<Rightarrow> (usize io_result poll \<times> mock_fd) comp" where
  "mock_poll_write self = Panic Explicit_Panic"

definition mock_poll_flush :: "mock_fd \<Rightarrow> unit io_result poll \<times> mock_fd" where
  "mock_poll_flush self = (Ready (Ok ()), self)"

definition mock_poll_shutdown :: "mock_fd \<Rightarrow> unit io_result poll \<times> mock_fd" where
  "mock_poll_shutdown self = (Ready (Ok ()), self)"

text \<open>
  The outcome is popped, the borrow of the queue ends, and only then is the closure called; an
  empty queue is a panic.
\<close>

definition play_try_io :: "try_io \<Rightarrow> ('s, 'e) attempt \<Rightarrow> ('s, 'e) attempt" where
  "play_try_io t f c e =
     (case t of
        CallInner \<Rightarrow> f c e
      | TryIo_WouldBlock \<Rightarrow> Val (Err (Simple WouldBlock), c, e)
      | TryIo_Err k \<Rightarrow> Val (Err (Simple k), c, e))"

definition mock_try_io_read ::
    "('e \<Rightarrow> mock_fd) \<Rightarrow> (mock_fd \<Rightarrow> 'e \<Rightarrow> 'e) \<Rightarrow> ('s, 'e) attempt \<Rightarrow> ('s, 'e) attempt" where
  "mock_try_io_read get put f c e =
     (case pop_front (try_io_read_field (get e)) of
        (x, q) \<Rightarrow> bind_comp (expect x)
          (\<lambda>t. play_try_io t f c (put (get e\<lparr>try_io_read_field := q\<rparr>) e)))"

definition mock_try_io_write ::
    "('e \<Rightarrow> mock_fd) \<Rightarrow> (mock_fd \<Rightarrow> 'e \<Rightarrow> 'e) \<Rightarrow> ('s, 'e) attempt \<Rightarrow> ('s, 'e) attempt" where
  "mock_try_io_write get put f c e =
     (case pop_front (try_io_write_field (get e)) of
        (x, q) \<Rightarrow> bind_comp (expect x)
          (\<lambda>t. play_try_io t f c (put (get e\<lparr>try_io_write_field := q\<rparr>) e)))"

text \<open>A poll of a mock that sits somewhere in the surroundings.\<close>

definition zoom ::
    "('e \<Rightarrow> mock_fd) \<Rightarrow> (mock_fd \<Rightarrow> 'e \<Rightarrow> 'e) \<Rightarrow> (mock_fd \<Rightarrow> 'a \<times> mock_fd) \<Rightarrow> 'e \<Rightarrow> 'a \<times> 'e" where
  "zoom get put f e = (case f (get e) of (x, m) \<Rightarrow> (x, put m e))"

definition mock_reader ::
    "fd \<Rightarrow> ('e \<Rightarrow> mock_fd) \<Rightarrow> (mock_fd \<Rightarrow> 'e \<Rightarrow> 'e) \<Rightarrow> ('s, 'e) reader" where
  "mock_reader d get put =
     \<lparr>rd_fd = d, rd_poll_ready = zoom get put mock_poll_read_ready,
      rd_try_io = mock_try_io_read get put\<rparr>"

definition mock_writer ::
    "fd \<Rightarrow> ('e \<Rightarrow> mock_fd) \<Rightarrow> (mock_fd \<Rightarrow> 'e \<Rightarrow> 'e) \<Rightarrow> ('s, 'e) writer" where
  "mock_writer d get put =
     \<lparr>wr_fd = d, wr_poll_ready = zoom get put mock_poll_write_ready,
      wr_try_io = mock_try_io_write get put,
      wr_poll_shutdown = zoom get put mock_poll_shutdown\<rparr>"

lemmas mock_script_defs =
  script_read_ready_def script_write_ready_def script_try_io_read_def script_try_io_write_def

lemmas mock_fd_defs =
  mock_poll_read_ready_def mock_poll_write_ready_def mock_poll_flush_def mock_poll_shutdown_def
  mock_try_io_read_def mock_try_io_write_def play_try_io_def zoom_def mock_reader_def
  mock_writer_def

declare mock_script_defs [rust_defs] mock_fd_defs [rust_defs]

section \<open>The mock is an implementation\<close>

text \<open>Its \<open>try_io\<close> calls the closure at most once and passes its result on.\<close>

lemma play_try_io_passes:
  "play_try_io t f c e = Val (res, c', e') \<Longrightarrow>
     (c' = c \<and> (\<exists>er. res = Err er)) \<or> (\<exists>e1 e2. f c e1 = Val (res, c', e2))"
  by (cases t) (auto simp: play_try_io_def)

interpretation mock_read: try_io_iface "mock_try_io_read get put"
  for get :: "'e \<Rightarrow> mock_fd" and put
  by unfold_locales
    (auto simp: mock_try_io_read_def bind_comp_Val_iff split: prod.splits dest: play_try_io_passes)

interpretation mock_write: try_io_iface "mock_try_io_write get put"
  for get :: "'e \<Rightarrow> mock_fd" and put
  by unfold_locales
    (auto simp: mock_try_io_write_def bind_comp_Val_iff split: prod.splits dest: play_try_io_passes)

text \<open>Scripts are played back in order; polling an idle descriptor is pending and changes nothing.\<close>

lemma mock_poll_script:
  "read_ready m = x # q \<Longrightarrow> mock_poll_read_ready m = (x, m\<lparr>read_ready := q\<rparr>)"
  "write_ready m = x # q \<Longrightarrow> mock_poll_write_ready m = (x, m\<lparr>write_ready := q\<rparr>)"
  "read_ready m = [] \<Longrightarrow> mock_poll_read_ready m = (Pending, m)"
  "write_ready m = [] \<Longrightarrow> mock_poll_write_ready m = (Pending, m)"
  by (simp_all add: mock_fd_defs)

section \<open>The unit tests of the state machine\<close>

text \<open>
  The tests of \<open>src/io/mod.rs\<close> as they are written, up to their assertions.  The world holds the
  two mocks and the kernel; the context is made on a real pipe, which the scripted \<open>Splicer\<close>
  never uses, so the system calls stay a parameter.
\<close>

record 'k mock_world =
  world_reader :: mock_fd
  world_writer :: mock_fd
  world_kernel :: 'k

definition lift_os :: "'k os \<Rightarrow> 'k mock_world os" where
  "lift_os os =
     \<lparr>sys_pipe = (\<lambda>fl w. case sys_pipe os fl (world_kernel w) of (r, k) \<Rightarrow> (r, w\<lparr>world_kernel := k\<rparr>)),
      sys_setpipe_size = (\<lambda>d n w. case sys_setpipe_size os d n (world_kernel w) of
                                    (r, k) \<Rightarrow> (r, w\<lparr>world_kernel := k\<rparr>)),
      sys_getpipe_size = (\<lambda>d w. case sys_getpipe_size os d (world_kernel w) of
                                  (r, k) \<Rightarrow> (r, w\<lparr>world_kernel := k\<rparr>)),
      sys_splice = (\<lambda>d1 o1 d2 o2 n fl w.
                      case sys_splice os d1 o1 d2 o2 n fl (world_kernel w) of
                        (r, x, y, k) \<Rightarrow> (r, x, y, w\<lparr>world_kernel := k\<rparr>)),
      sys_close = (\<lambda>d w. w\<lparr>world_kernel := sys_close os d (world_kernel w)\<rparr>)\<rparr>"

definition world_source :: "fd \<Rightarrow> (mock_splicer, 'k mock_world) reader" where
  "world_source d = mock_reader d world_reader (\<lambda>m w. w\<lparr>world_reader := m\<rparr>)"

definition world_dest :: "fd \<Rightarrow> (mock_splicer, 'k mock_world) writer" where
  "world_dest d = mock_writer d world_writer (\<lambda>m w. w\<lparr>world_writer := m\<rparr>)"

definition mock_platform :: "profile \<Rightarrow> 'k os \<Rightarrow> (mock_splicer, 'k mock_world) platform" where
  "mock_platform prof os = \<lparr>pf_profile = prof, pf_os = lift_os os, pf_ops = mock_ops\<rparr>"

definition poll_scripted ::
    "profile \<Rightarrow> 'k os \<Rightarrow> mock_splicer \<Rightarrow> mock_fd \<Rightarrow> mock_fd \<Rightarrow> 'k
      \<Rightarrow> (mock_splicer, 'k mock_world) poll_out option" where
  "poll_scripted prof os s reader writer k =
     (case ctx_new_with_splicer (lift_os os) s
             \<lparr>world_reader = reader, world_writer = writer, world_kernel = k\<rparr> of
        (Err er, w) \<Rightarrow> Some (Panic Unwrap_Err)
      | (Ok c, w) \<Rightarrow>
          poll_execute (mock_platform prof os) (world_source (mock_fd_field reader))
            (world_dest (mock_fd_field writer)) (io_from c, w))"

text \<open>\<open>MockFd::new().unwrap()\<close> where opening \<open>/dev/null\<close> gave the descriptor.\<close>

definition bare_mock :: "fd \<Rightarrow> mock_fd" where
  "bare_mock d = \<lparr>mock_fd_field = d, read_ready = [], write_ready = [],
     try_io_read_field = [], try_io_write_field = []\<rparr>"

lemma mock_fd_new_bare: "unwrap (mock_fd_new (Ok d)) = Val (bare_mock d)"
  by (simp add: mock_fd_new_def bare_mock_def)

text \<open>\<open>partial_write_parks_on_writer\<close> and \<open>clean_drain_finishes\<close>.\<close>

definition partial_write_run ::
    "profile \<Rightarrow> 'k os \<Rightarrow> fd \<Rightarrow> fd \<Rightarrow> 'k \<Rightarrow> (mock_splicer, 'k mock_world) poll_out option" where
  "partial_write_run prof os d1 d2 k =
     poll_scripted prof os
       (script_out (script_in mock_splicer_new [Ok 8000]) [Ok 3000])
       (script_try_io_read
          (script_read_ready (bare_mock d1) [Ready (Ok ()), Ready (Ok ())])
          [CallInner, TryIo_WouldBlock])
       (script_try_io_write
          (script_write_ready (bare_mock d2) [Ready (Ok ()), Ready (Ok ())])
          [CallInner, TryIo_WouldBlock])
       k"

definition clean_drain_run ::
    "profile \<Rightarrow> 'k os \<Rightarrow> fd \<Rightarrow> fd \<Rightarrow> 'k \<Rightarrow> (mock_splicer, 'k mock_world) poll_out option" where
  "clean_drain_run prof os d1 d2 k =
     poll_scripted prof os
       (script_out (script_in mock_splicer_new [Ok 1000, Ok 0]) [Ok 1000])
       (script_try_io_read
          (script_read_ready (bare_mock d1) [Ready (Ok ()), Ready (Ok ())])
          [CallInner, CallInner])
       (script_try_io_write
          (script_write_ready (bare_mock d2) [Ready (Ok ()), Ready (Ok ())])
          [CallInner, CallInner])
       k"

lemmas scripted_run_defs =
  poll_scripted_def ctx_new_with_splicer_def poll_execute_def io_from_def new_ctx_def
  world_source_def world_dest_def mock_platform_def bare_mock_def mock_fd_defs mock_script_defs
  mock_splicer_defs

lemma sys_close_lift:
  "sys_close (lift_os os) d w = w\<lparr>world_kernel := sys_close os d (world_kernel w)\<rparr>"
  by (simp add: lift_os_def)

lemmas attempt_eval = sys_close_lift
  try_splice_from_source_def try_splice_to_dest_def close_source_def close_dest_def
  usize_sub_def usize_add_def ISIZE_MAX_def after_fill_def after_drain_def finished_def
  state_name_def io_deref_def

text \<open>The pipe that the lifted system calls make is the kernel's.\<close>

lemma pipe_new_lift:
  "pipe_new os k = (r, k') \<Longrightarrow>
     pipe_new (lift_os os) (w\<lparr>world_kernel := k\<rparr>) = (r, w\<lparr>world_kernel := k'\<rparr>)"
  by (auto simp: pipe_new_def negotiate_size_def lift_os_def Let_def
      split: prod.splits result.splits)

lemma pipe_new_lift_ext:
  assumes "pipe_new os k = (r, k')"
  shows "pipe_new (lift_os os) \<lparr>world_reader = a, world_writer = b, world_kernel = k\<rparr>
     = (r, \<lparr>world_reader = a, world_writer = b, world_kernel = k'\<rparr>)"
  using pipe_new_lift [OF assms, of "\<lparr>world_reader = a, world_writer = b, world_kernel = k\<rparr>"]
  by simp

lemma partial_write_result:
  assumes "pipe_new os k = (Ok p, k')"
  shows "\<exists>io w. partial_write_run prof os d1 d2 k = Some (Val (Pending, io, w)) \<and>
           state_name io = ''Drain'' \<and> bytes_read (io_deref io) = 8000 \<and>
           bytes_written (io_deref io) = 3000"
proof -
  obtain a b sz where
    p: "p = \<lparr>pipe_drain_fd = Some a, pipe_fill_fd = Some b, pipe_size_field = sz\<rparr>"
    by (rule pipe_new_ends [OF assms])
  show ?thesis
    by (simp add: partial_write_run_def scripted_run_defs pipe_new_lift_ext [OF assms] p)
      (subst drive.simps, simp add: rust_defs attempt_eval)+
qed

lemma clean_drain_result:
  assumes "pipe_new os k = (Ok p, k')"
  shows "\<exists>io w. clean_drain_run prof os d1 d2 k = Some (Val (Ready (Ok ()), io, w)) \<and>
           bytes_read (io_deref io) = 1000 \<and> bytes_written (io_deref io) = 1000 \<and>
           state io = Finished None"
proof -
  obtain a b sz where
    p: "p = \<lparr>pipe_drain_fd = Some a, pipe_fill_fd = Some b, pipe_size_field = sz\<rparr>"
    by (rule pipe_new_ends [OF assms])
  show ?thesis
    by (simp add: clean_drain_run_def scripted_run_defs pipe_new_lift_ext [OF assms] p)
      (subst drive.simps, simp add: rust_defs attempt_eval)+
qed

text \<open>The tests with their assertions: a test passes when none of them panics.\<close>

definition assert_true :: "bool \<Rightarrow> unit comp" where
  "assert_true b = (if b then Val () else Panic Explicit_Panic)"

definition partial_write_test :: "profile \<Rightarrow> 'k os \<Rightarrow> fd \<Rightarrow> fd \<Rightarrow> 'k \<Rightarrow> unit comp option" where
  "partial_write_test prof os d1 d2 k =
     map_option
       (\<lambda>out. bind_comp out (\<lambda>(poll, io, w).
          bind_comp (assert_true (poll = Pending)) (\<lambda>_.
          bind_comp (assert_true (state_name io = ''Drain'')) (\<lambda>_.
          bind_comp (assert_true (bytes_read (io_deref io) = 8000)) (\<lambda>_.
          assert_true (bytes_written (io_deref io) = 3000))))))
       (partial_write_run prof os d1 d2 k)"

definition clean_drain_test :: "profile \<Rightarrow> 'k os \<Rightarrow> fd \<Rightarrow> fd \<Rightarrow> 'k \<Rightarrow> unit comp option" where
  "clean_drain_test prof os d1 d2 k =
     map_option
       (\<lambda>out. bind_comp out (\<lambda>(poll, io, w).
          bind_comp (assert_true (poll = Ready (Ok ()))) (\<lambda>_.
          bind_comp (assert_true (bytes_read (io_deref io) = 1000)) (\<lambda>_.
          bind_comp (assert_true (bytes_written (io_deref io) = 1000)) (\<lambda>_.
          assert_true (state io = Finished None))))))
       (clean_drain_run prof os d1 d2 k)"

text \<open>Both pass in every build and on every kernel that makes the pipe.\<close>

lemma tests_pass:
  assumes "pipe_new os k = (Ok p, k')"
  shows "partial_write_test prof os d1 d2 k = Some (Val ())"
    and "clean_drain_test prof os d1 d2 k = Some (Val ())"
  using partial_write_result [OF assms, of prof d1 d2] clean_drain_result [OF assms, of prof d1 d2]
  by (auto simp: partial_write_test_def clean_drain_test_def assert_true_def)

end
