(* ===== verification/Ctx_Facts.thy ===== *)
theory Ctx_Facts
  imports Fd_Account Mock_Fd
begin

text \<open>
  Further facts about a single context: what an attempt can change whatever the \<open>Splicer\<close> does,
  that the build profile makes no difference, what the pipe predicates say of the actual queue,
  that dropping a transfer at any point leaks nothing, and where the code does panic.
\<close>

section \<open>What an attempt can change\<close>

text \<open>The loan of the offset: what the callee stored is what the context goes on with.\<close>

context splicer_iface
begin

lemma loan_in:
  "splice_in ops s r (off_in x) pw m e = Val (res, off', s', e') \<Longrightarrow> off_in (put_off_in x off') = off'"
  by (rule off_in_put) (rule in_loan)

lemma loan_out:
  "splice_out ops s pr w (off_out x) m e = Val (res, off', s', e') \<Longrightarrow>
     off_out (put_off_out x off') = off'"
  by (rule off_out_put) (rule out_loan)

text \<open>A fill attempt never touches what belongs to the drain side, and conversely.\<close>

lemma source_frame:
  assumes "pf_ops pf = ops" and "try_splice_from_source pf r c e = Val (res, c', e')"
  shows "bytes_written c' = bytes_written c \<and> size_to_splice c' = size_to_splice c \<and>
    drain_fd (pipe c') = drain_fd (pipe c) \<and> pipe_size (pipe c') = pipe_size (pipe c) \<and>
    off_out (offset c') = off_out (offset c) \<and> res \<noteq> Ok NoProgress \<and>
    (bytes_read c' \<noteq> bytes_read c \<longrightarrow> (\<exists>n. res = Ok (BytesWritten n)))"
  using assms(2)
  by (cases rule: source_cases) (auto simp: after_defs rust_defs)

lemma dest_frame:
  assumes "pf_ops pf = ops" and "try_splice_to_dest pf w c e = Val (res, c', e')"
  shows "bytes_read c' = bytes_read c \<and> size_to_splice c' = size_to_splice c \<and>
    fill_fd (pipe c') = fill_fd (pipe c) \<and> pipe_size (pipe c') = pipe_size (pipe c) \<and>
    off_in (offset c') = off_in (offset c) \<and>
    (bytes_written c' \<noteq> bytes_written c \<longrightarrow> (\<exists>n. res = Ok (BytesWritten n)))"
  using assms(2)
  by (cases rule: dest_cases) (auto simp: after_defs rust_defs)

text \<open>An attempt that made its call and failed stores the new offset and nothing else.\<close>

lemma source_error_offset:
  assumes ops: "pf_ops pf = ops" and "try_splice_from_source pf r c e = Val (Err er, c', e')"
  shows "\<exists>d m off' s'. splice_in ops (splicer c) r (off_in (offset c)) d m e
      = Val (Err er, off', s', e') \<and> off_in (offset c') = off' \<and>
    c' = c\<lparr>splicer := s', offset := offset c'\<rparr>"
  using assms(2)
proof (cases rule: source_cases)
  case (Failed d m er' off' s')
  then have call: "splice_in ops (splicer c) r (off_in (offset c)) d m e = Val (Err er, off', s', e')"
    by (simp add: ops)
  moreover have "off_in (offset c') = off'" using loan_in [OF call] Failed(4) by (simp add: after_defs)
  moreover have "c' = c\<lparr>splicer := s', offset := offset c'\<rparr>" using Failed(4) by (simp add: after_defs)
  ultimately show ?thesis by blast
qed simp_all

end

text \<open>
  The \<open>unreachable!()\<close> of the fill arm is unreachable: \<open>NoProgress\<close> never comes out of a fill
  attempt, through any \<open>try_io\<close>.
\<close>

lemma source_not_idle:
  assumes "try_splice_from_source pf r c e = Val (res, c', e')"
  shows "res \<noteq> Ok NoProgress"
  using assms by (cases rule: source_cases) auto

context try_io_iface
begin

lemma fill_arm_total:
  assumes "t (try_splice_from_source pf r) c e = Val (res, c', e')"
  shows "\<exists>st. after_fill res c' = Val st"
proof -
  have "res \<noteq> Ok NoProgress"
    by (rule lift_result [OF assms]) (auto dest: source_not_idle)
  then show ?thesis
    by (cases res) (auto simp: after_fill_def split: splice_outcome.splits)
qed

end

section \<open>The build profile\<close>

text \<open>
  Under the invariant no counter operation overflows, so an attempt is the same with and without
  overflow checks.
\<close>

lemma source_profile:
  assumes moves: "splicer_moves (pf_ops pf) P r w pw pr" and inv: "ctx_inv P pw pr off0 T S D c e"
  shows "try_splice_from_source (pf\<lparr>pf_profile := q\<rparr>) r c e = try_splice_from_source pf r c e"
proof -
  have le: "bytes_read c \<le> size_to_splice c" using ctx_invD(1) [OF inv] by (simp add: counts_ok_def)
  have same: "close_source (pf\<lparr>pf_profile := q\<rparr>) = close_source pf"
    by (simp add: close_source_def fun_eq_iff)
  show ?thesis
  proof (cases "bytes_read c = size_to_splice c \<or> fill_fd (pipe c) = None")
    case True
    then show ?thesis using le same by (auto simp: try_splice_from_source_def)
  next
    case False
    then have "fill_fd (pipe c) = Some pw"
      using ctx_invD(2) [OF inv] by (auto simp: ends_ok_def)
    moreover obtain res off' s' e1 where
      "splice_in (pf_ops pf) (splicer c) r (off_in (offset c)) pw
        (size_to_splice c - bytes_read c) e = Val (res, off', s', e1)"
      "moved_in P (off_in (offset c)) e (size_to_splice c - bytes_read c) res off' e1"
      by (rule splicer_moves_in [OF moves])
    moreover from this(2) have "res = Ok n \<Longrightarrow> n \<le> size_to_splice c - bytes_read c" for n
      by (simp add: moved_in_def)
    ultimately show ?thesis
      using le False same
      by (cases res) (simp_all add: try_splice_from_source_def Let_def bytes_read_def
          usize_add_room [OF le [unfolded bytes_read_def]])
  qed
qed

lemma dest_profile:
  assumes moves: "splicer_moves (pf_ops pf) P r w pw pr" and inv: "ctx_inv P pw pr off0 T S D c e"
  shows "try_splice_to_dest (pf\<lparr>pf_profile := q\<rparr>) w c e = try_splice_to_dest pf w c e"
proof -
  have le: "bytes_written c \<le> bytes_read c" using ctx_invD(1) [OF inv] by (simp add: counts_ok_def)
  have same: "close_dest (pf\<lparr>pf_profile := q\<rparr>) = close_dest pf"
    by (simp add: close_dest_def fun_eq_iff)
  show ?thesis
  proof (cases "bytes_read c = bytes_written c \<or> drain_fd (pipe c) = None")
    case True
    then show ?thesis using le same by (auto simp: try_splice_to_dest_def)
  next
    case False
    then have "drain_fd (pipe c) = Some pr"
      using ctx_invD(2) [OF inv] by (auto simp: ends_ok_def)
    moreover obtain res off' s' e1 where
      "splice_out (pf_ops pf) (splicer c) pr w (off_out (offset c))
        (bytes_read c - bytes_written c) e = Val (res, off', s', e1)"
      "moved_out P (off_out (offset c)) e (bytes_read c - bytes_written c) res off' e1"
      by (rule splicer_moves_out [OF moves])
    moreover from this(2) have "res = Ok n \<Longrightarrow> n \<le> bytes_read c - bytes_written c" for n
      by (simp add: moved_out_def)
    ultimately show ?thesis
      using le False same
      by (cases res) (simp_all add: try_splice_to_dest_def Let_def bytes_written_def
          usize_add_room [OF le [unfolded bytes_written_def]])
  qed
qed

section \<open>The pipe predicates\<close>

lemma pipe_predicates:
  assumes inv: "ctx_inv P pw pr off0 T S D c e"
  shows "pipe_has_data c \<longleftrightarrow> v_buf P e \<noteq> []"
    and "pipe_is_full prof c =
      Val (unat (nz_get (pipe_size (pipe c))) \<le> length (v_buf P e))"
proof -
  have le: "bytes_written c \<le> bytes_read c" using ctx_invD(1) [OF inv] by (simp add: counts_ok_def)
  have len: "length (v_buf P e) = unat (bytes_read c) - unat (bytes_written c)"
    by (rule stream_rel_buf_length [OF ctx_invD(3) [OF inv]])
  have "v_buf P e \<noteq> [] \<longleftrightarrow> 0 < length (v_buf P e)" by simp
  then show "pipe_has_data c \<longleftrightarrow> v_buf P e \<noteq> []"
    by (simp add: len pipe_has_data_def word_less_nat_alt)
  have "unat (bytes_read c - bytes_written c) = length (v_buf P e)"
    using le by (simp add: len word_le_nat_alt unat_sub)
  then show "pipe_is_full prof c = Val (unat (nz_get (pipe_size (pipe c))) \<le> length (v_buf P e))"
    using le by (simp add: pipe_is_full_def word_le_nat_alt)
qed

section \<open>Cancellation\<close>

text \<open>Dropping the future between two polls, as a timeout does, closes exactly its own ends.\<close>

lemma cancel_accounted:
  assumes acc: "accounted pf r w park opened base (ctx io) e"
    and run: "poll_execute pf r w (io, e) = Some (Val (x, io', e'))"
  shows "accounted pf r w park opened base (ctx io') e'"
    and "opened (drop_ctx (pf_os pf) (ctx io') e') = base"
  by (rule account.poll_kept [OF acc run])
    (rule accounted_drop [OF account.poll_kept [OF acc run]])

section \<open>Where the code panics\<close>

text \<open>
  Once the source has ended before the target was reached, the fill end is gone and filling again is
  a panic, in every build and on every platform.  Two things send the state machine back to \<open>Fill\<close>
  after that: a write that moves nothing although data is queued, and a writer that would block
  although the pipe is empty.
\<close>

lemma fill_after_end_panics:
  assumes st: "state io = Fill" and over: "is_source_done (ctx io)"
    and short: "bytes_read (ctx io) < size_to_splice (ctx io)"
    and ready: "rd_poll_ready r e = (Ready (Ok ()), e1)"
    and call: "rd_try_io r (try_splice_from_source pf (rd_fd r)) (ctx io) e1
      = try_splice_from_source pf (rd_fd r) (ctx io) e2"
  shows "poll_execute pf r w (io, e) = Some (Panic Expect_None)"
proof -
  have "usize_sub (pf_profile pf) (size_to_splice (ctx io)) (bytes_read (ctx io))
      = Val (size_to_splice (ctx io) - bytes_read (ctx io))"
    using short by (simp add: usize_sub_def not_less less_imp_le)
  moreover have "fill_fd (pipe (ctx io)) = None"
    using over by (simp add: is_source_done_def is_fill_done_def fill_fd_def)
  ultimately have "try_splice_from_source pf (rd_fd r) (ctx io) e2 = Panic Expect_None"
    using short by (auto simp: try_splice_from_source_def)
  then show ?thesis by (simp add: poll_execute_def drive_Break st ready call)
qed

lemma zero_write_panics:
  assumes st: "state io = Drain" and over: "is_source_done (ctx io)"
    and short: "bytes_read (ctx io) < size_to_splice (ctx io)"
    and data: "bytes_written (ctx io) < bytes_read (ctx io)" and d: "drain_fd (pipe (ctx io)) = Some d"
    and ready: "wr_poll_ready w e = (Ready (Ok ()), e1)"
    and call: "wr_try_io w (try_splice_to_dest pf (wr_fd w)) (ctx io) e1
      = try_splice_to_dest pf (wr_fd w) (ctx io) e2"
    and zero: "splice_out (pf_ops pf) (splicer (ctx io)) d (wr_fd w) (off_out (offset (ctx io)))
        (bytes_read (ctx io) - bytes_written (ctx io)) e2 = Val (Ok 0, off', s', e3)"
    and again: "rd_poll_ready r e3 = (Ready (Ok ()), e4)"
    and read: "\<And>c. rd_try_io r (try_splice_from_source pf (rd_fd r)) c e4
      = try_splice_from_source pf (rd_fd r) c e5"
  shows "poll_execute pf r w (io, e) = Some (Panic Expect_None)"
proof -
  let ?c = "after_out (ctx io) s' off'"
  have "try_splice_to_dest pf (wr_fd w) (ctx io) e2 = Val (Ok NoProgress, ?c, e3)"
    using data by (auto simp: try_splice_to_dest_def usize_sub_def d zero after_out_def not_less less_imp_le)
  then have "poll_step pf r w (io, e) = Continue (io\<lparr>ctx := ?c, state := Fill\<rparr>, e3)"
    by (simp add: st ready call after_drain_def)
  then have "poll_execute pf r w (io, e) = poll_execute pf r w (io\<lparr>ctx := ?c, state := Fill\<rparr>, e3)"
    unfolding poll_execute_def by (rule drive_Continue)
  also have "\<dots> = Some (Panic Expect_None)"
    by (rule fill_after_end_panics [OF _ _ _ again read])
      (use over short in \<open>simp_all add: after_out_def rust_defs\<close>)
  finally show ?thesis .
qed

lemma blocked_end_panics:
  assumes st: "state io = Drain" and over: "is_source_done (ctx io)"
    and short: "bytes_read (ctx io) < size_to_splice (ctx io)"
    and empty: "bytes_written (ctx io) = bytes_read (ctx io)"
    and ready: "wr_poll_ready w e = (Ready (Ok ()), e1)"
    and blocked: "wr_try_io w (try_splice_to_dest pf (wr_fd w)) (ctx io) e1
      = Val (Err er, ctx io, e2)" and er: "would_block er"
    and again: "rd_poll_ready r e2 = (Ready (Ok ()), e3)"
    and read: "rd_try_io r (try_splice_from_source pf (rd_fd r)) (ctx io) e3
      = try_splice_from_source pf (rd_fd r) (ctx io) e4"
  shows "poll_execute pf r w (io, e) = Some (Panic Expect_None)"
proof -
  have "poll_step pf r w (io, e) = Continue (io\<lparr>ctx := ctx io, state := Fill\<rparr>, e2)"
    using empty er by (simp add: st ready blocked after_drain_def pipe_has_data_def)
  then have "poll_execute pf r w (io, e)
      = poll_execute pf r w (io\<lparr>ctx := ctx io, state := Fill\<rparr>, e2)"
    unfolding poll_execute_def by (rule drive_Continue)
  also have "\<dots> = Some (Panic Expect_None)"
    by (rule fill_after_end_panics [OF _ _ _ again]) (use over short read in simp_all)
  finally show ?thesis .
qed

end
