(* ===== verification/Profile.thy ===== *)
theory Profile
  imports Ctx_Facts Entry
begin

text \<open>
  Builds with and without overflow checks run every transfer in the same way, from one attempt up
  to \<open>execute\<close>: the two loops agree wherever their invariant holds.
\<close>

lemma attempts_profile_independent:
  assumes "splicer_moves (pf_ops pf) P r w pw pr" and "ctx_inv P pw pr off0 T S D c e"
  shows "try_splice_from_source (pf\<lparr>pf_profile := q\<rparr>) r c e = try_splice_from_source pf r c e \<and>
    try_splice_to_dest (pf\<lparr>pf_profile := q\<rparr>) w c e = try_splice_to_dest pf w c e"
  using source_profile [OF assms] dest_profile [OF assms] by (rule conjI)

text \<open>
  \<open>try_io\<close> takes a closure it can only call: whether and in which state it calls it cannot depend on
  what the closure would do, only what it makes of the result can.
\<close>

definition calls_blindly ::
    "('e \<Rightarrow> 'e \<Rightarrow> bool) \<Rightarrow> (('s, 'e) attempt \<Rightarrow> ('s, 'e) attempt) \<Rightarrow> bool" where
  "calls_blindly R t \<longleftrightarrow>
     (\<forall>c e. (\<exists>er e'. \<forall>f. t f c e = Val (Err er, c, e')) \<or>
            (\<exists>e1 g. R e e1 \<and> (\<forall>f. t f c e = g (f c e1))))"

lemma calls_blindly_same:
  assumes "calls_blindly R t" and "\<And>e1. R e e1 \<Longrightarrow> f c e1 = f' c e1"
  shows "t f c e = t f' c e"
proof -
  from assms(1) consider er e' where "\<And>f. t f c e = Val (Err er, c, e')"
    | e1 g where "R e e1" "\<And>f. t f c e = g (f c e1)"
    unfolding calls_blindly_def by metis
  then show ?thesis
  proof cases
    case 1
    then show ?thesis by simp
  next
    case 2
    with assms(2) show ?thesis by simp
  qed
qed

lemma bare_call_blind: "calls_blindly (same_view P) (\<lambda>f :: ('s, 'e) attempt. f)"
  unfolding calls_blindly_def
proof (intro allI disjI2)
  fix c :: "'s splice_ctx" and e :: 'e
  show "\<exists>e1 g. same_view P e e1 \<and> (\<forall>f :: ('s, 'e) attempt. f c e = g (f c e1))"
    by (rule exI [of _ e], rule exI [of _ "\<lambda>x. x"]) simp
qed

definition blind_env :: "'e probe \<Rightarrow> ('s, 'e) reader \<Rightarrow> ('s, 'e) writer \<Rightarrow> bool" where
  "blind_env P r w \<longleftrightarrow>
     calls_blindly (same_view P) (rd_try_io r) \<and> calls_blindly (same_view P) (wr_try_io w)"

lemma poll_step_profile:
  assumes env: "transfer_env pf P r w pw pr" and inv: "io_inv P pw pr off0 T S D io e"
    and blind: "blind_env P r w"
  shows "poll_step (pf\<lparr>pf_profile := q\<rparr>) r w (io, e) = poll_step pf r w (io, e)"
proof -
  let ?pf = "pf\<lparr>pf_profile := q\<rparr>"
  have moves: "splicer_moves (pf_ops pf) P (rd_fd r) (wr_fd w) pw pr"
    using env by (simp add: transfer_env_def)
  have ci: "ctx_inv P pw pr off0 T S D (ctx io) e2" if "same_view P e e1" "same_view P e1 e2" for e1 e2
    using inv that by (simp add: io_inv_def ctx_inv_same_view [OF that(2)] ctx_inv_same_view [OF that(1)])
  show ?thesis
  proof (cases "state io")
    case Fill
    obtain x e1 where poll: "rd_poll_ready r e = (x, e1)" by (cases "rd_poll_ready r e")
    have view: "same_view P e e1"
      using env poll by (auto simp: transfer_env_def dest: reader_okD(1) poll_keepsD)
    have "rd_try_io r (try_splice_from_source ?pf (rd_fd r)) (ctx io) e1
        = rd_try_io r (try_splice_from_source pf (rd_fd r)) (ctx io) e1"
      by (rule calls_blindly_same [where R = "same_view P"])
        (use blind in \<open>simp_all add: blind_env_def source_profile [OF moves ci [OF view]]\<close>)
    with Fill poll show ?thesis by (simp split: poll.splits result.splits)
  next
    case Drain
    obtain x e1 where poll: "wr_poll_ready w e = (x, e1)" by (cases "wr_poll_ready w e")
    have view: "same_view P e e1"
      using env poll by (auto simp: transfer_env_def dest: writer_okD(1) poll_keepsD)
    have "wr_try_io w (try_splice_to_dest ?pf (wr_fd w)) (ctx io) e1
        = wr_try_io w (try_splice_to_dest pf (wr_fd w)) (ctx io) e1"
      by (rule calls_blindly_same [where R = "same_view P"])
        (use blind in \<open>simp_all add: blind_env_def dest_profile [OF moves ci [OF view]]\<close>)
    with Drain poll show ?thesis by (simp split: poll.splits result.splits)
  next
    case (Finished error)
    then show ?thesis by simp
  qed
qed

lemma poll_execute_profile:
  assumes "transfer_env pf P r w pw pr" "io_inv P pw pr off0 T S D io e" and "blind_env P r w"
  shows "poll_execute (pf\<lparr>pf_profile := q\<rparr>) r w (io, e) = poll_execute pf r w (io, e)"
  unfolding poll_execute_def
proof (rule poll_loop.drive_same [of pf P r w pw pr off0 T S D])
  show "poll_step (pf\<lparr>pf_profile := q\<rparr>) r w st = poll_step pf r w st"
    if "loop_state_ok pf P r w pw pr off0 T S D st" for st
  proof -
    obtain io1 e1 where st: "st = (io1, e1)" by (cases st)
    with that have "transfer_env pf P r w pw pr" "io_inv P pw pr off0 T S D io1 e1" by simp_all
    then show ?thesis unfolding st using assms(3) by (rule poll_step_profile)
  qed
qed (use assms in simp)

lemma execute_profile:
  assumes env: "transfer_env pf P r w pw pr" and inv: "io_inv P pw pr off0 T S D io e"
    and blind: "blind_env P r w" and park: "park_keeps P park"
  shows "execute (pf\<lparr>pf_profile := q\<rparr>) r w park io e = execute pf r w park io e"
proof -
  have "drive (await_step (poll_execute (pf\<lparr>pf_profile := q\<rparr>) r w) (park_state park)) (io, e)
      = drive (await_step (poll_execute pf r w) (park_state park)) (io, e)"
  proof (rule exec_loop.drive_same [of pf P r w park pw pr off0 T S D])
    show "await_step (poll_execute (pf\<lparr>pf_profile := q\<rparr>) r w) (park_state park) st
        = await_step (poll_execute pf r w) (park_state park) st"
      if "exec_ok pf P r w park pw pr off0 T S D st" for st
    proof -
      obtain io1 e1 where st: "st = (io1, e1)" by (cases st)
      have "transfer_env pf P r w pw pr" "io_inv P pw pr off0 T S D io1 e1"
        using that by (simp_all add: st exec_ok_def)
      then have "poll_execute (pf\<lparr>pf_profile := q\<rparr>) r w st = poll_execute pf r w st"
        unfolding st using blind by (rule poll_execute_profile)
      then show ?thesis by (simp add: await_step_def)
    qed
  qed (use env inv park in \<open>simp add: exec_ok_def\<close>)
  then show ?thesis by (simp add: execute_as_await)
qed

section \<open>The entry points\<close>

lemma live_platform_profile: "live_platform q os = (live_platform prof os)\<lparr>pf_profile := q\<rparr>"
  by (simp add: live_platform_def)

lemma run_from_profile:
  assumes kern: "kernel_ok os P r w pw pr" and blind: "blind_env P r w" and park: "park_keeps P park"
    and new: "pipe_new os e = (Ok p, e1)" and ends: "drain_fd p = Some pr \<and> fill_fd p = Some pw"
    and c: "c = (new_ctx Live p)\<lparr>offset := off0, size_to_splice := T\<rparr>"
  shows "run_from q os r w park (Ok c, e1) = run_from prof os r w park (Ok c, e1)"
proof -
  have starts: "pipe_starts_empty os P pw pr" using kern by (simp add: kernel_ok_def)
  have "v_buf P e1 = []"
    using pipe_new_empty [OF starts new] ends by (simp add: drain_fd_def fill_fd_def)
  then have inv: "io_inv P pw pr off0 T (v_src P (off_in off0) e1) (v_dst P (off_out off0) e1)
      (io_from c) e1"
    using ends by (intro io_inv_fresh) (simp_all add: c new_ctx_def rust_defs)
  from execute_profile [OF kernel_ok_transfer_env [OF kern] inv blind park]
  show ?thesis by (simp add: run_from_def live_platform_profile [of q os prof])
qed

lemma entry_profile:
  assumes kern: "kernel_ok os P r w pw pr" and blind: "blind_env P r w" and park: "park_keeps P park"
    and made: "\<And>p e1. pipe_new os e = (Ok p, e1) \<Longrightarrow> drain_fd p = Some pr \<and> fill_fd p = Some pw"
  shows "copy q os r w park e = copy prof os r w park e"
    and "sendfile q os r w park f_len s t e = sendfile prof os r w park f_len s t e"
proof -
  note run = run_from_profile [OF kern blind park]
  show "copy q os r w park e = copy prof os r w park e"
  proof (cases "pipe_new os e")
    case (Pair x e1)
    show ?thesis
    proof (cases x)
      case (Ok p)
      note new = Pair [unfolded Ok]
      have "new_ctx Live p = (new_ctx Live p)\<lparr>offset := Off_None, size_to_splice := ISIZE_MAX\<rparr>"
        by (simp add: new_ctx_def)
      from run [OF new made [OF new] this] new show ?thesis
        by (simp add: copy_def ctx_new_def ctx_new_inner_def)
    qed (use Pair in \<open>simp add: copy_def ctx_new_def ctx_new_inner_def run_from_def\<close>)
  qed
  show "sendfile q os r w park f_len s t e = sendfile prof os r w park f_len s t e"
  proof (cases "calc_size_to_splice f_len s t")
    case (Err er)
    then show ?thesis by (simp add: sendfile_def ctx_with_input_file_def ctx_with_file_def run_from_def)
  next
    case range: (Ok len)
    show ?thesis
    proof (cases "pipe_new os e")
      case (Pair x e1)
      show ?thesis
      proof (cases x)
        case (Ok p)
        note new = Pair [unfolded Ok]
        from run [OF new made [OF new] refl, where q = q and prof = prof and T = len
            and ?off0.0 = "Off_In (unwrap_or s 0)"] new range
        show ?thesis
          by (simp add: sendfile_def ctx_with_input_file_def ctx_with_file_def ctx_new_inner_def)
      qed (use Pair range in \<open>simp add: sendfile_def ctx_with_input_file_def ctx_with_file_def
          ctx_new_inner_def run_from_def\<close>)
    qed
  qed
qed

end
