(* ===== verification/Stream_Spec.thy ===== *)
theory Stream_Spec
  imports Poll_Correct Attempt_Cases
begin

text \<open>
  The abstract transfer: a stream that is read into a queue and written out of it, with the
  phases of \<open>TransferState\<close> but without descriptors, counters or system calls.  Every round of
  \<open>poll_execute\<close> is a step of it, so what holds of its runs holds of the code.
\<close>

section \<open>The abstract machine\<close>

datatype aview = View
  (a_phase: transfer_state) (a_src: "byte list") (a_buf: "byte list") (a_dst: "byte list")
  (a_quota: nat) (a_closed: bool)

inductive astep :: "aview \<Rightarrow> aview \<Rightarrow> bool" where
  A_Read: "xs \<noteq> [] \<Longrightarrow> length xs \<le> q \<Longrightarrow>
     astep (View Fill (xs @ s) b d q False) (View Fill s (b @ xs) d (q - length xs) False)"
| A_End: "s = [] \<or> q = 0 \<Longrightarrow> astep (View Fill s b d q cl) (View Drain s b d q True)"
| A_Block: "astep (View Fill s b d q cl) (View Fill s b d q cl)"
| A_Turn: "b \<noteq> [] \<Longrightarrow> astep (View Fill s b d q cl) (View Drain s b d q cl)"
| A_Read_Fault: "astep (View Fill s b d q cl) (View (Finished (Some er)) s b d q cl)"
| A_Write: "ys \<noteq> [] \<Longrightarrow>
     astep (View Drain s (ys @ b) d q cl) (View Drain s b (d @ ys) q cl)"
| A_Empty: "astep (View Drain s [] d q False) (View Fill s [] d q False)"
| A_Stall: "b \<noteq> [] \<Longrightarrow> astep (View Drain s b d q cl) (View Drain s b d q cl)"
| A_Done: "astep (View Drain s [] d q True) (View (Finished None) s [] d q True)"
| A_Write_Fault: "b \<noteq> [] \<Longrightarrow>
     astep (View Drain s b d q cl) (View (Finished (Some er)) s b d q cl)"

inductive_cases astep_finishedE: "astep (View (Finished er) s b d q cl) a'"

inductive_simps astep_done_iff: "astep a (View (Finished None) s b d q cl)"

text \<open>A transfer that is over makes no further step.\<close>

lemma astep_finished_final: "\<not> astep (View (Finished er) s b d q cl) a'"
  by (auto elim: astep_finishedE)

text \<open>
  Conservation: what is delivered, queued and still to come is one stream, and no step cuts,
  duplicates or reorders it.
\<close>

definition whole :: "aview \<Rightarrow> byte list" where
  "whole a = a_dst a @ a_buf a @ a_src a"

lemma astep_conserves: "astep a a' \<Longrightarrow> whole a' = whole a"
  by (induction rule: astep.induct) (auto simp: whole_def)

lemma run_conserves: "astep\<^sup>*\<^sup>* a a' \<Longrightarrow> whole a' = whole a"
  by (induction rule: rtranclp_induct) (auto dest: astep_conserves)

lemma astep_grows: "astep a a' \<Longrightarrow> \<exists>ys. a_dst a' = a_dst a @ ys"
  by (induction rule: astep.induct) auto

lemma run_grows: "astep\<^sup>*\<^sup>* a a' \<Longrightarrow> \<exists>ys. a_dst a' = a_dst a @ ys"
proof (induction rule: rtranclp_induct)
  case base
  show ?case by (rule exI [of _ "[]"]) simp
next
  case (step y z)
  then show ?case by (auto dest!: astep_grows)
qed

text \<open>What holds in every reachable view of a transfer of at most \<open>T\<close> bytes of \<open>S\<close>.\<close>

definition aview_ok :: "byte list \<Rightarrow> byte list \<Rightarrow> nat \<Rightarrow> aview \<Rightarrow> bool" where
  "aview_ok S D T a \<longleftrightarrow>
     (\<exists>k. k \<le> length S \<and> k \<le> T \<and> a_src a = drop k S \<and> a_quota a = T - k \<and>
        a_dst a @ a_buf a = D @ take k S) \<and>
     (a_closed a \<longrightarrow> a_src a = [] \<or> a_quota a = 0) \<and>
     (a_phase a = Finished None \<longrightarrow> a_closed a \<and> a_buf a = [])"

lemma aview_okI:
  "k \<le> length S \<Longrightarrow> k \<le> T \<Longrightarrow> s = drop k S \<Longrightarrow> q = T - k \<Longrightarrow> d @ b = D @ take k S \<Longrightarrow>
     (cl \<Longrightarrow> s = [] \<or> q = 0) \<Longrightarrow> (ph = Finished None \<Longrightarrow> cl \<and> b = []) \<Longrightarrow>
     aview_ok S D T (View ph s b d q cl)"
  by (auto simp: aview_ok_def)

lemma astep_ok:
  assumes "astep a a'" and "aview_ok S D T a"
  shows "aview_ok S D T a'"
  using assms
proof (induction rule: astep.induct)
  case (A_Read xs q s b d)
  then obtain k where k: "k \<le> length S" "k \<le> T" "xs @ s = drop k S" "q = T - k"
    "d @ b = D @ take k S"
    by (auto simp: aview_ok_def)
  have len: "k + length xs \<le> length S"
    using arg_cong [OF k(3), of length] k(1) by simp
  have xs: "xs = take (length xs) (drop k S)" and s: "s = drop (length xs) (drop k S)"
    by (simp_all add: k(3) [symmetric])
  show ?case
  proof (rule aview_okI [of "k + length xs"])
    show "d @ b @ xs = D @ take (k + length xs) S"
      using k(5) xs by (simp add: take_add)
  qed (use len k s A_Read in \<open>simp_all add: add.commute\<close>)
qed (auto simp: aview_ok_def)

lemma run_ok: "astep\<^sup>*\<^sup>* a a' \<Longrightarrow> aview_ok S D T a \<Longrightarrow> aview_ok S D T a'"
  by (induction rule: rtranclp_induct) (auto intro: astep_ok)

lemma run_finished:
  assumes "astep\<^sup>*\<^sup>* (View Fill S [] D T False) (View (Finished None) s b d q cl)"
  shows "d = D @ take (min T (length S)) S" and "b = []"
proof -
  have "aview_ok S D T (View Fill S [] D T False)" by (rule aview_okI [of 0]) simp_all
  from run_ok [OF assms this] obtain k where k: "k \<le> length S" "k \<le> T" "s = drop k S" "q = T - k"
    "d @ b = D @ take k S" and cl: "cl" "b = []" and e: "s = [] \<or> q = 0"
    by (auto simp: aview_ok_def)
  from e k have "k = min T (length S)" by auto
  with k(5) cl show "d = D @ take (min T (length S)) S" and "b = []" by simp_all
qed

section \<open>The code refines it\<close>

definition aview_of :: "'e probe \<Rightarrow> 's splice_io \<Rightarrow> 'e \<Rightarrow> aview" where
  "aview_of P io e =
     View (state io) (src_of P (ctx io) e) (v_buf P e) (dst_of P (ctx io) e)
       (unat (size_to_splice (ctx io)) - unat (bytes_read (ctx io))) (is_source_done (ctx io))"

text \<open>Under the invariant the view is a function of the counters.\<close>

lemma aview_of_inv:
  assumes "ctx_inv P pw pr off0 T S D (ctx io) e"
  shows "aview_of P io e =
    View (state io) (drop (unat (bytes_read (ctx io))) S)
      (drop (unat (bytes_written (ctx io))) (take (unat (bytes_read (ctx io))) S))
      (D @ take (unat (bytes_written (ctx io))) S) (unat T - unat (bytes_read (ctx io)))
      (is_source_done (ctx io))"
  using ctx_invD(3,7) [OF assms] by (simp add: aview_of_def stream_rel_def)

lemma aview_of_same_view:
  "same_view P e e' \<Longrightarrow> aview_of P io e' = aview_of P io e"
  by (simp add: aview_of_def same_view_def src_of_def dst_of_def)

lemma read_split:
  "R + n \<le> length S \<Longrightarrow> W \<le> R \<Longrightarrow>
     drop R S = take n (drop R S) @ drop (R + n) S \<and>
     drop W (take (R + n) S) = drop W (take R S) @ take n (drop R S)"
  using append_take_drop_id [of n "drop R S"] by (simp add: take_add add.commute)

lemma write_split:
  "W + n \<le> R \<Longrightarrow> R \<le> length S \<Longrightarrow>
     drop W (take R S) = take n (drop W S) @ drop (W + n) (take R S) \<and>
     take (W + n) S = take W S @ take n (drop W S)"
proof -
  assume le: "W + n \<le> R" "R \<le> length S"
  have "drop W (take R S) = take n (drop W (take R S)) @ drop n (drop W (take R S))"
    by (rule append_take_drop_id [symmetric])
  also have "take n (drop W (take R S)) = take n (drop W S)"
    using le by (simp add: drop_take min_def)
  finally have "drop W (take R S) = take n (drop W S) @ drop (W + n) (take R S)"
    by (simp only: drop_drop add.commute)
  then show ?thesis by (simp add: take_add)
qed

lemma fill_refines:
  assumes inv: "io_inv P pw pr off0 T S D io e" and st: "state io = Fill"
    and inv': "ctx_inv P pw pr off0 T S D c' e'"
    and eff: "fill_effect (ctx io) res c' \<or> ((\<exists>er. res = Err er) \<and> c' = ctx io)"
    and nxt: "after_fill res c' = Val ph"
  shows "astep (aview_of P io e) (aview_of P (io\<lparr>ctx := c', state := ph\<rparr>) e')"
proof -
  let ?c = "ctx io" and ?R = "unat (bytes_read (ctx io))" and ?W = "unat (bytes_written (ctx io))"
  have ci: "ctx_inv P pw pr off0 T S D ?c e" and so: "state_ok io"
    using inv by (simp_all add: io_inv_def)
  have R: "?R \<le> length S" "?W \<le> ?R" "?R \<le> unat T"
    using ctx_invD(1,3,7) [OF ci] by (simp_all add: stream_rel_def counts_ok_def word_le_nat_alt)
  note view = aview_of_inv [OF ci] st
  have view': "aview_of P (io\<lparr>ctx := c', state := ph\<rparr>) e' = View ph (drop (unat (bytes_read c')) S)
      (drop (unat (bytes_written c')) (take (unat (bytes_read c')) S))
      (D @ take (unat (bytes_written c')) S) (unat T - unat (bytes_read c')) (is_source_done c')"
    using aview_of_inv [of P pw pr off0 T S D "io\<lparr>ctx := c', state := ph\<rparr>" e'] inv' by simp
  consider (moved) n where "res = Ok (BytesWritten n)" "ph = Fill" "n \<noteq> 0"
      "n \<le> size_to_splice ?c - bytes_read ?c" "bytes_read c' = bytes_read ?c + n"
      "bytes_written c' = bytes_written ?c" "pipe c' = pipe ?c"
    | (closed) "ph = Drain" "is_source_done c'" "bytes_read c' = bytes_read ?c"
      "bytes_written c' = bytes_written ?c"
    | (failed) "bytes_read c' = bytes_read ?c" "bytes_written c' = bytes_written ?c"
      "pipe c' = pipe ?c"
      "ph = Fill \<or> ph = Drain \<and> pipe_has_data c' \<or> (\<exists>er. ph = Finished (Some er))"
    using eff nxt
    by (auto simp: fill_effect_def after_fill_def faulted_def
        split: result.splits splice_outcome.splits if_splits)
  then show ?thesis
  proof cases
    case moved
    have T: "size_to_splice ?c = T" by (rule ctx_invD(7) [OF ci])
    have le: "bytes_read ?c \<le> T" using R(3) by (simp add: word_le_nat_alt)
    have R': "unat (bytes_read c') = ?R + unat n"
      using unat_add_room [OF le] moved(4,5) T by simp
    have len: "?R + unat n \<le> length S"
      using ctx_invD(3) [OF inv'] by (simp add: stream_rel_def R')
    have quota: "unat n \<le> unat T - ?R"
      using moved(4) le T by (simp add: word_le_nat_alt unat_sub)
    have n: "0 < unat n" using moved(3) by (simp add: unat_gt_0)
    have open_end: "\<not> is_source_done ?c"
    proof
      assume "is_source_done ?c"
      then have "?R = unat T" using so st T by (simp add: state_ok_def)
      with quota n show False by simp
    qed
    then have cl: "\<not> is_source_done c'" by (simp add: is_source_done_def moved(7))
    let ?xs = "take (unat n) (drop ?R S)"
    have xs: "?xs \<noteq> []" "length ?xs = unat n" using n len by auto
    show ?thesis
      unfolding view view' unfolding R' moved(2,6)
      using A_Read [of ?xs "unat T - ?R" "drop (?R + unat n) S" "drop ?W (take ?R S)"
          "D @ take ?W S"] read_split [OF len R(2)] xs quota cl open_end
      by (simp add: diff_diff_left)
  next
    case closed
    have "exhausted S c'" using ctx_invD(4) [OF inv' closed(2)] .
    then have "drop ?R S = [] \<or> unat T - ?R = 0"
      using ctx_invD(7) [OF inv'] closed(3) by (auto simp: exhausted_def)
    with closed show ?thesis unfolding view view' by (simp add: A_End)
  next
    case failed
    have data: "pipe_has_data c' \<Longrightarrow> drop ?W (take ?R S) \<noteq> []"
      using failed(1,2) R by (auto simp: pipe_has_data_def word_less_nat_alt)
    have cl: "is_source_done c' = is_source_done ?c" by (simp add: is_source_done_def failed(3))
    from failed(4) data show ?thesis
      unfolding view view' failed(1,2) cl by (auto intro: astep.intros)
  qed
qed

lemma drain_refines:
  assumes inv: "io_inv P pw pr off0 T S D io e" and st: "state io = Drain"
    and inv': "ctx_inv P pw pr off0 T S D c' e'"
    and eff: "drain_effect (ctx io) res c'"
  shows "astep (aview_of P io e) (aview_of P (io\<lparr>ctx := c', state := after_drain res c'\<rparr>) e')"
proof -
  let ?c = "ctx io" and ?R = "unat (bytes_read (ctx io))" and ?W = "unat (bytes_written (ctx io))"
  let ?ph = "after_drain res c'"
  have ci: "ctx_inv P pw pr off0 T S D ?c e" using inv by (simp add: io_inv_def)
  have R: "?R \<le> length S" "?W \<le> ?R"
    using ctx_invD(1,3) [OF ci] by (simp_all add: stream_rel_def counts_ok_def word_le_nat_alt)
  note view = aview_of_inv [OF ci] st
  have view': "aview_of P (io\<lparr>ctx := c', state := ?ph\<rparr>) e' = View ?ph (drop (unat (bytes_read c')) S)
      (drop (unat (bytes_written c')) (take (unat (bytes_read c')) S))
      (D @ take (unat (bytes_written c')) S) (unat T - unat (bytes_read c')) (is_source_done c')"
    using aview_of_inv [of P pw pr off0 T S D "io\<lparr>ctx := c', state := ?ph\<rparr>" e'] inv' by simp
  have cl: "is_source_done c' = is_source_done ?c" and R': "bytes_read c' = bytes_read ?c"
    using eff by (simp_all add: drain_effect_def is_source_done_def is_fill_done_def fill_fd_def)
  have queue: "drop ?W (take ?R S) = [] \<longleftrightarrow> ?W = ?R" using R by auto
  have data: "pipe_has_data ?c \<longleftrightarrow> ?W < ?R" by (simp add: pipe_has_data_def word_less_nat_alt)
  show ?thesis
  proof (cases "\<exists>n. res = Ok (BytesWritten n)")
    case True
    then obtain n where res: "res = Ok (BytesWritten n)" by blast
    with eff have n: "n \<noteq> 0" "n \<le> bytes_read ?c - bytes_written ?c"
      "bytes_written c' = bytes_written ?c + n"
      by (simp_all add: drain_effect_def)
    have le: "bytes_written ?c \<le> bytes_read ?c" using R(2) by (simp add: word_le_nat_alt)
    have W': "unat (bytes_written c') = ?W + unat n"
      using unat_add_room [OF le n(2)] n(3) by simp
    have len: "?W + unat n \<le> ?R"
      using n(2) le by (simp add: word_le_nat_alt unat_sub)
    have "0 < unat n" using n(1) by (simp add: unat_gt_0)
    then have "take (unat n) (drop ?W S) \<noteq> []" using len R(1) by auto
    from A_Write [OF this] write_split [OF len R(1)] show ?thesis
      unfolding view view' unfolding W' R' cl by (simp add: after_drain_def res flip: append_assoc)
  next
    case False
    then have W': "bytes_written c' = bytes_written ?c"
      using eff by (auto simp: drain_effect_def split: result.splits splice_outcome.splits)
    from False eff consider "?ph = Finished None" "?W = ?R" "is_source_done ?c"
      | "?ph = Fill" "?W = ?R" "\<not> is_source_done ?c"
      | "?W < ?R" "?ph = Drain \<or> (\<exists>er. ?ph = Finished (Some er))"
      using cl R R' W'
      by (auto simp: drain_effect_def after_drain_def finished_def faulted_def pipe_has_data_def
          is_finished_def is_source_done_def word_less_nat_alt
          split: result.splits splice_outcome.splits if_splits)
    then show ?thesis
    proof cases
      case 3
      then have "drop ?W (take ?R S) \<noteq> []" using queue by simp
      from A_Stall [OF this] A_Write_Fault [OF this] 3(2) show ?thesis
        unfolding view view' unfolding W' R' cl by auto
    qed (unfold view view', unfold W' R' cl, use queue in \<open>simp_all add: A_Done A_Empty\<close>)
  qed
qed

text \<open>
  A round of the poll loop is a step of the abstract machine, so a whole poll is a run of it; a
  poll that hands an error out ends the run one step earlier, since the phase then forgets it.
\<close>

lemma round_refines:
  assumes env: "transfer_env pf P r w pw pr" and inv: "io_inv P pw pr off0 T S D io e"
    and run: "poll_step pf r w (io, e) = Continue (io', e')"
  shows "astep (aview_of P io e) (aview_of P io' e')"
proof (cases "state io")
  case Fill
  with env inv show ?thesis
  proof (cases rule: fill_polled)
    case (Left x e1)
    with run Fill show ?thesis by (auto split: poll.splits result.splits)
  next
    case (Tried e1 res c' e2)
    from run Fill Tried(1,4) obtain ph where "after_fill res c' = Val ph"
      and "io' = io\<lparr>ctx := c', state := ph\<rparr>" "e' = e2"
      by (auto split: comp.splits)
    with fill_refines [OF Tried(3) Fill Tried(5,6)] show ?thesis
      by (simp add: aview_of_same_view [OF Tried(2)])
  qed
next
  case Drain
  with env inv show ?thesis
  proof (cases rule: drain_polled)
    case (Left x e1)
    with run Drain show ?thesis by (auto split: poll.splits result.splits)
  next
    case (Tried e1 res c' e2)
    from run Drain Tried(1,4) have "io' = io\<lparr>ctx := c', state := after_drain res c'\<rparr>" "e' = e2"
      by auto
    with drain_refines [OF Tried(3) Drain Tried(5,6)] show ?thesis
      by (simp add: aview_of_same_view [OF Tried(2)])
  qed
next
  case (Finished er)
  with run show ?thesis by (auto split: prod.splits poll.splits result.splits)
qed

text \<open>The view when a poll is left: the one it was left in, up to an error handed out.\<close>

fun left_in :: "'e probe \<Rightarrow> aview \<Rightarrow> ('s, 'e) poll_out \<Rightarrow> bool" where
  "left_in P a (Panic p) = False"
| "left_in P a (Val (Ready (Err er), io, e)) =
     (\<exists>b. astep\<^sup>*\<^sup>* a b \<and> (aview_of P io e = b \<or>
        a_phase b = Finished (Some er) \<and>
        aview_of P io e = View (Finished None) (a_src b) (a_buf b) (a_dst b) (a_quota b) (a_closed b)))"
| "left_in P a (Val (x, io, e)) = astep\<^sup>*\<^sup>* a (aview_of P io e)"

lemma left_in_now:
  "astep\<^sup>*\<^sup>* a (aview_of P io e) \<Longrightarrow> left_in P a (Val (x, io, e))"
  by (cases "(P, a, Val (x, io, e))" rule: left_in.cases) auto

lemma break_view:
  assumes env: "transfer_env pf P r w pw pr" and inv: "io_inv P pw pr off0 T S D io e"
    and run: "poll_step pf r w (io, e) = Break out" and reach: "astep\<^sup>*\<^sup>* a (aview_of P io e)"
  shows "left_in P a out"
proof -
  have polls: "rd_poll_ready r e = (x, e1) \<Longrightarrow> aview_of P io e1 = aview_of P io e"
    "wr_poll_ready w e = (x, e1) \<Longrightarrow> aview_of P io e1 = aview_of P io e"
    "wr_poll_shutdown w e = (x, e1) \<Longrightarrow> aview_of P io e1 = aview_of P io e" for x e1
    using env reader_okD(1) [of "same_view P" r] writer_okD(1,2) [of "same_view P" w]
    by (auto simp: transfer_env_def intro!: aview_of_same_view dest: poll_keepsD)
  show ?thesis
  proof (cases "state io")
    case Fill
    have "poll_post P pw pr off0 T S D out"
      using poll_step_round [OF env inv] run by simp
    then have "\<exists>v. out = Val v" by (cases out) auto
    with run Fill polls reach show ?thesis
      by (auto intro!: left_in_now split: prod.splits poll.splits result.splits comp.splits)
  next
    case Drain
    have "poll_post P pw pr off0 T S D out"
      using poll_step_round [OF env inv] run by simp
    then have "\<exists>v. out = Val v" by (cases out) auto
    with run Drain polls reach show ?thesis
      by (auto intro!: left_in_now split: prod.splits poll.splits result.splits comp.splits)
  next
    case (Finished error)
    obtain x e1 where poll: "wr_poll_shutdown w e = (x, e1)" by (cases "wr_poll_shutdown w e")
    note same = polls(3) [OF poll]
    show ?thesis
    proof (cases "x = Ready (Ok ())")
      case False
      with run Finished poll same reach show ?thesis
        by (auto intro!: left_in_now split: poll.splits result.splits)
    next
      case True
      let ?io = "io\<lparr>state := Finished None\<rparr>"
      have over: "aview_of P ?io e1 = View (Finished None) (a_src (aview_of P io e))
          (a_buf (aview_of P io e)) (a_dst (aview_of P io e)) (a_quota (aview_of P io e))
          (a_closed (aview_of P io e))"
        using same by (simp add: aview_of_def)
      have ph: "a_phase (aview_of P io e) = Finished error" by (simp add: aview_of_def Finished)
      show ?thesis
      proof (cases error)
        case None
        then have "?io = io" using Finished by simp
        with run Finished poll True None same reach show ?thesis by (auto intro: left_in_now)
      next
        case (Some er)
        with run Finished poll True over ph reach show ?thesis by auto
      qed
    qed
  qed
qed

interpretation refined: loop_inv "poll_step pf r w"
    "\<lambda>(io, e). loop_state_ok pf P r w pw pr off0 T S D (io, e) \<and> astep\<^sup>*\<^sup>* a (aview_of P io e)"
    "left_in P a"
  for pf :: "('s, 'e) platform" and r w P pw pr off0 T S D a
proof
  fix st st' :: "'s splice_io \<times> 'e" and out
  obtain io e where st: "st = (io, e)" by (cases st)
  obtain io' e' where st': "st' = (io', e')" by (cases st')
  assume "case st of (io, e) \<Rightarrow>
    loop_state_ok pf P r w pw pr off0 T S D (io, e) \<and> astep\<^sup>*\<^sup>* a (aview_of P io e)"
  then have env: "transfer_env pf P r w pw pr" and inv: "io_inv P pw pr off0 T S D io e"
    and reach: "astep\<^sup>*\<^sup>* a (aview_of P io e)"
    by (simp_all add: st)
  show "case st' of (io, e) \<Rightarrow>
    loop_state_ok pf P r w pw pr off0 T S D (io, e) \<and> astep\<^sup>*\<^sup>* a (aview_of P io e)"
    if "poll_step pf r w st = Continue st'"
    using poll_step_round [OF env inv] round_refines [OF env inv] that env reach
    unfolding st st' by (auto simp del: poll_step.simps)
  show "left_in P a out" if "poll_step pf r w st = Break out"
    by (rule break_view [OF env inv that [unfolded st] reach])
qed

lemma poll_refines:
  assumes "transfer_env pf P r w pw pr" "io_inv P pw pr off0 T S D io e"
    and "poll_execute pf r w (io, e) = Some out"
  shows "left_in P (aview_of P io e) out"
  using refined.drive_post [of pf r w "(io, e)" out P pw pr off0 T S D "aview_of P io e"] assms
  by (simp add: poll_execute_def)

end
