(* ===== verification/Exec_Spec.thy ===== *)
theory Exec_Spec
  imports Stream_Spec Execute_Correct
begin

text \<open>
  A whole transfer, with all its waits, as one run of the abstract machine of theory Stream_Spec.
\<close>

lemma left_in_trans:
  assumes "astep\<^sup>*\<^sup>* a (aview_of P io e)" and "left_in P (aview_of P io e) out"
  shows "left_in P a out"
  using assms(2,1)
  by (cases "(P, aview_of P io e, out)" rule: left_in.cases) (auto intro: rtranclp_trans)

text \<open>What an await leaves: the last poll's result, reached by one run.\<close>

fun exec_left_in ::
    "'e probe \<Rightarrow> aview \<Rightarrow> (unit io_result \<times> 's splice_io \<times> 'e) comp option \<Rightarrow> bool" where
  "exec_left_in P a (Some (Val (res, io, e))) = left_in P a (Val (Ready res, io, e))"
| "exec_left_in P a out = True"

interpretation exec_refined: loop_inv "await_step (poll_execute pf r w) (park_state park)"
    "\<lambda>(io, e). exec_ok pf P r w park pw pr off0 T S D (io, e) \<and> astep\<^sup>*\<^sup>* a (aview_of P io e)"
    "exec_left_in P a"
  for pf :: "('s, 'e) platform" and r w park P pw pr off0 T S D a
proof
  fix st st' :: "'s splice_io \<times> 'e" and out :: "(unit io_result \<times> 's splice_io \<times> 'e) comp option"
  obtain io e where st: "st = (io, e)" by (cases st)
  assume "case st of (io, e) \<Rightarrow>
    exec_ok pf P r w park pw pr off0 T S D (io, e) \<and> astep\<^sup>*\<^sup>* a (aview_of P io e)"
  then have ok: "exec_ok pf P r w park pw pr off0 T S D (io, e)"
    and reach: "astep\<^sup>*\<^sup>* a (aview_of P io e)"
    by (simp_all add: st)
  have poll: "left_in P a o1" if "poll_execute pf r w (io, e) = Some o1" for o1
  proof -
    have "transfer_env pf P r w pw pr" "io_inv P pw pr off0 T S D io e"
      using ok by (simp_all add: exec_ok_def)
    from left_in_trans [OF reach poll_refines [OF this that]] show ?thesis .
  qed
  show "case st' of (io, e) \<Rightarrow>
    exec_ok pf P r w park pw pr off0 T S D (io, e) \<and> astep\<^sup>*\<^sup>* a (aview_of P io e)"
    if step: "await_step (poll_execute pf r w) (park_state park) st = Continue st'"
  proof -
    from step obtain io1 e1 where run: "poll_execute pf r w (io, e) = Some (Val (Pending, io1, e1))"
      and st': "st' = (io1, park e1)"
      by (auto simp: await_step_def st split: option.splits comp.splits poll.splits prod.splits)
    have "same_view P e1 (park e1)" using ok by (simp add: exec_ok_def park_keeps_def)
    then have "aview_of P io1 (park e1) = aview_of P io1 e1" by (rule aview_of_same_view)
    moreover have "exec_ok pf P r w park pw pr off0 T S D st'"
      using exec_loop.continue_inv [OF ok step [unfolded st]] .
    ultimately show ?thesis using poll [OF run] st' by simp
  qed
  show "exec_left_in P a out"
    if "await_step (poll_execute pf r w) (park_state park) st = Break out"
    using that poll
    by (auto simp: await_step_def st split: option.splits comp.splits poll.splits prod.splits)
qed

text \<open>
  The end of the run: what is delivered in the last view is what the destination holds when
  \<open>execute\<close> has dropped everything, and its phase is what the report says.
\<close>

lemma execute_refines:
  assumes env: "transfer_env pf P r w pw pr" and inv: "io_inv P pw pr off0 T S D io e"
    and park: "park_keeps P park" and run: "execute pf r w park io e = Some (Val (rep, e'))"
  shows "\<exists>b. astep\<^sup>*\<^sup>* (aview_of P io e) b \<and>
    v_dst P (advanced (off_out off0) (tx rep)) e' = a_dst b \<and>
    (report_error rep = None \<longrightarrow> a_phase b = Finished None)"
proof -
  from run obtain res io1 e1 where
    o1: "drive (await_step (poll_execute pf r w) (park_state park)) (io, e)
      = Some (Some (Val (res, io1, e1)))"
    and rep: "rep = \<lparr>tx = bytes_written (ctx io1), rx = 0, report_error = err_of res\<rparr>"
    and e': "e' = drop_ctx (pf_os pf) (ctx io1) e1"
    by (auto simp: execute_as_await bind_eq_Some_conv bind_comp_Val_iff)
  have ok: "exec_ok pf P r w park pw pr off0 T S D (io, e)"
    using env inv park by (simp add: exec_ok_def)
  have "exec_left_in P (aview_of P io e) (Some (Val (res, io1, e1)))"
    by (rule exec_refined.drive_post [OF o1]) (use ok in simp)
  then have left: "left_in P (aview_of P io e) (Val (Ready res, io1, e1))" by simp
  have post: "poll_post P pw pr off0 T S D (Val (Ready res, io1, e1))"
    using exec_loop.drive_post [OF o1 ok] by simp
  then have ci: "ctx_inv P pw pr off0 T S D (ctx io1) e1"
    by (cases res) (auto simp: io_inv_def)
  have "close_keeps (pf_os pf) P pw pr" using env by (simp add: transfer_env_def)
  then have dst: "v_dst P off e' = v_dst P off e1" for off
    unfolding e' using ctx_invD(2) [OF ci] by (rule dst_drop_ctx)
  have "v_dst P (advanced (off_out off0) (tx rep)) e' = a_dst (aview_of P io1 e1)"
    using written_prefix(3) [OF ci] aview_of_inv [OF ci] by (simp add: rep dst)
  moreover from left obtain b where "astep\<^sup>*\<^sup>* (aview_of P io e) b" "a_dst (aview_of P io1 e1) = a_dst b"
    "res = Ok () \<longrightarrow> b = aview_of P io1 e1"
    by (cases "(P, aview_of P io e, Val (Ready res, io1, e1))"
        rule: left_in.cases) auto
  moreover have "res = Ok () \<Longrightarrow> a_phase (aview_of P io1 e1) = Finished None"
    using post by (simp add: aview_of_def)
  moreover have "report_error rep = None \<Longrightarrow> res = Ok ()" by (cases res) (simp_all add: rep)
  ultimately show ?thesis by metis
qed

end
