(* ===== verification/Parking.thy ===== *)
theory Parking
  imports Execute_Correct
begin

text \<open>
  Where a pending transfer waits (the concern of the unit test \<open>partial_write_parks_on_writer\<close>):
  a transfer that parks on the reader while bytes wait in the pipe could sleep for ever, because the
  source may have nothing more to give.
\<close>

text \<open>
  A transfer that is parked where it should be: on the reader only when the pipe is empty, on the
  writer only when there is something left for it to do.
\<close>

definition parked_well :: "'s splice_io \<Rightarrow> bool" where
  "parked_well io \<longleftrightarrow>
     (case state io of
        Fill \<Rightarrow> \<not> pipe_has_data (ctx io)
      | Drain \<Rightarrow> pipe_has_data (ctx io) \<or> is_source_done (ctx io)
      | Finished _ \<Rightarrow> True)"

text \<open>
  Readiness is not lost by success: tokio clears it only when a call would block.  It may still
  answer \<open>Pending\<close> when the cooperative budget of the task is spent, but then it has scheduled the
  task again, which \<open>woken\<close> stands for.
\<close>

definition stays_ready :: "('e \<Rightarrow> bool) \<Rightarrow> 'e poll_fn \<Rightarrow> 'e \<Rightarrow> bool" where
  "stays_ready woken pl e \<longleftrightarrow> (\<forall>e'. pl e = (Pending, e') \<longrightarrow> woken e')"

definition keeps_ready ::
    "('s, 'e) platform \<Rightarrow> ('s, 'e) reader \<Rightarrow> ('s, 'e) writer \<Rightarrow> ('e \<Rightarrow> bool) \<Rightarrow> bool" where
  "keeps_ready pf r w woken \<longleftrightarrow>
     (\<forall>c e e1 n c' e2.
        rd_poll_ready r e = (Ready (Ok ()), e1) \<longrightarrow>
        rd_try_io r (try_splice_from_source pf (rd_fd r)) c e1 = Val (Ok (BytesWritten n), c', e2) \<longrightarrow>
        stays_ready woken (rd_poll_ready r) e2) \<and>
     (\<forall>c e e1 n c' e2.
        wr_poll_ready w e = (Ready (Ok ()), e1) \<longrightarrow>
        wr_try_io w (try_splice_to_dest pf (wr_fd w)) c e1 = Val (Ok (BytesWritten n), c', e2) \<longrightarrow>
        stays_ready woken (wr_poll_ready w) e2)"

lemma keeps_ready_fill:
  "keeps_ready pf r w woken \<Longrightarrow> rd_poll_ready r e = (Ready (Ok ()), e1) \<Longrightarrow>
     rd_try_io r (try_splice_from_source pf (rd_fd r)) c e1 = Val (Ok (BytesWritten n), c', e2) \<Longrightarrow>
     stays_ready woken (rd_poll_ready r) e2"
  unfolding keeps_ready_def by blast

lemma keeps_ready_drain:
  "keeps_ready pf r w woken \<Longrightarrow> wr_poll_ready w e = (Ready (Ok ()), e1) \<Longrightarrow>
     wr_try_io w (try_splice_to_dest pf (wr_fd w)) c e1 = Val (Ok (BytesWritten n), c', e2) \<Longrightarrow>
     stays_ready woken (wr_poll_ready w) e2"
  unfolding keeps_ready_def by blast

text \<open>What the loop keeps: when the state is not one to park in, the side it asks is ready.\<close>

definition waits_well ::
    "('s, 'e) reader \<Rightarrow> ('s, 'e) writer \<Rightarrow> ('e \<Rightarrow> bool) \<Rightarrow> 's splice_io \<Rightarrow> 'e \<Rightarrow> bool" where
  "waits_well r w woken io e \<longleftrightarrow>
     (case state io of
        Fill \<Rightarrow> pipe_has_data (ctx io) \<longrightarrow> stays_ready woken (rd_poll_ready r) e
      | Drain \<Rightarrow> \<not> (pipe_has_data (ctx io) \<or> is_source_done (ctx io)) \<longrightarrow>
          stays_ready woken (wr_poll_ready w) e
      | Finished _ \<Rightarrow> True)"

lemma parked_well_waits: "parked_well io \<Longrightarrow> waits_well r w woken io e"
  by (auto simp: parked_well_def waits_well_def split: transfer_state.splits)

fun parks ::
    "('s, 'e) reader \<Rightarrow> ('s, 'e) writer \<Rightarrow> ('e \<Rightarrow> bool)
      \<Rightarrow> ('s splice_io \<times> 'e, ('s, 'e) poll_out) flow \<Rightarrow> bool" where
  "parks r w woken (Continue (io, e)) = waits_well r w woken io e"
| "parks r w woken (Break (Val (Pending, io, e))) = (woken e \<or> parked_well io)"
| "parks r w woken (Break out) = True"

section \<open>One round\<close>

lemma fill_parks:
  assumes env: "transfer_env pf P r w pw pr" and inv: "io_inv P pw pr off0 T S D io e"
    and keeps: "keeps_ready pf r w woken" and ok: "waits_well r w woken io e"
    and st: "state io = Fill"
  shows "parks r w woken (poll_step pf r w (io, e))"
  using env inv st
proof (cases rule: fill_polled)
  case (Left x e1)
  with st ok show ?thesis
    by (auto simp: waits_well_def stays_ready_def parked_well_def split: poll.splits result.splits)
next
  case (Tried e1 res c' e2)
  show ?thesis
  proof (cases "\<exists>n. res = Ok (BytesWritten n)")
    case moved: True
    with Tried have "stays_ready woken (rd_poll_ready r) e2"
      by (auto dest: keeps_ready_fill [OF keeps])
    with moved st Tried show ?thesis by (auto simp: after_fill_def waits_well_def)
  next
    case False
    with st Tried show ?thesis
      by (auto simp: after_fill_def fill_effect_def faulted_def waits_well_def
          split: result.splits splice_outcome.splits)
  qed
qed

lemma drain_parks:
  assumes env: "transfer_env pf P r w pw pr" and inv: "io_inv P pw pr off0 T S D io e"
    and keeps: "keeps_ready pf r w woken" and ok: "waits_well r w woken io e"
    and st: "state io = Drain"
  shows "parks r w woken (poll_step pf r w (io, e))"
  using env inv st
proof (cases rule: drain_polled)
  case (Left x e1)
  with st ok show ?thesis
    by (auto simp: waits_well_def stays_ready_def parked_well_def split: poll.splits result.splits)
next
  case (Tried e1 res c' e2)
  show ?thesis
  proof (cases "\<exists>n. res = Ok (BytesWritten n)")
    case moved: True
    with Tried have "stays_ready woken (wr_poll_ready w) e2"
      by (auto dest: keeps_ready_drain [OF keeps])
    with moved st Tried show ?thesis by (auto simp: after_drain_def waits_well_def)
  next
    case False
    with st Tried show ?thesis
      by (auto simp: after_drain_def drain_effect_def faulted_def finished_def waits_well_def
          split: result.splits splice_outcome.splits)
  qed
qed

lemma round_parks:
  assumes "transfer_env pf P r w pw pr" and "io_inv P pw pr off0 T S D io e"
    and "keeps_ready pf r w woken" and "waits_well r w woken io e"
  shows "parks r w woken (poll_step pf r w (io, e))"
proof (cases "state io")
  case Fill
  with assms show ?thesis by (rule fill_parks)
next
  case Drain
  with assms show ?thesis by (rule drain_parks)
next
  case (Finished error)
  then show ?thesis
    by (auto simp: parked_well_def split: prod.splits poll.splits result.splits)
qed

section \<open>One poll\<close>

definition parking_state ::
    "('s, 'e) platform \<Rightarrow> 'e probe \<Rightarrow> ('s, 'e) reader \<Rightarrow> ('s, 'e) writer \<Rightarrow> fd \<Rightarrow> fd \<Rightarrow> offset
      \<Rightarrow> usize \<Rightarrow> byte list \<Rightarrow> byte list \<Rightarrow> ('e \<Rightarrow> bool) \<Rightarrow> 's splice_io \<times> 'e \<Rightarrow> bool" where
  "parking_state pf P r w pw pr off0 T S D woken st \<longleftrightarrow>
     loop_state_ok pf P r w pw pr off0 T S D st \<and> keeps_ready pf r w woken \<and>
     waits_well r w woken (fst st) (snd st)"

interpretation parking: loop_inv "poll_step pf r w"
    "parking_state pf P r w pw pr off0 T S D woken" "\<lambda>out. parks r w woken (Break out)"
  for pf :: "('s, 'e) platform" and r w P pw pr off0 T S D woken
proof
  fix st st' :: "'s splice_io \<times> 'e" and out
  assume ok: "parking_state pf P r w pw pr off0 T S D woken st"
  obtain io e where st: "st = (io, e)" by (cases st)
  from ok have inv: "loop_state_ok pf P r w pw pr off0 T S D st" and keeps: "keeps_ready pf r w woken"
    by (simp_all add: parking_state_def)
  have round: "parks r w woken (poll_step pf r w st)"
    using ok round_parks unfolding st parking_state_def
    by (auto simp del: poll_step.simps)
  show "poll_step pf r w st = Continue st' \<Longrightarrow> parking_state pf P r w pw pr off0 T S D woken st'"
    using round poll_loop.continue_inv [OF inv] keeps
    by (cases st') (auto simp: parking_state_def simp del: poll_step.simps)
  show "poll_step pf r w st = Break out \<Longrightarrow> parks r w woken (Break out)"
    using round by simp
qed

lemma poll_parks:
  assumes "transfer_env pf P r w pw pr" and "io_inv P pw pr off0 T S D io e"
    and "keeps_ready pf r w woken" and "waits_well r w woken io e"
    and run: "poll_execute pf r w (io, e) = Some (Val (Pending, io', e'))"
  shows "woken e' \<or> parked_well io'"
  using parking.drive_post [OF run [unfolded poll_execute_def],
      of P pw pr off0 T S D woken] assms
  by (simp add: parking_state_def)

section \<open>Every wait of a transfer\<close>

text \<open>The states in which \<open>execute\<close> is parked.\<close>

abbreviation pauses ::
    "('s, 'e) platform \<Rightarrow> ('s, 'e) reader \<Rightarrow> ('s, 'e) writer \<Rightarrow> ('e \<Rightarrow> 'e) \<Rightarrow> 's splice_io \<times> 'e
      \<Rightarrow> 's splice_io \<times> 'e \<Rightarrow> bool" where
  "pauses pf r w park \<equiv> paused (poll_execute pf r w) (park_state park)"

text \<open>A task that has woken itself finds its descriptors as ready as they were.\<close>

definition wakes_ready ::
    "('s, 'e) reader \<Rightarrow> ('s, 'e) writer \<Rightarrow> ('e \<Rightarrow> bool) \<Rightarrow> ('e \<Rightarrow> 'e) \<Rightarrow> bool" where
  "wakes_ready r w woken park \<longleftrightarrow>
     (\<forall>e. woken e \<longrightarrow> stays_ready woken (rd_poll_ready r) (park e) \<and>
                     stays_ready woken (wr_poll_ready w) (park e))"

lemma wakes_ready_waits:
  "wakes_ready r w woken park \<Longrightarrow> woken e \<or> parked_well io \<Longrightarrow> waits_well r w woken io (park e)"
  by (auto simp: wakes_ready_def waits_well_def parked_well_def split: transfer_state.splits)

lemma pauses_well:
  assumes env: "transfer_env pf P r w pw pr" and keeps: "keeps_ready pf r w woken"
    and wakes: "wakes_ready r w woken park" and park: "park_keeps P park"
    and "pauses pf r w park (io, e) (io', e')"
    and inv: "io_inv P pw pr off0 T S D io e" and well: "parked_well io"
  shows "io_inv P pw pr off0 T S D io' e' \<and> (woken e' \<or> parked_well io')"
  using assms(5)
proof (induction "(io', e')" arbitrary: io' e' rule: paused.induct)
  case first_pause
  with poll_execute_partial [OF env inv first_pause]
    poll_parks [OF env inv keeps parked_well_waits [OF well] first_pause]
  show ?case by simp
next
  case (next_pause st1)
  obtain io1 e1 where st1: "st1 = (io1, e1)" by (cases st1)
  note IH = next_pause(2) [OF st1] and run = next_pause(3) [unfolded st1 park_state.simps]
  have view: "same_view P e1 (park e1)" using park by (simp add: park_keeps_def)
  have inv1: "io_inv P pw pr off0 T S D io1 (park e1)"
    using IH by (simp only: io_inv_same_view [OF view])
  have waits: "waits_well r w woken io1 (park e1)"
    using IH wakes_ready_waits [OF wakes] by blast
  from poll_execute_partial [OF env inv1 run] poll_parks [OF env inv1 keeps waits run]
  show ?case by simp
qed

end
