(* ===== verification/Cancel.thy ===== *)
theory Cancel
  imports Parking Proxy
begin

text \<open>
  Dropping a future that is not finished, as a timeout, a \<open>select!\<close> or the end of the runtime does.
  It is dropped while it is parked: no descriptor is left behind, and the destination has received
  exactly the bytes the transfer counted as written.
\<close>

section \<open>One direction\<close>

lemma pauses_accounted:
  assumes "accounted pf r w park opened base (ctx io) e" and "pauses pf r w park (io, e) (io', e')"
  shows "accounted pf r w park opened base (ctx io') e'"
  using account.future.paused_inv [OF assms(2), of opened base] assms(1) by simp

lemma cancel_pause_accounted:
  assumes acc: "accounted pf r w park opened base (ctx io) e"
    and paused: "pauses pf r w park (io, e) (io', e')"
  shows "opened e' = base \<union> pipe_fds (pipe (ctx io'))"
    and "opened (drop_ctx (pf_os pf) (ctx io') e') = base"
    and "opened (drop_ctx (pf_os pf) (ctx io') (park e')) = base"
proof -
  note here = pauses_accounted [OF acc paused]
  then show "opened e' = base \<union> pipe_fds (pipe (ctx io'))"
    by (simp add: accounted_def owns_apart_def)
  show "opened (drop_ctx (pf_os pf) (ctx io') e') = base" by (rule accounted_drop [OF here])
  show "opened (drop_ctx (pf_os pf) (ctx io') (park e')) = base"
    by (rule accounted_drop [OF account.parked [OF here]])
qed

interpretation exec_pause: pause_inv "poll_execute pf r w" "park_state park"
    "exec_ok pf P r w park pw pr off0 T S D"
  for pf :: "('s, 'e) platform" and r w park P pw pr off0 T S D
proof
  fix st st' :: "'s splice_io \<times> 'e"
  assume ok: "exec_ok pf P r w park pw pr off0 T S D st"
  obtain io e where st: "st = (io, e)" by (cases st)
  have view: "same_view P e (park e)" using ok by (simp add: exec_ok_def park_keeps_def)
  show "exec_ok pf P r w park pw pr off0 T S D (park_state park st)"
    using ok by (simp add: exec_ok_def st io_inv_same_view [OF view])
  show "exec_ok pf P r w park pw pr off0 T S D st'"
    if run: "poll_execute pf r w st = Some (Val (Pending, st'))"
    using poll_execute_partial [of pf P r w pw pr off0 T S D io e "Val (Pending, st')"] ok run
    by (cases st') (simp add: exec_ok_def st)
qed

lemma pauses_inv:
  assumes "transfer_env pf P r w pw pr" and "io_inv P pw pr off0 T S D io e" and "park_keeps P park"
    and "pauses pf r w park (io, e) (io', e')"
  shows "io_inv P pw pr off0 T S D io' e'"
  using exec_pause.paused_inv [OF assms(4), of P pw pr off0 T S D] assms(1-3)
  by (simp add: exec_ok_def)

lemma cancelled_prefix:
  assumes env: "transfer_env pf P r w pw pr" and inv: "io_inv P pw pr off0 T S D io e"
    and park: "park_keeps P park" and paused: "pauses pf r w park (io, e) (io', e')"
  shows "unat (bytes_written (ctx io')) \<le> unat (bytes_read (ctx io'))"
    and "unat (bytes_read (ctx io')) \<le> min (unat T) (length S)"
    and "v_dst P (advanced (off_out off0) (bytes_written (ctx io'))) (drop_ctx (pf_os pf) (ctx io') e')
      = D @ take (unat (bytes_written (ctx io'))) S"
    and "v_src P (advanced (off_in off0) (bytes_read (ctx io'))) e'
      = drop (unat (bytes_read (ctx io'))) S"
proof -
  have ci: "ctx_inv P pw pr off0 T S D (ctx io') e'"
    using pauses_inv [OF env inv park paused] by (simp add: io_inv_def)
  show "unat (bytes_written (ctx io')) \<le> unat (bytes_read (ctx io'))"
    and "unat (bytes_read (ctx io')) \<le> min (unat T) (length S)"
    using ctx_invD(1,3,7) [OF ci] by (simp_all add: counts_ok_def stream_rel_def word_le_nat_alt)
  have "close_keeps (pf_os pf) P pw pr" using env by (simp add: transfer_env_def)
  from dst_drop_ctx [OF this ctx_invD(2) [OF ci]] written_prefix(3) [OF ci]
  show "v_dst P (advanced (off_out off0) (bytes_written (ctx io'))) (drop_ctx (pf_os pf) (ctx io') e')
      = D @ take (unat (bytes_written (ctx io'))) S"
    by simp
  show "v_src P (advanced (off_in off0) (bytes_read (ctx io'))) e'
      = drop (unat (bytes_read (ctx io'))) S"
    using ctx_invD(3,6) [OF ci] by (simp add: stream_rel_def src_of_def off_in_offset_at)
qed

section \<open>Both directions\<close>

abbreviation bidi_pauses ::
    "('s1, 'e) platform \<Rightarrow> ('s2, 'e) platform \<Rightarrow> ('s1, 's2, 'e) endpoint \<Rightarrow> ('s2, 's1, 'e) endpoint
      \<Rightarrow> ('e \<Rightarrow> 'e) \<Rightarrow> ('s1, 's2) bidi_io \<times> 'e \<Rightarrow> ('s1, 's2) bidi_io \<times> 'e \<Rightarrow> bool" where
  "bidi_pauses pf1 pf2 sl sr park \<equiv> paused (bidi_poll_execute pf1 pf2 sl sr) (\<lambda>(b, e). (b, park e))"

lemma bidi_cancel_accounted:
  assumes acc: "bidi_accounted pf1 pf2 sl sr park opened base b e"
    and paused: "bidi_pauses pf1 pf2 sl sr park (b, e) (b', e')"
  shows "opened (drop_bidi (pf_os pf1) (pf_os pf2) b' e') = base"
    and "opened (drop_bidi (pf_os pf1) (pf_os pf2) b' (park e')) = base"
proof -
  have here: "bidi_accounted pf1 pf2 sl sr park opened base b' e'"
    using bidi_account.paused_inv [OF paused, of opened base] acc by simp
  show "opened (drop_bidi (pf_os pf1) (pf_os pf2) b' e') = base"
    using bidi_drops_accounted [OF here] by (simp add: drop_bidi_def)
  show "opened (drop_bidi (pf_os pf1) (pf_os pf2) b' (park e')) = base"
    using bidi_drops_accounted [OF bidi_park_accounted [OF here]] by (simp add: drop_bidi_def)
qed

section \<open>A connection of the proxy\<close>

text \<open>
  A \<open>forwarding\<close> task that is dropped while it transfers drops the transfer first and then its two
  streams.
\<close>

lemma forwarding_cancelled:
  fixes stream1 stream2 :: "'e tcp_stream"
  assumes conn: "connects_one opened connect" "connect upstream_addr e = (Ok stream2, e1)"
    and acc1: "accounts (live_platform prof os) (as_reader stream1) (as_writer stream2) park opened"
    and acc2: "accounts (live_platform prof os) (as_reader stream2) (as_writer stream1) park opened"
    and new: "pipe_new os e1 = (Ok p1, e2)" "pipe_new os e2 = (Ok p2, e3)"
    and paused: "bidi_pauses (live_platform prof os) (live_platform prof os) stream1 stream2 park
      (\<lparr>io_sl2sr = io_from (new_ctx Live p1), io_sr2sl = io_from (new_ctx Live p2)\<rparr>, e3) (b', e')"
  shows "opened (drop_stream os stream1 (drop_stream os stream2 (drop_bidi os os b' e')))
    = opened e - {stream_fd stream1}"
proof -
  have laws: "fd_laws os opened" using acc1 by (simp add: accounts_def)
  have "opened (drop_bidi os os b' e') = opened e1"
    using bidi_cancel_accounted(1) [OF fresh_bidi_accounted [OF acc1 acc2 new] paused] by simp
  with conn(1) [unfolded connects_one_def, rule_format, OF conn(2)] show ?thesis
    by (auto simp: drop_stream_opened [OF laws])
qed

end
