(* ===== verification/Debug_Fmt.thy ===== *)
theory Debug_Fmt
  imports Splice_Bidi Decimal
begin

text \<open>
  The \<open>Debug\<close> formatting of the crate: what the hand-written impls of \<open>SpliceCtx\<close>
  (\<open>src/splice/mod.rs\<close>), \<open>SpliceIo\<close> and \<open>SpliceBidiIo\<close> (\<open>src/io/mod.rs\<close>) and the derived ones show of
  their values.  The impls drive the standard library's builders \<open>debug_struct\<close> and
  \<open>debug_tuple\<close>; a value is first turned into the tree they are told, then into the text of \<open>{:?}\<close>.
\<close>

section \<open>The builders of the standard library\<close>

datatype dbg =
    D_Int int
  | D_Str string
  | D_Tuple string "dbg list"
  | D_Struct string "(string \<times> dbg) list"

abbreviation D_Unit :: "string \<Rightarrow> dbg" where
  "D_Unit name \<equiv> D_Tuple name []"

fun escape :: "string \<Rightarrow> string" where
  "escape [] = []"
| "escape (c # cs) =
     (if c = CHR 0x22 \<or> c = CHR 0x5C then CHR 0x5C # c # escape cs
      else if c = CHR 0x0A then CHR 0x5C # CHR ''n'' # escape cs
      else c # escape cs)"

text \<open>A builder without any field prints the name only.\<close>

fun show_dbg :: "dbg \<Rightarrow> string"
  and show_list :: "dbg list \<Rightarrow> string"
  and show_fields :: "(string \<times> dbg) list \<Rightarrow> string" where
  "show_dbg (D_Int i) = show_int i"
| "show_dbg (D_Str s) = CHR 0x22 # escape s @ [CHR 0x22]"
| "show_dbg (D_Tuple name []) = name"
| "show_dbg (D_Tuple name (x # xs)) = name @ ''('' @ show_dbg x @ show_list xs @ '')''"
| "show_dbg (D_Struct name []) = name"
| "show_dbg (D_Struct name ((k, v) # fs)) =
     name @ '' { '' @ k @ '': '' @ show_dbg v @ show_fields fs @ '' }''"
| "show_list [] = ''''"
| "show_list (x # xs) = '', '' @ show_dbg x @ show_list xs"
| "show_fields [] = ''''"
| "show_fields ((k, v) # fs) = '', '' @ k @ '': '' @ show_dbg v @ show_fields fs"

section \<open>Types of the standard library\<close>

fun debug_option :: "('a \<Rightarrow> dbg) \<Rightarrow> 'a option \<Rightarrow> dbg" where
  "debug_option f None = D_Unit ''None''"
| "debug_option f (Some x) = D_Tuple ''Some'' [f x]"

definition debug_word :: "'w::len word \<Rightarrow> dbg" where
  "debug_word n = D_Int (uint n)"

definition debug_nonzero :: "nonzero_usize \<Rightarrow> dbg" where
  "debug_nonzero n = debug_word (nz_get n)"

definition debug_owned_fd :: "fd \<Rightarrow> dbg" where
  "debug_owned_fd d = D_Struct ''OwnedFd'' [(''fd'', D_Int d)]"

text \<open>
  \<open>io::Error\<close>: the names of the kinds the crate does not mention, and the messages of the operating
  system, are texts of the platform.
\<close>

record os_texts =
  kind_name :: "errno \<Rightarrow> string"
  strerror :: "errno \<Rightarrow> string"

fun debug_kind :: "os_texts \<Rightarrow> error_kind \<Rightarrow> dbg" where
  "debug_kind texts WouldBlock = D_Unit ''WouldBlock''"
| "debug_kind texts InvalidInput = D_Unit ''InvalidInput''"
| "debug_kind texts Other = D_Unit ''Other''"
| "debug_kind texts (Kind_Of n) = D_Unit (kind_name texts n)"

fun debug_error :: "os_texts \<Rightarrow> io_error \<Rightarrow> dbg" where
  "debug_error texts (Os n) = D_Struct ''Os''
     [(''code'', D_Int n), (''kind'', debug_kind texts (decode_error_kind n)),
      (''message'', D_Str (strerror texts n))]"
| "debug_error texts (Simple k) = D_Tuple ''Kind'' [debug_kind texts k]"
| "debug_error texts (Custom k m) = D_Struct ''Custom''
     [(''kind'', debug_kind texts k), (''error'', D_Str m)]"

section \<open>Types of the crate\<close>

text \<open>Derived impls: all the fields, in their order.\<close>

definition debug_live :: "live \<Rightarrow> dbg" where
  "debug_live s = D_Unit ''Live''"

fun debug_offset :: "offset \<Rightarrow> dbg" where
  "debug_offset Off_None = D_Unit ''None''"
| "debug_offset (Off_In n) = D_Tuple ''In'' [debug_word n]"
| "debug_offset (Off_Out n) = D_Tuple ''Out'' [debug_word n]"

definition debug_pipe :: "pipe \<Rightarrow> dbg" where
  "debug_pipe p = D_Struct ''Pipe''
     [(''drain_fd'', debug_option debug_owned_fd (pipe_drain_fd p)),
      (''fill_fd'', debug_option debug_owned_fd (pipe_fill_fd p)),
      (''size'', debug_nonzero (pipe_size_field p))]"

fun debug_outcome :: "splice_outcome \<Rightarrow> dbg" where
  "debug_outcome Closed = D_Unit ''Closed''"
| "debug_outcome NoProgress = D_Unit ''NoProgress''"
| "debug_outcome (BytesWritten n) = D_Tuple ''BytesWritten'' [debug_word n]"

fun debug_state :: "os_texts \<Rightarrow> transfer_state \<Rightarrow> dbg" where
  "debug_state texts Fill = D_Unit ''Fill''"
| "debug_state texts Drain = D_Unit ''Drain''"
| "debug_state texts (Finished er) =
     D_Struct ''Finished'' [(''error'', debug_option (debug_error texts) er)]"

definition debug_report :: "os_texts \<Rightarrow> transfer_report \<Rightarrow> dbg" where
  "debug_report texts rep = D_Struct ''TransferReport''
     [(''tx'', debug_word (tx rep)), (''rx'', debug_word (rx rep)),
      (''error'', debug_option (debug_error texts) (report_error rep))]"

text \<open>The impls written by hand: that of a context leaves its splicer out.\<close>

definition debug_ctx :: "'s splice_ctx \<Rightarrow> dbg" where
  "debug_ctx c = D_Struct ''SpliceCtx''
     [(''offset'', debug_offset (offset c)),
      (''size_to_splice'', debug_word (size_to_splice c)),
      (''pipe'', debug_pipe (pipe c)),
      (''bytes_read'', debug_word (bytes_read_field c)),
      (''bytes_written'', debug_word (bytes_written_field c))]"

definition debug_io :: "os_texts \<Rightarrow> 's splice_io \<Rightarrow> dbg" where
  "debug_io texts io = D_Struct ''SpliceIo''
     [(''splicer'', debug_ctx (ctx io)), (''state'', debug_state texts (state io))]"

definition debug_bidi :: "os_texts \<Rightarrow> ('s1, 's2) bidi_io \<Rightarrow> dbg" where
  "debug_bidi texts b = D_Struct ''SpliceBidiIo''
     [(''io_sl2sr'', debug_io texts (io_sl2sr b)), (''io_sr2sl'', debug_io texts (io_sr2sl b))]"

section \<open>What the text of a context tells\<close>

text \<open>
  Every part of the text ends where it can be seen to end, so it can be read back from left to
  right: a number stops before a comma, a bracket or a space.
\<close>

lemma number_text:
  "show_int a @ CHR '','' # u = show_int b @ CHR '','' # v \<longleftrightarrow> a = b \<and> u = v"
  "show_int a @ CHR '' '' # u = show_int b @ CHR '' '' # v \<longleftrightarrow> a = b \<and> u = v"
  "show_int a @ CHR '')'' # u = show_int b @ CHR '')'' # v \<longleftrightarrow> a = b \<and> u = v"
  by (simp_all add: show_int_prefix is_digit_def digit_of_def)

lemma word_text:
  "show_dbg (debug_word a) @ CHR '','' # u = show_dbg (debug_word b) @ CHR '','' # v
    \<longleftrightarrow> a = b \<and> u = v"
  "show_dbg (debug_word a) @ CHR '' '' # u = show_dbg (debug_word b) @ CHR '' '' # v
    \<longleftrightarrow> a = b \<and> u = v"
  "show_dbg (debug_word a) @ CHR '')'' # u = show_dbg (debug_word b) @ CHR '')'' # v
    \<longleftrightarrow> a = b \<and> u = v"
  "show_dbg (debug_word a) = show_dbg (debug_word b) \<longleftrightarrow> a = b"
  using show_int_prefix [of "[]" "[]"]
  by (simp_all add: debug_word_def number_text word_uint_eq_iff)

lemma offset_text:
  "show_dbg (debug_offset a) @ CHR '','' # u = show_dbg (debug_offset b) @ CHR '','' # v
    \<longleftrightarrow> a = b \<and> u = v"
  by (cases a; cases b) (simp_all add: word_text)

lemma fd_text:
  "show_dbg (debug_option debug_owned_fd a) @ CHR '','' # u
      = show_dbg (debug_option debug_owned_fd b) @ CHR '','' # v \<longleftrightarrow> a = b \<and> u = v"
  by (cases a; cases b) (simp_all add: debug_owned_fd_def number_text)

lemma nonzero_text:
  "show_dbg (debug_nonzero a) @ CHR '' '' # u = show_dbg (debug_nonzero b) @ CHR '' '' # v
    \<longleftrightarrow> a = b \<and> u = v"
  by (simp add: debug_nonzero_def word_text nz_get_inject)

lemmas part_text = word_text offset_text fd_text nonzero_text

text \<open>So the text tells everything but the splicer, and tells nothing of the splicer.\<close>

lemma debug_ctx_text:
  "show_dbg (debug_ctx c) = show_dbg (debug_ctx c') \<longleftrightarrow>
     offset c = offset c' \<and> size_to_splice c = size_to_splice c' \<and> pipe c = pipe c' \<and>
     bytes_read c = bytes_read c' \<and> bytes_written c = bytes_written c'"
  by (cases "pipe c"; cases "pipe c'")
    (simp add: debug_ctx_def debug_pipe_def part_text bytes_read_def bytes_written_def conj_ac)

end
