(* ===== verification/Tracing.thy ===== *)
theory Tracing
  imports Debug_Fmt
begin

text \<open>
  The tracing of the crate: the macros of \<open>src/lib.rs\<close>, which expand to calls of the tracing package
  or to nothing, depending on the features and the profile of the build, and the places of
  \<open>src/io/mod.rs\<close> that use them.  What the package does with a call is not modelled: the calls are
  collected in a log, in the order in which they are made.
\<close>

section \<open>The macros\<close>

text \<open>\<open>Cargo.toml\<close>: the feature \<open>feat-tracing-trace\<close> turns \<open>feat-tracing\<close> on.\<close>

record features =
  feat_tracing :: bool
  feat_tracing_trace :: bool

definition features_ok :: "features \<Rightarrow> bool" where
  "features_ok ft \<longleftrightarrow> (feat_tracing_trace ft \<longrightarrow> feat_tracing ft)"

fun debug_assertions :: "profile \<Rightarrow> bool" where
  "debug_assertions Dev = True"
| "debug_assertions Release = False"

datatype level = L_Trace | L_Debug | L_Info | L_Warn | L_Error

text \<open>A field holds a value, or what \<open>%\<close> (\<open>Display\<close>) or \<open>?\<close> (\<open>Debug\<close>) makes of one.\<close>

datatype field = V_Str string | V_Num usize | V_Bool bool | V_Display io_error | V_Debug dbg

type_synonym fields = "(string \<times> field) list"

text \<open>An event, the guard of a span, and the drop of that guard.\<close>

datatype call = Event level "string option" fields | Enter string fields | Leave string

definition trace_on :: "features \<Rightarrow> profile \<Rightarrow> bool" where
  "trace_on ft prof \<longleftrightarrow> feat_tracing_trace ft \<or> (debug_assertions prof \<and> feat_tracing ft)"

definition trace_m :: "features \<Rightarrow> profile \<Rightarrow> fields \<Rightarrow> call list" where
  "trace_m ft prof fs = (if trace_on ft prof then [Event L_Trace None fs] else [])"

definition debug_m :: "features \<Rightarrow> string option \<Rightarrow> fields \<Rightarrow> call list" where
  "debug_m ft msg fs = (if feat_tracing ft then [Event L_Debug msg fs] else [])"

definition info_m :: "features \<Rightarrow> string option \<Rightarrow> fields \<Rightarrow> call list" where
  "info_m ft msg fs = (if feat_tracing ft then [Event L_Info msg fs] else [])"

definition warning_m :: "features \<Rightarrow> string option \<Rightarrow> fields \<Rightarrow> call list" where
  "warning_m ft msg fs = (if feat_tracing ft then [Event L_Warn msg fs] else [])"

definition error_m :: "features \<Rightarrow> string option \<Rightarrow> fields \<Rightarrow> call list" where
  "error_m ft msg fs = (if feat_tracing ft then [Event L_Error msg fs] else [])"

definition enter_tracing_span :: "features \<Rightarrow> profile \<Rightarrow> string \<Rightarrow> fields \<Rightarrow> call list" where
  "enter_tracing_span ft prof name fs = (if trace_on ft prof then [Enter name fs] else [])"

definition drop_span :: "features \<Rightarrow> profile \<Rightarrow> string \<Rightarrow> call list" where
  "drop_span ft prof name = (if trace_on ft prof then [Leave name] else [])"

lemmas macro_defs = trace_m_def debug_m_def info_m_def warning_m_def error_m_def
  enter_tracing_span_def drop_span_def

section \<open>One poll, with its log\<close>

definition fill_note ::
    "features \<Rightarrow> profile \<Rightarrow> splice_outcome io_result \<Rightarrow> 's splice_ctx \<Rightarrow> call list" where
  "fill_note ft prof res c =
     (case res of
        Ok Closed \<Rightarrow> trace_m ft prof
          [(''from'', V_Str ''Fill''), (''to'', V_Str ''Drain''), (''reason'', V_Str ''source_closed'')]
      | Ok (BytesWritten n) \<Rightarrow> trace_m ft prof
          [(''from'', V_Str ''Fill''), (''to'', V_Str ''Fill''), (''bytes'', V_Num n)]
      | Err er \<Rightarrow>
          if would_block er then
            (if pipe_has_data c
             then trace_m ft prof
               [(''from'', V_Str ''Fill''), (''to'', V_Str ''Drain''), (''reason'', V_Str ''EAGAIN''),
                (''pipe_has_data'', V_Bool True)]
             else trace_m ft prof
               [(''from'', V_Str ''Fill''), (''to'', V_Str ''Fill''), (''reason'', V_Str ''EAGAIN''),
                (''pipe_has_data'', V_Bool False)])
          else debug_m ft None
            [(''from'', V_Str ''Fill''), (''to'', V_Str ''Finished''), (''error'', V_Display er)]
      | _ \<Rightarrow> [])"

definition drain_note ::
    "features \<Rightarrow> profile \<Rightarrow> splice_outcome io_result \<Rightarrow> 's splice_ctx \<Rightarrow> call list" where
  "drain_note ft prof res c =
     (case res of
        Ok Closed \<Rightarrow> trace_m ft prof
          [(''from'', V_Str ''Drain''), (''to'', V_Str ''Finished''), (''reason'', V_Str ''dest_closed'')]
      | Ok NoProgress \<Rightarrow> debug_m ft None
          [(''from'', V_Str ''Drain''), (''to'', V_Str ''Fill''), (''reason'', V_Str ''no_progress'')]
      | Ok (BytesWritten n) \<Rightarrow> trace_m ft prof
          [(''from'', V_Str ''Drain''), (''to'', V_Str ''Drain''), (''bytes'', V_Num n)]
      | Err er \<Rightarrow>
          if would_block er then
            (if pipe_has_data c
             then trace_m ft prof
               [(''from'', V_Str ''Drain''), (''to'', V_Str ''Drain''), (''reason'', V_Str ''EAGAIN''),
                (''pipe_has_data'', V_Bool True)]
             else trace_m ft prof
               [(''from'', V_Str ''Drain''), (''to'', V_Str ''Fill''), (''reason'', V_Str ''EAGAIN''),
                (''pipe_has_data'', V_Bool False)])
          else debug_m ft None
            [(''from'', V_Str ''Drain''), (''to'', V_Str ''Finished''), (''error'', V_Display er)])"

definition round_span :: "features \<Rightarrow> os_texts \<Rightarrow> profile \<Rightarrow> 's splice_io \<Rightarrow> call list" where
  "round_span ft texts prof io = enter_tracing_span ft prof ''loop''
     [(''splicer'', V_Debug (debug_ctx (ctx io))),
      (''state'', V_Debug (debug_state texts (state io))),
      (''bytes_written'', V_Num (bytes_written (ctx io)))]"

text \<open>
  One round as in \<open>poll_step\<close>, with the calls it makes added to the log.  The span is left where the
  round is: at the end of the body, and on every early return.
\<close>

type_synonym 'e traced = "'e \<times> call list"

fun traced_step ::
    "features \<Rightarrow> os_texts \<Rightarrow> ('s, 'e) platform \<Rightarrow> ('s, 'e) reader \<Rightarrow> ('s, 'e) writer
      \<Rightarrow> 's splice_io \<times> 'e traced
      \<Rightarrow> ('s splice_io \<times> 'e traced, ('s, 'e traced) poll_out) flow" where
  "traced_step ft texts pf r w (io, e, log) =
     (let prof = pf_profile pf;
          log1 = log @ round_span ft texts prof io;
          left = (\<lambda>l. l @ drop_span ft prof ''loop'')
      in case state io of
        Finished error \<Rightarrow>
          (case wr_poll_shutdown w e of
             (Pending, e') \<Rightarrow> Break (Val (Pending, io, e', left log1))
           | (Ready (Err er), e') \<Rightarrow> Break (Val (Ready (Err er), io, e', left log1))
           | (Ready (Ok _), e') \<Rightarrow>
               Break (Val (Ready (case error of Some er \<Rightarrow> Err er | None \<Rightarrow> Ok ()),
                           io\<lparr>state := Finished None\<rparr>, e', left log1)))
      | Fill \<Rightarrow>
          (case rd_poll_ready r e of
             (Pending, e') \<Rightarrow> Break (Val (Pending, io, e', left log1))
           | (Ready (Err er), e') \<Rightarrow> Break (Val (Ready (Err er), io, e', left log1))
           | (Ready (Ok _), e1) \<Rightarrow>
               (case rd_try_io r (try_splice_from_source pf (rd_fd r)) (ctx io) e1 of
                  Panic p \<Rightarrow> Break (Panic p)
                | Val (res, c', e2) \<Rightarrow>
                    (case after_fill res c' of
                       Panic p \<Rightarrow> Break (Panic p)
                     | Val st \<Rightarrow> Continue (io\<lparr>ctx := c', state := st\<rparr>, e2,
                                           left (log1 @ fill_note ft prof res c')))))
      | Drain \<Rightarrow>
          (case wr_poll_ready w e of
             (Pending, e') \<Rightarrow> Break (Val (Pending, io, e', left log1))
           | (Ready (Err er), e') \<Rightarrow> Break (Val (Ready (Err er), io, e', left log1))
           | (Ready (Ok _), e1) \<Rightarrow>
               (case wr_try_io w (try_splice_to_dest pf (wr_fd w)) (ctx io) e1 of
                  Panic p \<Rightarrow> Break (Panic p)
                | Val (res, c', e2) \<Rightarrow>
                    Continue (io\<lparr>ctx := c', state := after_drain res c'\<rparr>, e2,
                              left (log1 @ drain_note ft prof res c')))))"

definition traced_poll ::
    "features \<Rightarrow> os_texts \<Rightarrow> ('s, 'e) platform \<Rightarrow> ('s, 'e) reader \<Rightarrow> ('s, 'e) writer
      \<Rightarrow> 's splice_io \<times> 'e traced \<Rightarrow> ('s, 'e traced) poll_out option" where
  "traced_poll ft texts pf r w = drive (traced_step ft texts pf r w)"

section \<open>Whole transfers, with their log\<close>

fun traced_park :: "('e \<Rightarrow> 'e) \<Rightarrow> 'a \<times> 'e traced \<Rightarrow> 'a \<times> 'e traced" where
  "traced_park park (x, e, log) = (x, park e, log)"

definition report_note :: "features \<Rightarrow> os_texts \<Rightarrow> string \<Rightarrow> transfer_report \<Rightarrow> call list" where
  "report_note ft texts msg rep = debug_m ft (Some msg)
     [(''tx'', V_Num (tx rep)), (''rx'', V_Num (rx rep)),
      (''error'', V_Debug (debug_option (debug_error texts) (report_error rep)))]"

definition traced_execute ::
    "features \<Rightarrow> os_texts \<Rightarrow> ('s, 'e) platform \<Rightarrow> ('s, 'e) reader \<Rightarrow> ('s, 'e) writer \<Rightarrow> ('e \<Rightarrow> 'e)
      \<Rightarrow> 's splice_io \<Rightarrow> 'e traced \<Rightarrow> (transfer_report \<times> 'e traced) comp option" where
  "traced_execute ft texts pf r w park io st =
     map_option
       (\<lambda>out. bind_comp out (\<lambda>(res, io', e', log).
          let rep = \<lparr>tx = bytes_written (ctx io'), rx = 0, report_error = err_of res\<rparr>
          in Val (rep, drop_ctx (pf_os pf) (ctx io') e',
                  log @ report_note ft texts ''splice transfer complete'' rep)))
       (await (traced_poll ft texts pf r w) (traced_park park) (io, st))"

definition traced_bidi_poll ::
    "features \<Rightarrow> os_texts \<Rightarrow> ('s1, 'e) platform \<Rightarrow> ('s2, 'e) platform
      \<Rightarrow> ('s1, 's2, 'e) endpoint \<Rightarrow> ('s2, 's1, 'e) endpoint
      \<Rightarrow> ('s1, 's2) bidi_io \<times> 'e traced \<Rightarrow> ('s1, 's2, 'e traced) bidi_out option" where
  "traced_bidi_poll ft texts pf1 pf2 sl sr = (\<lambda>(b, st).
     case traced_poll ft texts pf1 (as_reader sl) (as_writer sr) (io_sl2sr b, st) of
       None \<Rightarrow> None
     | Some (Panic p) \<Rightarrow> Some (Panic p)
     | Some (Val (x1, io1, st1)) \<Rightarrow>
         (case traced_poll ft texts pf2 (as_reader sr) (as_writer sl) (io_sr2sl b, st1) of
            None \<Rightarrow> None
          | Some (Panic p) \<Rightarrow> Some (Panic p)
          | Some (Val (x2, io2, st2)) \<Rightarrow>
              Some (Val (bidi_join x1 x2, \<lparr>io_sl2sr = io1, io_sr2sl = io2\<rparr>, st2))))"

definition traced_bidi_execute ::
    "features \<Rightarrow> os_texts \<Rightarrow> ('s1, 'e) platform \<Rightarrow> ('s2, 'e) platform
      \<Rightarrow> ('s1, 's2, 'e) endpoint \<Rightarrow> ('s2, 's1, 'e) endpoint \<Rightarrow> ('e \<Rightarrow> 'e)
      \<Rightarrow> ('s1, 's2) bidi_io \<Rightarrow> 'e traced \<Rightarrow> (transfer_report \<times> 'e traced) comp option" where
  "traced_bidi_execute ft texts pf1 pf2 sl sr park b st =
     map_option
       (\<lambda>out. bind_comp out (\<lambda>(res, b', e', log).
          let rep = \<lparr>tx = bytes_written (ctx (io_sl2sr b')), rx = bytes_written (ctx (io_sr2sl b')),
                     report_error = err_of res\<rparr>
          in Val (rep, drop_bidi (pf_os pf1) (pf_os pf2) b' e',
                  log @ report_note ft texts ''bidi splice transfer complete'' rep)))
       (await (traced_bidi_poll ft texts pf1 pf2 sl sr) (traced_park park) (b, st))"

section \<open>Tracing changes nothing\<close>

fun forget :: "'a \<times> 'e traced \<Rightarrow> 'a \<times> 'e" where
  "forget (x, e, log) = (x, e)"

abbreviation forget_out where
  "forget_out \<equiv> map_comp (map_prod id forget)"

interpretation traced: loop_sim "poll_step pf r w" "traced_step ft texts pf r w" forget forget_out
  for pf :: "('s, 'e) platform" and r w ft texts
proof
  fix u :: "'s splice_io \<times> 'e traced"
  obtain io e log where u: "u = (io, e, log)" by (cases u rule: prod_cases3)
  show "poll_step pf r w (forget u)
      = map_flow forget forget_out (traced_step ft texts pf r w u)"
    by (simp add: u Let_def split: transfer_state.split prod.split poll.split result.split comp.split)
qed

lemma traced_poll_forget:
  "map_option forget_out (traced_poll ft texts pf r w u) = poll_execute pf r w (forget u)"
  unfolding traced_poll_def poll_execute_def by (rule traced.drive_view)

lemma traced_park_forget: "forget (traced_park park u) = park_state park (forget u)"
  by (cases u rule: prod_cases3) simp

interpretation traced_await: future_sim "poll_execute pf r w" "park_state park"
    "traced_poll ft texts pf r w" "traced_park park" forget
  for pf :: "('s, 'e) platform" and r w park ft texts
  by unfold_locales (rule traced_poll_forget traced_park_forget)+

text \<open>\<open>SpliceBidiIo\<close>: a poll is two polls, so nothing changes either.\<close>

lemma traced_bidi_poll_forget:
  "map_option forget_out (traced_bidi_poll ft texts pf1 pf2 sl sr u)
    = bidi_poll_execute pf1 pf2 sl sr (forget u)"
proof -
  obtain b e log where u: "u = (b, e, log)" by (cases u rule: prod_cases3)
  have first: "poll_execute pf1 (as_reader sl) (as_writer sr) (io_sl2sr b, e) = map_option forget_out
      (traced_poll ft texts pf1 (as_reader sl) (as_writer sr) (io_sl2sr b, e, log))"
    by (simp add: traced_poll_forget)
  have second: "poll_execute pf2 (as_reader sr) (as_writer sl) (io_sr2sl b, e1) = map_option forget_out
      (traced_poll ft texts pf2 (as_reader sr) (as_writer sl) (io_sr2sl b, e1, log1))" for e1 log1
    by (simp add: traced_poll_forget)
  show ?thesis
  proof (cases "traced_poll ft texts pf1 (as_reader sl) (as_writer sr) (io_sl2sr b, e, log)")
    case (Some out)
    show ?thesis
    proof (cases out)
      case (Val v)
      obtain x1 io1 e1 log1 where v: "v = (x1, io1, e1, log1)" by (cases v rule: prod_cases4)
      show ?thesis
        using Some Val
        by (simp add: u v traced_bidi_poll_def bidi_poll_execute_def first second [of e1 log1]
            split: option.split comp.split)
    qed (use Some in \<open>simp add: u traced_bidi_poll_def bidi_poll_execute_def first\<close>)
  qed (simp add: u traced_bidi_poll_def bidi_poll_execute_def first)
qed

interpretation traced_bidi_await: future_sim "bidi_poll_execute pf1 pf2 sl sr"
    "\<lambda>(b, e). (b, park e)" "traced_bidi_poll ft texts pf1 pf2 sl sr" "traced_park park" forget
  for pf1 :: "('s1, 'e) platform" and pf2 :: "('s2, 'e) platform" and sl sr park ft texts
proof
  show "map_option forget_out (traced_bidi_poll ft texts pf1 pf2 sl sr u)
      = bidi_poll_execute pf1 pf2 sl sr (forget u)" for u
    by (rule traced_bidi_poll_forget)
  show "forget (traced_park park u) = (case forget u of (b, e) \<Rightarrow> (b, park e))" for u
    by (cases u rule: prod_cases3) simp
qed

abbreviation forget_report :: "(transfer_report \<times> 'e traced) comp option \<Rightarrow> (transfer_report \<times> 'e) comp option" where
  "forget_report \<equiv> map_option (map_comp (map_prod id fst))"

lemma traced_execute_forget:
  "forget_report (traced_execute ft texts pf r w park io (e, log)) = execute pf r w park io e"
proof -
  have "await (poll_execute pf r w) (\<lambda>(io, e). (io, park e)) (io, e)
      = map_option forget_out (await (traced_poll ft texts pf r w) (traced_park park) (io, e, log))"
    using traced_await.await_view [of ft texts pf r w park "(io, e, log)"]
    by (simp add: park_state_eq)
  then show ?thesis
    unfolding traced_execute_def execute_def
    by (cases "await (traced_poll ft texts pf r w) (traced_park park) (io, e, log)")
      (auto simp: Let_def bind_comp_case split: comp.splits)
qed

lemma traced_bidi_execute_forget:
  "forget_report (traced_bidi_execute ft texts pf1 pf2 sl sr park b (e, log))
    = bidi_execute pf1 pf2 sl sr park b e"
proof -
  have "await (bidi_poll_execute pf1 pf2 sl sr) (\<lambda>(b, e). (b, park e)) (b, e)
      = map_option forget_out
          (await (traced_bidi_poll ft texts pf1 pf2 sl sr) (traced_park park) (b, e, log))"
    using traced_bidi_await.await_view [of ft texts pf1 pf2 sl sr park "(b, e, log)"] by simp
  then show ?thesis
    unfolding traced_bidi_execute_def bidi_execute_def
    by (cases "await (traced_bidi_poll ft texts pf1 pf2 sl sr) (traced_park park) (b, e, log)")
      (auto simp: Let_def bind_comp_case split: comp.splits)
qed

end
