(* ===== verification/Trace_Facts.thy ===== *)
theory Trace_Facts
  imports Tracing
begin

text \<open>
  What the log of a transfer tells: its transitions are a path of the state machine, from the state
  the transfer was in to the one it is left in, and the bytes it mentions are the bytes that moved.
\<close>

section \<open>The path in the log\<close>

fun hop :: "call \<Rightarrow> (string \<times> string) list" where
  "hop (Event lv m ((k1, V_Str a) # (k2, V_Str b) # fs)) =
     (if k1 = ''from'' \<and> k2 = ''to'' then [(a, b)] else [])"
| "hop c = []"

definition hops :: "call list \<Rightarrow> (string \<times> string) list" where
  "hops log = concat (map hop log)"

lemma hops_append [simp]: "hops (l @ l') = hops l @ hops l'"
  by (simp add: hops_def)

definition machine_edges :: "(string \<times> string) list" where
  "machine_edges =
     [(''Fill'', ''Fill''), (''Fill'', ''Drain''), (''Fill'', ''Finished''),
      (''Drain'', ''Drain''), (''Drain'', ''Fill''), (''Drain'', ''Finished'')]"

fun path :: "string \<Rightarrow> (string \<times> string) list \<Rightarrow> string \<Rightarrow> bool" where
  "path a [] b \<longleftrightarrow> a = b"
| "path a ((x, y) # hs) b \<longleftrightarrow> a = x \<and> (x, y) \<in> set machine_edges \<and> path y hs b"

lemma path_append: "path a (hs @ hs') b \<longleftrightarrow> (\<exists>c. path a hs c \<and> path c hs' b)"
  by (induction hs arbitrary: a) auto

definition all_on :: "features \<Rightarrow> profile \<Rightarrow> bool" where
  "all_on ft prof \<longleftrightarrow> features_ok ft \<and> trace_on ft prof"

lemma all_onD: "all_on ft prof \<Longrightarrow> trace_on ft prof" "all_on ft prof \<Longrightarrow> feat_tracing ft"
  by (auto simp: all_on_def features_ok_def trace_on_def)

lemma hops_span [simp]: "hops (round_span ft texts prof io) = []" "hops (drop_span ft prof n) = []"
  by (simp_all add: hops_def round_span_def macro_defs)

lemma hops_note:
  assumes "all_on ft prof"
  shows "after_fill res c = Val st \<Longrightarrow>
      hops (fill_note ft prof res c) = [(''Fill'', state_name \<lparr>ctx = c, state = st\<rparr>)]"
    and "hops (drain_note ft prof res c) = [(''Drain'', state_name \<lparr>ctx = c, state = after_drain res c\<rparr>)]"
  using all_onD [OF assms]
  by (auto simp: fill_note_def drain_note_def after_fill_def after_drain_def macro_defs hops_def
      state_name_def finished_def faulted_def split: result.splits splice_outcome.splits if_splits)

lemma state_name_cases: "state_name io \<in> {''Fill'', ''Drain'', ''Finished''}"
  by (simp add: state_name_def split: transfer_state.split)

fun on_path :: "string \<Rightarrow> 's splice_io \<times> 'e traced \<Rightarrow> bool" where
  "on_path a (io, e, log) = path a (hops log) (state_name io)"

lemma on_path_hop:
  assumes "path a hs b" "b \<in> {''Fill'', ''Drain''}"
  shows "path a (hs @ [(b, state_name io)]) (state_name io)"
  using assms state_name_cases [of io] by (auto simp: path_append machine_edges_def)

fun path_out :: "string \<Rightarrow> ('s, 'e traced) poll_out \<Rightarrow> bool" where
  "path_out a (Val (x, st)) \<longleftrightarrow>
     on_path a st \<and> (x = Ready (Ok ()) \<longrightarrow> state_name (fst st) = ''Finished'')"
| "path_out a (Panic p) = True"

lemma state_name_eqs:
  "state io = Fill \<Longrightarrow> state_name io = ''Fill''" "state io = Drain \<Longrightarrow> state_name io = ''Drain''"
  "state io = Finished er \<Longrightarrow> state_name io = ''Finished''"
  by (simp_all add: state_name_def)

lemma state_name_upd: "state_name (io\<lparr>ctx := c, state := st\<rparr>) = state_name \<lparr>ctx = c, state = st\<rparr>"
  by (simp add: state_name_def)

interpretation log_path: loop_inv "traced_step ft texts pf r w"
    "\<lambda>st. all_on ft (pf_profile pf) \<and> on_path a st" "path_out a"
  for pf :: "('s, 'e) platform" and r w ft texts a
proof
  fix st st' :: "'s splice_io \<times> 'e traced" and out
  obtain io e log where st: "st = (io, e, log)" by (cases st rule: prod_cases3)
  assume "all_on ft (pf_profile pf) \<and> on_path a st"
  then have on: "all_on ft (pf_profile pf)" and p: "path a (hops log) (state_name io)"
    by (simp_all add: st)
  have hop: "state io = Fill \<Longrightarrow> path a (hops log @ [(''Fill'', state_name io1)]) (state_name io1)"
    "state io = Drain \<Longrightarrow> path a (hops log @ [(''Drain'', state_name io1)]) (state_name io1)"
    for io1 :: "'s splice_io"
    using on_path_hop [OF p] by (simp_all add: state_name_eqs)
  show "all_on ft (pf_profile pf) \<and> on_path a st'"
    if "traced_step ft texts pf r w st = Continue st'"
    using that on
    by (auto simp: st Let_def state_name_eqs state_name_upd hop hops_note [OF on]
        split: transfer_state.splits prod.splits poll.splits result.splits comp.splits)
  show "path_out a out" if "traced_step ft texts pf r w st = Break out"
    using that p
    by (auto simp: st Let_def state_name_eqs
        split: transfer_state.splits prod.splits poll.splits result.splits comp.splits)
qed

lemma traced_poll_path:
  assumes "all_on ft (pf_profile pf)" "on_path a st"
    and "traced_poll ft texts pf r w st = Some (Val (x, st'))"
  shows "on_path a st' \<and> (x = Ready (Ok ()) \<longrightarrow> state_name (fst st') = ''Finished'')"
  using log_path.drive_post [of ft texts pf r w st "Val (x, st')" a] assms
  by (simp add: traced_poll_def)

section \<open>The bytes in the log\<close>

fun moved :: "string \<Rightarrow> call \<Rightarrow> nat" where
  "moved a (Event lv m [(k1, V_Str x), (k2, V_Str y), (k3, V_Num n)]) =
     (if k1 = ''from'' \<and> k2 = ''to'' \<and> k3 = ''bytes'' \<and> x = a then unat n else 0)"
| "moved a c = 0"

definition logged :: "string \<Rightarrow> call list \<Rightarrow> nat" where
  "logged a log = sum_list (map (moved a) log)"

lemma logged_append [simp]: "logged a (l @ l') = logged a l + logged a l'"
  by (simp add: logged_def)

lemma logged_Nil [simp]: "logged a [] = 0"
  by (simp add: logged_def)

lemma logged_quiet [simp]:
  "logged a (round_span ft texts prof io) = 0" "logged a (drop_span ft prof n) = 0"
  "logged a (report_note ft texts msg rep) = 0"
  by (simp_all add: logged_def round_span_def report_note_def macro_defs)

definition noted :: "splice_outcome io_result \<Rightarrow> nat" where
  "noted res = (case res of Ok (BytesWritten n) \<Rightarrow> unat n | _ \<Rightarrow> 0)"

lemma logged_note:
  assumes "trace_on ft prof"
  shows "logged a (fill_note ft prof res c) = (if a = ''Fill'' then noted res else 0)"
    and "logged a (drain_note ft prof res c) = (if a = ''Drain'' then noted res else 0)"
  using assms
  by (auto simp: fill_note_def drain_note_def macro_defs logged_def noted_def
      split: result.split splice_outcome.split)

text \<open>An attempt changes a counter by what it announces.\<close>

lemma noted_fill:
  assumes eff: "fill_effect c res c' \<or> ((\<exists>er. res = Err er) \<and> c' = c)" and cnt: "counts_ok c"
  shows "unat (bytes_read c') = unat (bytes_read c) + noted res" "bytes_written c' = bytes_written c"
  using assms unat_add_room [of "bytes_read c" "size_to_splice c"]
  by (auto simp: fill_effect_def noted_def counts_ok_def split: result.splits splice_outcome.splits)

lemma noted_drain:
  assumes eff: "drain_effect c res c'" and cnt: "counts_ok c"
  shows "unat (bytes_written c') = unat (bytes_written c) + noted res" "bytes_read c' = bytes_read c"
  using assms unat_add_room [of "bytes_written c" "bytes_read c"]
  by (auto simp: drain_effect_def noted_def counts_ok_def split: result.splits splice_outcome.splits)

text \<open>The counters of a transfer, from where they stood when the log was empty.\<close>

fun log_counts :: "nat \<Rightarrow> nat \<Rightarrow> 's splice_io \<times> 'e traced \<Rightarrow> bool" where
  "log_counts nr nw (io, e, log) \<longleftrightarrow>
     unat (bytes_read (ctx io)) = nr + logged ''Fill'' log \<and>
     unat (bytes_written (ctx io)) = nw + logged ''Drain'' log"

fun counts_out :: "nat \<Rightarrow> nat \<Rightarrow> ('s, 'e traced) poll_out \<Rightarrow> bool" where
  "counts_out nr nw (Val (x, st)) = log_counts nr nw st"
| "counts_out nr nw (Panic p) = True"

fun counts_flow ::
    "nat \<Rightarrow> nat \<Rightarrow> ('s splice_io \<times> 'e traced, ('s, 'e traced) poll_out) flow \<Rightarrow> bool" where
  "counts_flow nr nw (Continue st) = log_counts nr nw st"
| "counts_flow nr nw (Break out) = counts_out nr nw out"

lemma fill_counts:
  assumes env: "transfer_env pf P r w pw pr" and inv: "io_inv P pw pr off0 T S D io e"
    and on: "trace_on ft (pf_profile pf)" and counts: "log_counts nr nw (io, e, log)"
    and st: "state io = Fill"
  shows "counts_flow nr nw (traced_step ft texts pf r w (io, e, log))"
  using env inv st
proof (cases rule: fill_polled)
  case (Left x e1)
  with st counts show ?thesis by (auto simp: Let_def split: poll.splits result.splits)
next
  case (Tried e1 res c' e2)
  have "counts_ok (ctx io)" using inv by (simp add: io_inv_def ctx_inv_def)
  from noted_fill [OF Tried(6) this] st Tried(1,4) counts on show ?thesis
    by (auto simp: Let_def logged_note split: comp.split)
qed

lemma drain_counts:
  assumes env: "transfer_env pf P r w pw pr" and inv: "io_inv P pw pr off0 T S D io e"
    and on: "trace_on ft (pf_profile pf)" and counts: "log_counts nr nw (io, e, log)"
    and st: "state io = Drain"
  shows "counts_flow nr nw (traced_step ft texts pf r w (io, e, log))"
  using env inv st
proof (cases rule: drain_polled)
  case (Left x e1)
  with st counts show ?thesis by (auto simp: Let_def split: poll.splits result.splits)
next
  case (Tried e1 res c' e2)
  have "counts_ok (ctx io)" using inv by (simp add: io_inv_def ctx_inv_def)
  from noted_drain [OF Tried(6) this] st Tried(1,4) counts on show ?thesis
    by (auto simp: Let_def logged_note)
qed

lemma step_counts:
  assumes "transfer_env pf P r w pw pr" and "io_inv P pw pr off0 T S D io e"
    and "trace_on ft (pf_profile pf)" and counts: "log_counts nr nw (io, e, log)"
  shows "counts_flow nr nw (traced_step ft texts pf r w (io, e, log))"
proof (cases "state io")
  case Fill
  with assms show ?thesis by (rule fill_counts)
next
  case Drain
  with assms show ?thesis by (rule drain_counts)
next
  case (Finished error)
  with counts show ?thesis by (auto simp: Let_def split: prod.splits poll.splits result.splits)
qed

definition counts_state ::
    "features \<Rightarrow> ('s, 'e) platform \<Rightarrow> 'e probe \<Rightarrow> ('s, 'e) reader \<Rightarrow> ('s, 'e) writer \<Rightarrow> fd \<Rightarrow> fd
      \<Rightarrow> offset \<Rightarrow> usize \<Rightarrow> byte list \<Rightarrow> byte list \<Rightarrow> nat \<Rightarrow> nat \<Rightarrow> 's splice_io \<times> 'e traced \<Rightarrow> bool" where
  "counts_state ft pf P r w pw pr off0 T S D nr nw st \<longleftrightarrow>
     loop_state_ok pf P r w pw pr off0 T S D (forget st) \<and> trace_on ft (pf_profile pf) \<and>
     log_counts nr nw st"

interpretation log_bytes: loop_inv "traced_step ft texts pf r w"
    "counts_state ft pf P r w pw pr off0 T S D nr nw" "counts_out nr nw"
  for pf :: "('s, 'e) platform" and r w ft texts P pw pr off0 T S D nr nw
proof
  fix st st' :: "'s splice_io \<times> 'e traced" and out
  obtain io e log where st: "st = (io, e, log)" by (cases st rule: prod_cases3)
  assume ok: "counts_state ft pf P r w pw pr off0 T S D nr nw st"
  then have inv: "loop_state_ok pf P r w pw pr off0 T S D (forget st)"
    and on: "trace_on ft (pf_profile pf)" and flow: "counts_flow nr nw (traced_step ft texts pf r w st)"
    by (auto simp: counts_state_def st step_counts simp del: traced_step.simps)
  show "counts_state ft pf P r w pw pr off0 T S D nr nw st'"
    if step: "traced_step ft texts pf r w st = Continue st'"
    using poll_loop.continue_inv [OF inv traced.step_Continue [OF step]] flow on
    by (simp add: counts_state_def step)
  show "counts_out nr nw out" if "traced_step ft texts pf r w st = Break out"
    using flow by (simp add: that)
qed

lemma traced_poll_counts:
  assumes "counts_state ft pf P r w pw pr off0 T S D nr nw st"
    and "traced_poll ft texts pf r w st = Some (Val (x, st'))"
  shows "log_counts nr nw st'"
  using log_bytes.drive_post [of ft texts pf r w st "Val (x, st')" P pw pr off0 T S D nr nw] assms
  by (simp add: traced_poll_def)

section \<open>Across waits\<close>

text \<open>Waiting writes nothing to the log and moves nothing.\<close>

lemma parked_log:
  "on_path a (traced_park park st) = on_path a st"
  "log_counts nr nw (traced_park park st) = log_counts nr nw st"
  by (cases st rule: prod_cases3, simp)+

fun log_out ::
    "(unit io_result \<Rightarrow> 's splice_io \<times> 'e traced \<Rightarrow> bool)
      \<Rightarrow> (unit io_result \<times> 's splice_io \<times> 'e traced) comp option \<Rightarrow> bool" where
  "log_out J (Some (Val (res, st))) = J res st"
| "log_out J out = True"

fun on_path_end :: "string \<Rightarrow> bool \<Rightarrow> 's splice_io \<times> 'e traced \<Rightarrow> bool" where
  "on_path_end a fine st \<longleftrightarrow> on_path a st \<and> (fine \<longrightarrow> state_name (fst st) = ''Finished'')"

interpretation await_path: loop_inv
    "await_step (traced_poll ft texts pf r w) (traced_park park)"
    "\<lambda>st. all_on ft (pf_profile pf) \<and> on_path a st" "log_out (\<lambda>res. on_path_end a (res = Ok ()))"
  for pf :: "('s, 'e) platform" and r w park ft texts a
proof
  fix st st' :: "'s splice_io \<times> 'e traced" and out
  assume ok: "all_on ft (pf_profile pf) \<and> on_path a st"
  note poll = traced_poll_path [OF conjunct1 [OF ok] conjunct2 [OF ok]]
  show "all_on ft (pf_profile pf) \<and> on_path a st'"
    if "await_step (traced_poll ft texts pf r w) (traced_park park) st = Continue st'"
    using that ok poll
    by (auto simp: await_step_def parked_log split: option.splits comp.splits poll.splits)
  show "log_out (\<lambda>res. on_path_end a (res = Ok ())) out"
    if "await_step (traced_poll ft texts pf r w) (traced_park park) st = Break out"
    using that poll by (auto simp: await_step_def split: option.splits comp.splits poll.splits)
qed

definition await_counts where
  "await_counts ft pf P r w park pw pr off0 T S D nr nw st \<longleftrightarrow>
     counts_state ft pf P r w pw pr off0 T S D nr nw st \<and> park_keeps P park"

interpretation await_bytes: loop_inv
    "await_step (traced_poll ft texts pf r w) (traced_park park)"
    "await_counts ft pf P r w park pw pr off0 T S D nr nw" "log_out (\<lambda>_. log_counts nr nw)"
  for pf :: "('s, 'e) platform" and r w park ft texts P pw pr off0 T S D nr nw
proof
  fix st st' :: "'s splice_io \<times> 'e traced" and out
  assume ok: "await_counts ft pf P r w park pw pr off0 T S D nr nw st"
  then have counts: "counts_state ft pf P r w pw pr off0 T S D nr nw st"
    and exec: "exec_ok pf P r w park pw pr off0 T S D (forget st)"
    by (simp_all add: await_counts_def counts_state_def exec_ok_def)
  note poll = traced_poll_counts [OF counts]
  show "await_counts ft pf P r w park pw pr off0 T S D nr nw st'"
    if step: "await_step (traced_poll ft texts pf r w) (traced_park park) st = Continue st'"
  proof -
    have "exec_ok pf P r w park pw pr off0 T S D (forget st')"
      using exec_loop.continue_inv [OF exec traced_await.awaiting.step_Continue [OF step]] .
    moreover have "log_counts nr nw st'"
      using step poll
      by (auto simp: await_step_def parked_log split: option.splits comp.splits poll.splits)
    ultimately show ?thesis
      using ok by (simp add: await_counts_def counts_state_def exec_ok_def)
  qed
  show "log_out (\<lambda>_. log_counts nr nw) out"
    if "await_step (traced_poll ft texts pf r w) (traced_park park) st = Break out"
    using that poll by (auto simp: await_step_def split: option.splits comp.splits poll.splits)
qed

section \<open>A whole transfer\<close>

lemma await_Some_drive:
  "await pollf park st = Some out \<Longrightarrow> drive (await_step pollf park) st = Some (Some out)"
  by (auto simp: await_def bind_eq_Some_conv)

lemma traced_execute_awaited:
  assumes "traced_execute ft texts pf r w park io st = Some (Val (rep, e', log))"
  obtains res io' e1 log1 where
    "drive (await_step (traced_poll ft texts pf r w) (traced_park park)) (io, st)
      = Some (Some (Val (res, io', e1, log1)))"
    "rep = \<lparr>tx = bytes_written (ctx io'), rx = 0, report_error = err_of res\<rparr>"
    "e' = drop_ctx (pf_os pf) (ctx io') e1"
    "log = log1 @ report_note ft texts ''splice transfer complete'' rep"
proof -
  from assms obtain out where
    aw: "await (traced_poll ft texts pf r w) (traced_park park) (io, st) = Some out"
    and out: "bind_comp out (\<lambda>(res, io', e', log).
        let rep = \<lparr>tx = bytes_written (ctx io'), rx = 0, report_error = err_of res\<rparr>
        in Val (rep, drop_ctx (pf_os pf) (ctx io') e',
                log @ report_note ft texts ''splice transfer complete'' rep)) = Val (rep, e', log)"
    by (auto simp: traced_execute_def)
  from out obtain res io' e1 log1 where "out = Val (res, io', e1, log1)"
    by (cases out) auto
  with aw out that show thesis by (auto simp: Let_def dest: await_Some_drive)
qed

lemma traced_execute_path:
  assumes on: "all_on ft (pf_profile pf)"
    and run: "traced_execute ft texts pf r w park io (e, []) = Some (Val (rep, e', log))"
  shows "\<exists>z. path (state_name io) (hops log) z \<and> (report_error rep = None \<longrightarrow> z = ''Finished'')"
proof -
  from run obtain res io' e1 log1 where
    d: "drive (await_step (traced_poll ft texts pf r w) (traced_park park)) (io, e, [])
      = Some (Some (Val (res, io', e1, log1)))"
    and rep: "rep = \<lparr>tx = bytes_written (ctx io'), rx = 0, report_error = err_of res\<rparr>"
    and log: "log = log1 @ report_note ft texts ''splice transfer complete'' rep"
    by (rule traced_execute_awaited)
  have "hops (report_note ft texts ''splice transfer complete'' rep) = []"
    by (simp add: hops_def report_note_def debug_m_def)
  moreover have "on_path_end (state_name io) (res = Ok ()) (io', e1, log1)"
    using await_path.drive_post [OF d, of "state_name io"] on by (simp add: hops_def)
  ultimately show ?thesis by (cases res) (auto simp: rep log)
qed

lemma traced_execute_last:
  assumes "all_on ft (pf_profile pf)"
    and "traced_execute ft texts pf r w park io (e, []) = Some (Val (rep, e', log))"
  shows "last log = Event L_Debug (Some ''splice transfer complete'')
    [(''tx'', V_Num (tx rep)), (''rx'', V_Num (rx rep)),
     (''error'', V_Debug (debug_option (debug_error texts) (report_error rep)))]"
  by (rule traced_execute_awaited [OF assms(2)])
    (simp add: report_note_def debug_m_def all_onD(2) [OF assms(1)])

lemma traced_execute_counts:
  assumes env: "transfer_env pf P r w pw pr" and inv: "io_inv P pw pr off0 T S D io e"
    and park: "park_keeps P park" and on: "trace_on ft (pf_profile pf)"
    and run: "traced_execute ft texts pf r w park io (e, []) = Some (Val (rep, e', log))"
  shows "unat (tx rep) = unat (bytes_written (ctx io)) + logged ''Drain'' log"
    and "logged ''Drain'' log \<le> unat (bytes_read (ctx io)) - unat (bytes_written (ctx io)) + logged ''Fill'' log"
proof -
  from run obtain res io' e1 log1 where
    d: "drive (await_step (traced_poll ft texts pf r w) (traced_park park)) (io, e, [])
      = Some (Some (Val (res, io', e1, log1)))"
    and rep: "rep = \<lparr>tx = bytes_written (ctx io'), rx = 0, report_error = err_of res\<rparr>"
    and log: "log = log1 @ report_note ft texts ''splice transfer complete'' rep"
    by (rule traced_execute_awaited)
  have exec: "exec_ok pf P r w park pw pr off0 T S D (io, e)"
    using env inv park by (simp add: exec_ok_def)
  have "await_counts ft pf P r w park pw pr off0 T S D (unat (bytes_read (ctx io)))
      (unat (bytes_written (ctx io))) (io, e, [])"
    using env inv park on by (simp add: await_counts_def counts_state_def)
  from await_bytes.drive_post [OF d this]
  have counts: "unat (bytes_read (ctx io')) = unat (bytes_read (ctx io)) + logged ''Fill'' log1"
    "unat (bytes_written (ctx io')) = unat (bytes_written (ctx io)) + logged ''Drain'' log1"
    by simp_all
  then show "unat (tx rep) = unat (bytes_written (ctx io)) + logged ''Drain'' log"
    by (simp add: rep log)
  have "drive (await_step (poll_execute pf r w) (park_state park)) (io, e)
      = Some (Some (Val (res, io', e1)))"
    using traced_await.awaiting.drive_view_to [OF d] by simp
  from exec_loop.drive_post [OF this exec]
  have "ctx_inv P pw pr off0 T S D (ctx io') e1"
    by (cases res) (auto simp: io_inv_def)
  then have "unat (bytes_written (ctx io')) \<le> unat (bytes_read (ctx io'))"
    by (auto simp: ctx_inv_def counts_ok_def word_le_nat_alt)
  with counts show "logged ''Drain'' log
      \<le> unat (bytes_read (ctx io)) - unat (bytes_written (ctx io)) + logged ''Fill'' log"
    by (simp add: log)
qed

end
