(* ===== verification/Bidi_Parking.thy ===== *)
theory Bidi_Parking
  imports Parking Bidi_Correct
begin

text \<open>
  Where a waiting bidirectional transfer waits: both directions, at every pause, on the side that can
  make them go on.  The two share one task, so what one direction does must leave the readiness of
  the other's descriptors, and must not take back that the task has woken itself.
\<close>

section \<open>What one direction leaves of the other's readiness\<close>

definition still ::
    "('e \<Rightarrow> bool) \<Rightarrow> ('s, 'e) reader \<Rightarrow> ('s, 'e) writer \<Rightarrow> 'e \<Rightarrow> 'e \<Rightarrow> bool" where
  "still woken r w e e' \<longleftrightarrow>
     (woken e \<longrightarrow> woken e') \<and>
     (stays_ready woken (rd_poll_ready r) e \<longrightarrow> stays_ready woken (rd_poll_ready r) e') \<and>
     (stays_ready woken (wr_poll_ready w) e \<longrightarrow> stays_ready woken (wr_poll_ready w) e')"

lemma still_order: "reflp (still woken r w)" "transp (still woken r w)"
  by (auto simp: still_def intro!: reflpI transpI)

lemma still_waits: "still woken r w e e' \<Longrightarrow> waits_well r w woken io e \<Longrightarrow> waits_well r w woken io e'"
  by (auto simp: still_def waits_well_def split: transfer_state.splits)

section \<open>One direction\<close>

text \<open>When no readiness poll fails, a direction that is not pending is over.\<close>

fun over_or_pending :: "('s, 'e) poll_out \<Rightarrow> bool" where
  "over_or_pending (Val (Ready x, io, e)) = (\<exists>er. state io = Finished er)"
| "over_or_pending out = True"

interpretation steady_loop: loop_inv "poll_step pf r w"
    "\<lambda>_. steady (rd_poll_ready r) \<and> steady (wr_poll_ready w)" over_or_pending
  for pf :: "('s, 'e) platform" and r w
proof
  fix st :: "'s splice_io \<times> 'e" and out
  obtain io e where st: "st = (io, e)" by (cases st)
  assume "steady (rd_poll_ready r) \<and> steady (wr_poll_ready w)"
  then show "over_or_pending out" if "poll_step pf r w st = Break out"
    using that
    by (auto simp: st steady_def split: transfer_state.splits prod.splits poll.splits result.splits
        comp.splits)
qed

definition readiness_ok ::
    "('s, 'e) platform \<Rightarrow> ('s, 'e) reader \<Rightarrow> ('s, 'e) writer \<Rightarrow> ('e \<Rightarrow> bool) \<Rightarrow> ('e \<Rightarrow> 'e) \<Rightarrow> bool" where
  "readiness_ok pf r w woken park \<longleftrightarrow>
     keeps_ready pf r w woken \<and> wakes_ready r w woken park \<and>
     steady (rd_poll_ready r) \<and> steady (wr_poll_ready w)"

lemma half_parks:
  assumes env: "lane_env pf L r w" and ready: "readiness_ok pf r w woken park"
    and ok: "half_ok L io e" and waits: "waits_well r w woken io e"
    and run: "poll_execute pf r w (io, e) = Some (Val (x, io', e'))"
  shows "woken e' \<or> parked_well io'"
proof (cases "x = Pending")
  case True
  show ?thesis
  proof (cases "state_ok io")
    case st: True
    let ?P = "ln_probe L" and ?S = "ln_src L" and ?D = "ln_dst L" and ?T = "ln_target L"
    have "transfer_env pf ?P r w (ln_pw L) (ln_pr L)" using env by (simp add: lane_env_def)
    moreover have "io_inv ?P (ln_pw L) (ln_pr L) Off_None ?T ?S ?D io e"
      using st ok by (simp add: io_inv_def half_ok_def lane_inv_def)
    moreover have "keeps_ready pf r w woken" using ready by (simp add: readiness_ok_def)
    ultimately show ?thesis by (rule poll_parks [OF _ _ _ waits run [unfolded True]])
  next
    case False
    with ok have over: "state io = Finished None" by (simp add: half_ok_def)
    then have "io' = io"
      using run by (auto simp: poll_over [OF over] split: prod.splits poll.splits result.splits)
    with over show ?thesis by (simp add: parked_well_def)
  qed
next
  case False
  have "over_or_pending (Val (x, io', e'))"
    by (rule steady_loop.drive_post [OF run [unfolded poll_execute_def]])
      (use ready in \<open>simp add: readiness_ok_def\<close>)
  with False obtain er where "state io' = Finished er" by (cases x) auto
  then show ?thesis by (simp add: parked_well_def)
qed

section \<open>Both directions\<close>

definition bidi_readiness where
  "bidi_readiness pf1 pf2 L1 L2 sl sr woken park \<longleftrightarrow>
     readiness_ok pf1 (as_reader sl) (as_writer sr) woken park \<and>
     readiness_ok pf2 (as_reader sr) (as_writer sl) woken park \<and>
     calm pf1 (as_reader sl) (as_writer sr) (ln_pw L1) (ln_pr L1)
       (still woken (as_reader sr) (as_writer sl)) \<and>
     calm pf2 (as_reader sr) (as_writer sl) (ln_pw L2) (ln_pr L2)
       (still woken (as_reader sl) (as_writer sr))"

definition bidi_parked where
  "bidi_parked L1 L2 woken b e \<longleftrightarrow>
     bidi_ok L1 L2 b e \<and> (woken e \<or> parked_well (io_sl2sr b)) \<and> (woken e \<or> parked_well (io_sr2sl b))"

lemma bidi_poll_parks:
  assumes env: "bidi_env pf1 pf2 L1 L2 sl sr" and ready: "bidi_readiness pf1 pf2 L1 L2 sl sr woken park"
    and ok: "bidi_ok L1 L2 b e"
    and waits: "waits_well (as_reader sl) (as_writer sr) woken (io_sl2sr b) e"
      "waits_well (as_reader sr) (as_writer sl) woken (io_sr2sl b) e"
    and run: "bidi_poll_execute pf1 pf2 sl sr (b, e) = Some (Val (x, b', e'))"
  shows "bidi_parked L1 L2 woken b' e'"
proof -
  from env have env1: "lane_env pf1 L1 (as_reader sl) (as_writer sr)"
    and env2: "lane_env pf2 L2 (as_reader sr) (as_writer sl)"
    by (simp_all only: bidi_env_def)
  from ready have ready1: "readiness_ok pf1 (as_reader sl) (as_writer sr) woken park"
    and ready2: "readiness_ok pf2 (as_reader sr) (as_writer sl) woken park"
    and calm1: "calm pf1 (as_reader sl) (as_writer sr) (ln_pw L1) (ln_pr L1)
       (still woken (as_reader sr) (as_writer sl))"
    and calm2: "calm pf2 (as_reader sr) (as_writer sl) (ln_pw L2) (ln_pr L2)
       (still woken (as_reader sl) (as_writer sr))"
    by (simp_all only: bidi_readiness_def)
  from ok have ok1: "half_ok L1 (io_sl2sr b) e" by (simp only: bidi_ok_def)
  obtain x1 x2 e1 where
    run1: "poll_execute pf1 (as_reader sl) (as_writer sr) (io_sl2sr b, e)
      = Some (Val (x1, io_sl2sr b', e1))"
    and run2: "poll_execute pf2 (as_reader sr) (as_writer sl) (io_sr2sl b, e1)
      = Some (Val (x2, io_sr2sl b', e'))"
    and ok': "bidi_ok L1 L2 b' e'" and mid: "half_ok L2 (io_sr2sl b) e1"
    by (rule bidi_polled [OF env ok run])
  have mid_waits: "waits_well (as_reader sr) (as_writer sl) woken (io_sr2sl b) e1"
    by (rule still_waits [OF poll_calm [OF calm1 still_order half_ok_ends [OF ok1] run1] waits(2)])
  have after: "still woken (as_reader sl) (as_writer sr) e1 e'"
    by (rule poll_calm [OF calm2 still_order half_ok_ends [OF mid] run2])
  have "woken e' \<or> parked_well (io_sl2sr b')"
    using half_parks [OF env1 ready1 ok1 waits(1) run1] after by (auto simp: still_def)
  with ok' half_parks [OF env2 ready2 mid mid_waits run2] show ?thesis
    by (simp add: bidi_parked_def)
qed

lemma bidi_pauses_parked:
  assumes env: "bidi_env pf1 pf2 L1 L2 sl sr" and ready: "bidi_readiness pf1 pf2 L1 L2 sl sr woken park"
    and park: "park_keeps (ln_probe L1) park" "park_keeps (ln_probe L2) park"
    and paused: "paused (bidi_poll_execute pf1 pf2 sl sr) (\<lambda>(b, e). (b, park e)) (b, e) (b', e')"
    and ok: "bidi_ok L1 L2 b e" and well: "parked_well (io_sl2sr b)" "parked_well (io_sr2sl b)"
  shows "bidi_parked L1 L2 woken b' e'"
  using paused
proof (induction "(b', e')" arbitrary: b' e' rule: paused.induct)
  case first_pause
  then show ?case
    by (rule bidi_poll_parks [OF env ready ok parked_well_waits [OF well(1)] parked_well_waits [OF well(2)]])
next
  case (next_pause st1)
  obtain b1 e1 where st1: "st1 = (b1, e1)" by (cases st1)
  note IH = next_pause(2) [OF st1] and run = next_pause(3) [unfolded st1 prod.case]
  have wakes: "wakes_ready (as_reader sl) (as_writer sr) woken park"
    "wakes_ready (as_reader sr) (as_writer sl) woken park"
    using ready by (simp_all add: bidi_readiness_def readiness_ok_def)
  have view: "same_view (ln_probe L1) e1 (park e1)" "same_view (ln_probe L2) e1 (park e1)"
    using park by (simp_all add: park_keeps_def)
  have "bidi_ok L1 L2 b1 (park e1)" using IH by (simp add: bidi_parked_def bidi_ok_same_view [OF view])
  moreover have "waits_well (as_reader sl) (as_writer sr) woken (io_sl2sr b1) (park e1)"
    "waits_well (as_reader sr) (as_writer sl) woken (io_sr2sl b1) (park e1)"
    using IH wakes_ready_waits [OF wakes(1)] wakes_ready_waits [OF wakes(2)]
    by (simp_all add: bidi_parked_def)
  ultimately show ?case by (rule bidi_poll_parks [OF env ready _ _ _ run])
qed

end
