(* ===== verification/Bidi_Spec.thy ===== *)
theory Bidi_Spec
  imports Exec_Spec Bidi_Correct
begin

text \<open>
  A bidirectional transfer as two runs of the abstract machine of theory Stream_Spec, one for each
  direction, that do not interfere although they share the task.
\<close>

section \<open>One direction among two\<close>

text \<open>
  A direction that fails hands its error out; when the other direction is pending, the joint poll
  drops it, and the direction is polled again as one that is over.  So the view of the code follows
  the abstract machine up to an error that has been taken out.
\<close>

definition taken_out :: "aview \<Rightarrow> aview" where
  "taken_out a = View (Finished None) (a_src a) (a_buf a) (a_dst a) (a_quota a) (a_closed a)"

definition follows :: "aview \<Rightarrow> aview \<Rightarrow> bool" where
  "follows a v \<longleftrightarrow>
     (\<exists>b. astep\<^sup>*\<^sup>* a b \<and> (v = b \<or> (\<exists>er. a_phase b = Finished (Some er)) \<and> v = taken_out b))"

lemma followsI: "astep\<^sup>*\<^sup>* a v \<Longrightarrow> follows a v"
  by (auto simp: follows_def)

lemma follows_running: "follows a v \<Longrightarrow> a_phase v \<noteq> Finished None \<Longrightarrow> astep\<^sup>*\<^sup>* a v"
  by (auto simp: follows_def taken_out_def)

lemma follows_run:
  assumes "follows a v"
  obtains b where "astep\<^sup>*\<^sup>* a b" "a_dst b = a_dst v"
    "a_phase v = Finished None \<longrightarrow> (\<exists>er. a_phase b = Finished er)"
proof -
  from assms obtain b where "astep\<^sup>*\<^sup>* a b"
    "v = b \<or> (\<exists>er. a_phase b = Finished (Some er)) \<and> v = taken_out b"
    by (auto simp: follows_def)
  then show thesis by (intro that [of b]) (auto simp: taken_out_def)
qed

lemma left_in_follows: "left_in P a (Val (x, io, e)) \<Longrightarrow> follows a (aview_of P io e)"
  by (cases "(P, a, Val (x, io, e))" rule: left_in.cases)
    (auto simp: follows_def taken_out_def)

lemma half_follows:
  assumes env: "lane_env pf L r w" and ok: "half_ok L io e"
    and fl: "follows a (aview_of (ln_probe L) io e)"
    and run: "poll_execute pf r w (io, e) = Some (Val (x, io', e'))"
  shows "follows a (aview_of (ln_probe L) io' e')"
proof (cases "state io = Finished None")
  case False
  let ?P = "ln_probe L" and ?S = "ln_src L" and ?D = "ln_dst L" and ?T = "ln_target L"
  have "transfer_env pf ?P r w (ln_pw L) (ln_pr L)" using env by (simp add: lane_env_def)
  moreover have "io_inv ?P (ln_pw L) (ln_pr L) Off_None ?T ?S ?D io e"
    using False ok by (simp add: io_inv_def half_ok_def lane_inv_def)
  ultimately have "left_in ?P (aview_of ?P io e) (Val (x, io', e'))"
    by (rule poll_refines [OF _ _ run])
  moreover have "astep\<^sup>*\<^sup>* a (aview_of ?P io e)"
    using follows_running [OF fl] False by (simp add: aview_of_def)
  ultimately show ?thesis by (blast intro: left_in_follows left_in_trans)
next
  case True
  obtain y e1 where y: "wr_poll_shutdown w e = (y, e1)" by (cases "wr_poll_shutdown w e")
  have "io' = io" "e' = e1"
    using run by (auto simp: poll_over [OF True] y split: poll.splits result.splits)
  moreover have "same_view (ln_probe L) e e1"
    using env y by (auto simp: lane_env_def transfer_env_def dest: writer_okD(2) poll_keepsD)
  ultimately show ?thesis using fl by (simp add: aview_of_same_view)
qed

section \<open>Both\<close>

definition bidi_follows where
  "bidi_follows L1 L2 a1 a2 b e \<longleftrightarrow>
     bidi_ok L1 L2 b e \<and> follows a1 (aview_of (ln_probe L1) (io_sl2sr b) e) \<and>
     follows a2 (aview_of (ln_probe L2) (io_sr2sl b) e)"

lemma bidi_poll_follows:
  assumes env: "bidi_env pf1 pf2 L1 L2 sl sr" and fl: "bidi_follows L1 L2 a1 a2 b e"
    and run: "bidi_poll_execute pf1 pf2 sl sr (b, e) = Some (Val (x, b', e'))"
  shows "bidi_follows L1 L2 a1 a2 b' e'"
proof -
  from env have env1: "lane_env pf1 L1 (as_reader sl) (as_writer sr)"
    and env2: "lane_env pf2 L2 (as_reader sr) (as_writer sl)"
    by (simp_all only: bidi_env_def)
  from fl have ok: "bidi_ok L1 L2 b e" and ok1: "half_ok L1 (io_sl2sr b) e"
    and fl1: "follows a1 (aview_of (ln_probe L1) (io_sl2sr b) e)"
    and fl2: "follows a2 (aview_of (ln_probe L2) (io_sr2sl b) e)"
    by (simp_all only: bidi_follows_def bidi_ok_def)
  obtain x1 x2 e1 where
    run1: "poll_execute pf1 (as_reader sl) (as_writer sr) (io_sl2sr b, e)
      = Some (Val (x1, io_sl2sr b', e1))"
    and run2: "poll_execute pf2 (as_reader sr) (as_writer sl) (io_sr2sl b, e1)
      = Some (Val (x2, io_sr2sl b', e'))"
    and ok': "bidi_ok L1 L2 b' e'" and mid: "half_ok L2 (io_sr2sl b) e1"
    and view2: "same_view (ln_probe L2) e e1" and view1: "same_view (ln_probe L1) e1 e'"
    by (rule bidi_polled [OF env ok run])
  have "follows a1 (aview_of (ln_probe L1) (io_sl2sr b') e')"
    using half_follows [OF env1 ok1 fl1 run1] by (simp add: aview_of_same_view [OF view1])
  moreover have "follows a2 (aview_of (ln_probe L2) (io_sr2sl b') e')"
    by (rule half_follows [OF env2 mid _ run2]) (simp add: aview_of_same_view [OF view2] fl2)
  ultimately show ?thesis using ok' by (simp add: bidi_follows_def)
qed

definition bidi_setting where
  "bidi_setting pf1 pf2 L1 L2 sl sr park \<longleftrightarrow>
     bidi_env pf1 pf2 L1 L2 sl sr \<and> park_keeps (ln_probe L1) park \<and> park_keeps (ln_probe L2) park"

lemma bidi_park_follows:
  assumes "bidi_setting pf1 pf2 L1 L2 sl sr park" and "bidi_follows L1 L2 a1 a2 b e"
  shows "bidi_follows L1 L2 a1 a2 b (park e)"
proof -
  have view: "same_view (ln_probe L1) e (park e)" "same_view (ln_probe L2) e (park e)"
    using assms(1) by (simp_all add: bidi_setting_def park_keeps_def)
  show ?thesis
    using assms(2)
    by (simp add: bidi_follows_def bidi_ok_same_view [OF view] aview_of_same_view [OF view(1)]
        aview_of_same_view [OF view(2)])
qed

interpretation bidi_spec: future_inv "bidi_poll_execute pf1 pf2 sl sr" "\<lambda>(b, e). (b, park e)"
    "\<lambda>(b, e). bidi_setting pf1 pf2 L1 L2 sl sr park \<and> bidi_follows L1 L2 a1 a2 b e"
  for pf1 :: "('s1, 'e) platform" and pf2 :: "('s2, 'e) platform" and sl sr park L1 L2 a1 a2
  by unfold_locales (auto simp: bidi_setting_def intro: bidi_poll_follows
      bidi_park_follows [unfolded bidi_setting_def])

text \<open>
  What a run has delivered is what the destination holds when everything is dropped, and a report
  without an error means that neither direction has anything left to do.
\<close>

lemma bidi_execute_refines:
  assumes env: "bidi_env pf1 pf2 L1 L2 sl sr"
    and park: "park_keeps (ln_probe L1) park" "park_keeps (ln_probe L2) park"
    and ok: "bidi_ok L1 L2 b e" and run: "bidi_execute pf1 pf2 sl sr park b e = Some (Val (rep, e'))"
  shows "\<exists>d1 d2. astep\<^sup>*\<^sup>* (aview_of (ln_probe L1) (io_sl2sr b) e) d1 \<and>
    astep\<^sup>*\<^sup>* (aview_of (ln_probe L2) (io_sr2sl b) e) d2 \<and>
    v_dst (ln_probe L1) None e' = a_dst d1 \<and> a_dst d1 = ln_dst L1 @ take (unat (tx rep)) (ln_src L1) \<and>
    v_dst (ln_probe L2) None e' = a_dst d2 \<and> a_dst d2 = ln_dst L2 @ take (unat (rx rep)) (ln_src L2) \<and>
    (report_error rep = None \<longrightarrow>
       (\<exists>er. a_phase d1 = Finished er) \<and> (\<exists>er. a_phase d2 = Finished er))"
proof -
  let ?a1 = "aview_of (ln_probe L1) (io_sl2sr b) e" and ?a2 = "aview_of (ln_probe L2) (io_sr2sl b) e"
  let ?J = "\<lambda>(b, e). bidi_setting pf1 pf2 L1 L2 sl sr park \<and> bidi_follows L1 L2 ?a1 ?a2 b e"
  from run obtain res b1 e1 where
    aw: "await (bidi_poll_execute pf1 pf2 sl sr) (\<lambda>(b, e). (b, park e)) (b, e)
      = Some (Val (res, b1, e1))"
    and rep: "rep = \<lparr>tx = bytes_written (ctx (io_sl2sr b1)), rx = bytes_written (ctx (io_sr2sl b1)),
      report_error = err_of res\<rparr>"
    and e': "e' = drop_ctx (pf_os pf2) (ctx (io_sr2sl b1)) (drop_ctx (pf_os pf1) (ctx (io_sl2sr b1)) e1)"
    by (auto simp: bidi_execute_unfold bind_eq_Some_conv bind_comp_Val_iff)
  have "?J (b, e)"
    using env park ok by (simp add: bidi_setting_def bidi_follows_def followsI)
  from bidi_spec.awaited_last [OF aw this] obtain b0 e0 where fl0: "bidi_follows L1 L2 ?a1 ?a2 b0 e0"
    and last: "bidi_poll_execute pf1 pf2 sl sr (b0, e0) = Some (Val (Ready res, b1, e1))"
    by auto
  from bidi_poll_follows [OF env fl0 last] have ok1: "bidi_ok L1 L2 b1 e1"
    and fl: "follows ?a1 (aview_of (ln_probe L1) (io_sl2sr b1) e1)"
      "follows ?a2 (aview_of (ln_probe L2) (io_sr2sl b1) e1)"
    by (simp_all add: bidi_follows_def)
  have over: "state (io_sl2sr b1) = Finished None \<and> state (io_sr2sl b1) = Finished None"
    if "report_error rep = None"
  proof -
    have "res = Ok ()" using that by (cases res) (simp_all add: rep)
    moreover have "bidi_ok L1 L2 b0 e0" using fl0 by (simp add: bidi_follows_def)
    from bidi_polled [OF env this last] obtain x1 x2 where "bidi_join x1 x2 = Ready res"
      "x1 = Ready (Ok ()) \<longrightarrow> state (io_sl2sr b1) = Finished None"
      "x2 = Ready (Ok ()) \<longrightarrow> state (io_sr2sl b1) = Finished None" by metis
    ultimately show ?thesis by (simp add: bidi_join_cases(1))
  qed
  obtain d1 where d1: "astep\<^sup>*\<^sup>* ?a1 d1" "a_dst d1 = a_dst (aview_of (ln_probe L1) (io_sl2sr b1) e1)"
    "a_phase (aview_of (ln_probe L1) (io_sl2sr b1) e1) = Finished None \<longrightarrow> (\<exists>er. a_phase d1 = Finished er)"
    by (rule follows_run [OF fl(1)])
  obtain d2 where d2: "astep\<^sup>*\<^sup>* ?a2 d2" "a_dst d2 = a_dst (aview_of (ln_probe L2) (io_sr2sl b1) e1)"
    "a_phase (aview_of (ln_probe L2) (io_sr2sl b1) e1) = Finished None \<longrightarrow> (\<exists>er. a_phase d2 = Finished er)"
    by (rule follows_run [OF fl(2)])
  have half: "a_dst (aview_of (ln_probe L) io e1)
      = ln_dst L @ take (unat (bytes_written (ctx io))) (ln_src L)" if "half_ok L io e1" for L io
    using aview_of_inv that by (fastforce simp: half_ok_def lane_inv_def)
  have "v_dst (ln_probe L1) None e' = ln_dst L1 @ take (unat (tx rep)) (ln_src L1)"
    "v_dst (ln_probe L2) None e' = ln_dst L2 @ take (unat (rx rep)) (ln_src L2)"
    using sent_after_drops [OF env ok1] by (simp_all add: e' rep sent_def)
  moreover have "a_dst d1 = ln_dst L1 @ take (unat (tx rep)) (ln_src L1)"
    "a_dst d2 = ln_dst L2 @ take (unat (rx rep)) (ln_src L2)"
    using ok1 by (simp_all add: d1(2) d2(2) half bidi_ok_def rep)
  moreover have "(\<exists>er. a_phase d1 = Finished er) \<and> (\<exists>er. a_phase d2 = Finished er)"
    if "report_error rep = None"
    using over [OF that] d1(3) d2(3) by (simp add: aview_of_def)
  ultimately show ?thesis using d1(1) d2(1) by metis
qed

end
