(* ===== verification/Proxy_Tasks.thy ===== *)
theory Proxy_Tasks
  imports Proxy_Main
begin

text \<open>
  The proxy of \<open>examples/proxy.rs\<close> at work: the accept loop and the tasks it has spawned take turns
  on one thread.  A task is the future of \<open>forwarding\<close>, here poll by poll; the runtime polls the tasks
  and the loop in an order of its own, so a step of the process is a step of any of them.
\<close>

section \<open>A task, poll by poll\<close>

text \<open>
  Where the future of \<open>forwarding\<close> is parked, with what it owns there: at the \<open>connect\<close>, or at
  \<open>SpliceBidiIo::execute\<close>.  A socket that is still being connected belongs to tokio, so a poll of
  \<open>connect\<close> counts when it is ready.
\<close>

datatype 'e task_state =
    Spawned "'e tcp_stream" string
  | Transferring "'e tcp_stream" "'e tcp_stream" "(live, live) bidi_io"
  | Completed

type_synonym 'e task_out =
  "((unit io_result \<times> traffic_line option) poll \<times> 'e task_state \<times> 'e) comp option"

text \<open>
  The end of \<open>forwarding\<close>: the report is made, the transfer dropped, the line printed, and the two
  streams dropped.
\<close>

definition forwarding_end ::
    "profile \<Rightarrow> 'e os \<Rightarrow> 'e tcp_stream \<Rightarrow> 'e tcp_stream \<Rightarrow> unit io_result \<times> (live, live) bidi_io \<times> 'e
      \<Rightarrow> ((unit io_result \<times> traffic_line option) \<times> 'e task_state \<times> 'e) comp" where
  "forwarding_end prof os stream1 stream2 = (\<lambda>(res, b, e).
     bind_comp (usize_add prof (bytes_written (ctx (io_sl2sr b))) (bytes_written (ctx (io_sr2sl b))))
       (\<lambda>total. Val ((Ok (), Some (Forwarded total (err_of res))), Completed,
          drop_stream os stream1 (drop_stream os stream2 (drop_bidi os os b e)))))"

definition transfer_poll ::
    "profile \<Rightarrow> 'e os \<Rightarrow> 'e tcp_stream \<Rightarrow> 'e tcp_stream \<Rightarrow> (live, live) bidi_io \<times> 'e \<Rightarrow> 'e task_out" where
  "transfer_poll prof os stream1 stream2 st =
     (case bidi_poll_execute (live_platform prof os) (live_platform prof os) stream1 stream2 st of
        None \<Rightarrow> None
      | Some (Panic p) \<Rightarrow> Some (Panic p)
      | Some (Val (Pending, b, e)) \<Rightarrow> Some (Val (Pending, Transferring stream1 stream2 b, e))
      | Some (Val (Ready res, b, e)) \<Rightarrow>
          Some (bind_comp (forwarding_end prof os stream1 stream2 (res, b, e))
            (\<lambda>(out, t, e'). Val (Ready out, t, e'))))"

fun forwarding_poll ::
    "profile \<Rightarrow> 'e os \<Rightarrow> 'e connector \<Rightarrow> 'e task_state \<times> 'e \<Rightarrow> 'e task_out" where
  "forwarding_poll prof os connect (Spawned stream1 upstream_addr, e) =
     (case connect upstream_addr e of
        (Err er, e1) \<Rightarrow>
          Some (Val (Ready (Err er, Some (Connect_Failed er)), Completed, drop_stream os stream1 e1))
      | (Ok stream2, e1) \<Rightarrow>
          let leave = (\<lambda>e. drop_stream os stream1 (drop_stream os stream2 e))
          in case ctx_new os e1 of
               (Err er, e2) \<Rightarrow> Some (Val (Ready (Err er, None), Completed, leave e2))
             | (Ok c1, e2) \<Rightarrow>
                 (case ctx_new os e2 of
                    (Err er, e3) \<Rightarrow>
                      Some (Val (Ready (Err er, None), Completed, leave (drop_ctx os c1 e3)))
                  | (Ok c2, e3) \<Rightarrow>
                      transfer_poll prof os stream1 stream2
                        (\<lparr>io_sl2sr = io_from c1, io_sr2sl = io_from c2\<rparr>, e3)))"
| "forwarding_poll prof os connect (Transferring stream1 stream2 b, e) =
     transfer_poll prof os stream1 stream2 (b, e)"
| "forwarding_poll prof os connect (Completed, e) = Some (Panic Explicit_Panic)"

text \<open>
  Run alone, the future is the function \<open>forwarding\<close> of theory Proxy: its await loop at the transfer
  is that of the transfer, with the end of \<open>forwarding\<close> after it.
\<close>

interpretation transferring: loop_sim
    "await_step (forwarding_poll prof os connect) (\<lambda>(t, e). (t, park e))"
    "await_step (bidi_poll_execute (live_platform prof os) (live_platform prof os) stream1 stream2)
       (\<lambda>(b, e). (b, park e))"
    "\<lambda>(b, e). (Transferring stream1 stream2 b, e)"
    "map_option (\<lambda>out. bind_comp out (forwarding_end prof os stream1 stream2))"
  for prof and os :: "'e os" and connect park stream1 stream2
proof
  fix u :: "(live, live) bidi_io \<times> 'e"
  show "await_step (forwarding_poll prof os connect) (\<lambda>(t, e). (t, park e))
      (case u of (b, e) \<Rightarrow> (Transferring stream1 stream2 b, e))
    = map_flow (\<lambda>(b, e). (Transferring stream1 stream2 b, e))
        (map_option (\<lambda>out. bind_comp out (forwarding_end prof os stream1 stream2)))
        (await_step (bidi_poll_execute (live_platform prof os) (live_platform prof os) stream1 stream2)
          (\<lambda>(b, e). (b, park e)) u)"
    by (cases u)
      (auto simp: await_step_def transfer_poll_def bind_comp_case split: option.splits comp.splits
        poll.splits prod.splits)
qed

lemma await_same: "pollf st = pollf st' \<Longrightarrow> await pollf park st = await pollf park st'"
  by (simp add: await_def drive.simps [of _ st] drive.simps [of _ st'] await_step_def)

lemma await_transferring:
  "await (forwarding_poll prof os connect) (\<lambda>(t, e). (t, park e)) (Transferring stream1 stream2 b, e)
    = map_option (\<lambda>out. bind_comp out (forwarding_end prof os stream1 stream2))
        (await (bidi_poll_execute (live_platform prof os) (live_platform prof os) stream1 stream2)
          (\<lambda>(b, e). (b, park e)) (b, e))"
proof -
  note sim = transferring.drive_view [of prof os stream1 stream2 park "(b, e)" connect, simplified prod.case]
  show ?thesis
    unfolding await_def sim [symmetric]
    by (cases "drive (await_step (bidi_poll_execute (live_platform prof os) (live_platform prof os)
        stream1 stream2) (\<lambda>(b, e). (b, park e))) (b, e)") auto
qed

lemma forwarding_polled:
  "map_option (map_comp (\<lambda>((res, line), t, e'). (res, line, e')))
     (await (forwarding_poll prof os connect) (\<lambda>(t, e). (t, park e)) (Spawned stream1 upstream_addr, e))
   = forwarding prof os connect park stream1 upstream_addr e"
proof -
  obtain r e1 where c: "connect upstream_addr e = (r, e1)" by (cases "connect upstream_addr e")
  obtain x1 e2 where n1: "ctx_new os e1 = (x1, e2)" by (cases "ctx_new os e1")
  obtain x2 e3 where n2: "ctx_new os e2 = (x2, e3)" by (cases "ctx_new os e2")
  let ?aw = "await (forwarding_poll prof os connect) (\<lambda>(t, e). (t, park e))"
  show ?thesis
  proof (cases "\<exists>s c1 c2. r = Ok s \<and> x1 = Ok c1 \<and> x2 = Ok c2")
    case True
    then obtain s c1 c2 where ok: "r = Ok s" "x1 = Ok c1" "x2 = Ok c2" by blast
    let ?b = "\<lparr>io_sl2sr = io_from c1, io_sr2sl = io_from c2\<rparr>"
    have "?aw (Spawned stream1 upstream_addr, e) = ?aw (Transferring stream1 s ?b, e3)"
      by (rule await_same) (simp add: c n1 n2 ok)
    moreover have "map_comp (\<lambda>((res, line), t, e'). (res, line, e'))
        (bind_comp out (forwarding_end prof os stream1 s)) =
      bind_comp (bind_comp out (\<lambda>(res, b, e').
          Val (\<lparr>tx = bytes_written (ctx (io_sl2sr b)), rx = bytes_written (ctx (io_sr2sl b)),
                report_error = err_of res\<rparr>, drop_bidi os os b e')))
        (\<lambda>(traffic, e4). bind_comp (usize_add prof (tx traffic) (rx traffic)) (\<lambda>total.
           Val (Ok (), Some (Forwarded total (report_error traffic)),
                drop_stream os stream1 (drop_stream os s e4))))" for out
      by (cases out) (auto simp: forwarding_end_def bind_comp_case split: comp.splits)
    ultimately show ?thesis
      by (simp add: await_transferring forwarding_def c n1 n2 ok bidi_execute_def option.map_comp
          comp_def)
  next
    case False
    then obtain out e' where "forwarding_poll prof os connect (Spawned stream1 upstream_addr, e)
        = Some (Val (Ready out, Completed, e'))"
      and "forwarding prof os connect park stream1 upstream_addr e = Some (Val (fst out, snd out, e'))"
      by (cases r; cases x1; cases x2) (auto simp: c n1 n2 forwarding_def)
    then show ?thesis by (simp add: await_Ready split: prod.splits)
  qed
qed

section \<open>The process\<close>

text \<open>
  The tasks that are not over, and the surroundings.  \<open>accept\<close> and the polls are steps; so is a wait
  of the whole thread.  A task that is over is freed.
\<close>

inductive proxy_step ::
    "profile \<Rightarrow> 'e os \<Rightarrow> 'e connector \<Rightarrow> ('e \<Rightarrow> 'e) \<Rightarrow> ('e, 'a) acceptor \<Rightarrow> fd \<Rightarrow> string
      \<Rightarrow> 'e task_state list \<times> 'e \<Rightarrow> 'e task_state list \<times> 'e \<Rightarrow> bool"
  for prof :: profile and os :: "'e os" and connect :: "'e connector" and park :: "'e \<Rightarrow> 'e"
    and accept :: "('e, 'a) acceptor" and listener :: fd and upstream_addr :: string where
  step_spawn: "accept listener e = (Ok (incoming, remote_addr), e') \<Longrightarrow>
    proxy_step prof os connect park accept listener upstream_addr
      (ts, e) (ts @ [Spawned incoming upstream_addr], e')"
| step_aborted: "accept listener e = (Err er, e') \<Longrightarrow> conn_aborted er \<Longrightarrow>
    proxy_step prof os connect park accept listener upstream_addr (ts, e) (ts, e')"
| step_pending: "forwarding_poll prof os connect (t, e) = Some (Val (Pending, t', e')) \<Longrightarrow>
    proxy_step prof os connect park accept listener upstream_addr (ts @ t # us, e) (ts @ t' # us, e')"
| step_over: "forwarding_poll prof os connect (t, e) = Some (Val (Ready out, t', e')) \<Longrightarrow>
    proxy_step prof os connect park accept listener upstream_addr (ts @ t # us, e) (ts @ us, e')"
| step_park: "proxy_step prof os connect park accept listener upstream_addr (ts, e) (ts, park e)"

inductive_cases proxy_stepE:
  "proxy_step prof os connect park accept listener upstream_addr st st'"

abbreviation proxy_run where
  "proxy_run prof os connect park accept listener upstream_addr \<equiv>
     (proxy_step prof os connect park accept listener upstream_addr)\<^sup>*\<^sup>*"

text \<open>The accept loop alone is a run of the process, with the tasks \<open>serve\<close> spawns.\<close>

lemma accepts_run:
  assumes "accepts accept listener e rs e'" and "list_all goes_on rs"
  shows "proxy_run prof os connect park accept listener upstream_addr (ts, e)
    (ts @ map (\<lambda>(s, addr). Spawned s addr) (tasks_for upstream_addr rs), e')"
  using assms
proof (induction e rs e' arbitrary: ts rule: accepts.induct)
  case (accepts_Nil e)
  then show ?case by simp
next
  case (accepts_Cons e r e1 rs e2)
  let ?new = "\<lambda>rs. map (\<lambda>(s, addr). Spawned s addr) (tasks_for upstream_addr rs)"
  have "proxy_step prof os connect park accept listener upstream_addr (ts, e) (ts @ ?new [r], e1)"
    using accepts_Cons.hyps(1) accepts_Cons.prems
    by (cases r) (auto simp: goes_on_def intro: proxy_step.intros)
  moreover have "proxy_run prof os connect park accept listener upstream_addr
      (ts @ ?new [r], e1) ((ts @ ?new [r]) @ ?new rs, e2)"
    using accepts_Cons.IH [of "ts @ ?new [r]"] accepts_Cons.prems by simp
  moreover have "?new [r] @ ?new rs = ?new (r # rs)" by (cases r) auto
  ultimately show ?case by (metis (no_types, lifting) append.assoc converse_rtranclp_into_rtranclp)
qed

text \<open>
  How the process ends after Ctrl-C: the future of \<open>serve\<close> is dropped, and with it the listener; then
  \<open>main\<close> returns and the runtime drops the tasks it still has, where they are parked.
\<close>

fun drop_task :: "'e os \<Rightarrow> 'e task_state \<Rightarrow> 'e \<Rightarrow> 'e" where
  "drop_task os (Spawned stream1 upstream_addr) e = drop_stream os stream1 e"
| "drop_task os (Transferring stream1 stream2 b) e =
     drop_stream os stream1 (drop_stream os stream2 (drop_bidi os os b e))"
| "drop_task os Completed e = e"

definition shut_down :: "'e os \<Rightarrow> fd \<Rightarrow> 'e task_state list \<Rightarrow> 'e \<Rightarrow> 'e" where
  "shut_down os listener ts e = fold (drop_task os) ts (sys_close os listener e)"

section \<open>The descriptors of a task\<close>

fun task_fds :: "'e task_state \<Rightarrow> fd set" where
  "task_fds (Spawned stream1 upstream_addr) = {stream_fd stream1}"
| "task_fds (Transferring stream1 stream2 b) =
     {stream_fd stream1, stream_fd stream2} \<union> pipe_fds (pipe (ctx (io_sl2sr b))) \<union>
     pipe_fds (pipe (ctx (io_sr2sl b)))"
| "task_fds Completed = {}"

text \<open>A stream whose readiness, \<open>try_io\<close> and shutdown open and close nothing.\<close>

definition quiet_stream :: "('e \<Rightarrow> fd set) \<Rightarrow> 'e tcp_stream \<Rightarrow> bool" where
  "quiet_stream opened s \<longleftrightarrow>
     reader_ok (same_fds opened) (as_reader s) \<and> writer_ok (same_fds opened) (as_writer s)"

text \<open>
  What accepting and connecting do to the descriptors, and that waiting does nothing to them.
\<close>

definition accepts_one :: "('e \<Rightarrow> fd set) \<Rightarrow> ('e, 'a) acceptor \<Rightarrow> bool" where
  "accepts_one opened accept \<longleftrightarrow>
     (\<forall>l e res e'. accept l e = (res, e') \<longrightarrow>
        (case res of
           Ok (s, remote_addr) \<Rightarrow> quiet_stream opened s \<and> stream_fd s \<notin> opened e \<and>
             opened e' = insert (stream_fd s) (opened e)
         | Err er \<Rightarrow> opened e' = opened e))"

definition network_laws where
  "network_laws os opened connect accept park \<longleftrightarrow>
     fd_laws os opened \<and> connects_one opened connect \<and>
     (\<forall>addr e s e'. connect addr e = (Ok s, e') \<longrightarrow> quiet_stream opened s) \<and>
     accepts_one opened accept \<and> (\<forall>e. opened (park e) = opened e)"

lemma network_accounts:
  assumes "network_laws os opened connect accept park" "quiet_stream opened s1" "quiet_stream opened s2"
  shows "accounts (live_platform prof os) (as_reader s1) (as_writer s2) park opened"
  using assms live_opens_nothing [of os opened]
  by (simp add: network_laws_def quiet_stream_def accounts_def)

text \<open>A task that holds its descriptors apart from the \<open>base\<close> of all the others.\<close>

definition holds_apart where
  "holds_apart prof os opened park base t e \<longleftrightarrow>
     (case t of
        Spawned s1 addr \<Rightarrow> quiet_stream opened s1 \<and> stream_fd s1 \<notin> base \<and>
          opened e = insert (stream_fd s1) base
      | Transferring s1 s2 b \<Rightarrow> quiet_stream opened s1 \<and> quiet_stream opened s2 \<and>
          stream_fd s1 \<noteq> stream_fd s2 \<and> stream_fd s1 \<notin> base \<and> stream_fd s2 \<notin> base \<and>
          bidi_accounted (live_platform prof os) (live_platform prof os) s1 s2 park opened
            ({stream_fd s1, stream_fd s2} \<union> base) b e
      | Completed \<Rightarrow> opened e = base)"

lemma holds_apart_fds:
  assumes "holds_apart prof os opened park base t e"
  shows "opened e = base \<union> task_fds t" and "task_fds t \<inter> base = {}"
  using assms
  by (cases t; auto simp: holds_apart_def bidi_accounted_def owns_apart_def)+

lemma holds_apart_rebase:
  assumes "holds_apart prof os opened park base t e"
    and "opened e' = base' \<union> task_fds t" and "task_fds t \<inter> base' = {}"
  shows "holds_apart prof os opened park base' t e'"
  using assms
  by (cases t) (auto simp: holds_apart_def bidi_accounted_def owns_apart_def)

text \<open>A poll keeps that, or the task is over and has closed all it had.\<close>

definition polled_apart where
  "polled_apart prof os opened park base x t e \<longleftrightarrow>
     (case x of Pending \<Rightarrow> holds_apart prof os opened park base t e | Ready out \<Rightarrow> opened e = base)"

lemma transfer_poll_apart:
  assumes laws: "fd_laws os opened"
    and holds: "holds_apart prof os opened park base (Transferring s1 s2 b) e"
    and run: "transfer_poll prof os s1 s2 (b, e) = Some (Val (x, t', e'))"
  shows "polled_apart prof os opened park base x t' e'"
proof -
  let ?pf = "live_platform prof os"
  from holds have acc: "bidi_accounted ?pf ?pf s1 s2 park opened
      ({stream_fd s1, stream_fd s2} \<union> base) b e"
    and new: "stream_fd s1 \<noteq> stream_fd s2" "stream_fd s1 \<notin> base" "stream_fd s2 \<notin> base"
    and quiet: "quiet_stream opened s1" "quiet_stream opened s2"
    by (simp_all add: holds_apart_def)
  from run obtain y b' e1 where poll: "bidi_poll_execute ?pf ?pf s1 s2 (b, e) = Some (Val (y, b', e1))"
    by (auto simp: transfer_poll_def split: option.splits comp.splits)
  note acc' = bidi_poll_accounted [OF acc poll]
  show ?thesis
  proof (cases y)
    case Pending
    with run poll have "x = Pending" "t' = Transferring s1 s2 b'" "e' = e1"
      by (simp_all add: transfer_poll_def)
    with acc' new quiet show ?thesis by (simp add: polled_apart_def holds_apart_def)
  next
    case (Ready res)
    with run poll obtain out where x: "x = Ready out"
      and e': "e' = drop_stream os s1 (drop_stream os s2 (drop_bidi os os b' e1))"
      by (auto simp: transfer_poll_def forwarding_end_def bind_comp_case split: comp.splits)
    have "opened (drop_bidi os os b' e1) = {stream_fd s1, stream_fd s2} \<union> base"
      using bidi_drops_accounted [OF acc'] by (simp add: drop_bidi_def)
    with new show ?thesis
      by (auto simp: polled_apart_def x e' drop_stream_opened [OF laws])
  qed
qed

lemma forwarding_poll_apart:
  assumes net: "network_laws os opened connect accept park"
    and holds: "holds_apart prof os opened park base t e"
    and run: "forwarding_poll prof os connect (t, e) = Some (Val (x, t', e'))"
  shows "polled_apart prof os opened park base x t' e'"
proof (cases t)
  case (Spawned s1 addr)
  from net have laws: "fd_laws os opened" and conn: "connects_one opened connect"
    and quiet: "\<And>addr e s e'. connect addr e = (Ok s, e') \<Longrightarrow> quiet_stream opened s"
    unfolding network_laws_def by blast+
  from holds have here: "quiet_stream opened s1" "stream_fd s1 \<notin> base"
    "opened e = insert (stream_fd s1) base"
    by (simp_all add: holds_apart_def Spawned)
  obtain r e1 where c: "connect addr e = (r, e1)" by (cases "connect addr e")
  note one = conn [unfolded connects_one_def, rule_format, OF c]
  show ?thesis
  proof (cases r)
    case (Err er)
    with run c have "x = Ready (Err er, Some (Connect_Failed er))" "e' = drop_stream os s1 e1"
      by (simp_all add: Spawned)
    with one Err here show ?thesis by (simp add: polled_apart_def drop_stream_opened [OF laws])
  next
    case (Ok s2)
    have q2: "quiet_stream opened s2" using quiet [of addr e s2 e1] c Ok by simp
    have opened1: "opened e1 = {stream_fd s1, stream_fd s2} \<union> base"
      and fresh: "stream_fd s2 \<notin> base" "stream_fd s1 \<noteq> stream_fd s2"
      using one Ok here by auto
    have leave: "opened (drop_stream os s1 (drop_stream os s2 e2)) = base"
      if "opened e2 = opened e1" for e2
      using that opened1 here fresh by (auto simp: drop_stream_opened [OF laws])
    obtain x1 e2 where n1: "pipe_new os e1 = (x1, e2)" by (cases "pipe_new os e1")
    show ?thesis
    proof (cases x1)
      case e: (Err er)
      with run c n1 Ok have "x = Ready (Err er, None)"
        "e' = drop_stream os s1 (drop_stream os s2 e2)"
        by (simp_all add: Spawned ctx_new_def ctx_new_inner_def)
      with leave [OF pipe_new_opened_Err [OF laws n1 [unfolded e]]] show ?thesis
        by (simp add: polled_apart_def)
    next
      case p1: (Ok p1)
      note own1 = pipe_new_owns [OF laws n1 [unfolded p1]]
      obtain x2 e3 where n2: "pipe_new os e2 = (x2, e3)" by (cases "pipe_new os e2")
      show ?thesis
      proof (cases x2)
        case e: (Err er)
        with run c n1 n2 Ok p1 have "x = Ready (Err er, None)"
          and e': "e' = drop_stream os s1 (drop_stream os s2 (drop_pipe os p1 e3))"
          by (simp_all add: Spawned ctx_new_def ctx_new_inner_def drop_ctx_def new_ctx_def)
        moreover have "opened (drop_pipe os p1 e3) = opened e1"
          using own1 pipe_new_opened_Err [OF laws n2 [unfolded e]]
          by (auto simp: opened_drop_pipe [OF laws] owns_apart_def)
        ultimately show ?thesis using leave by (simp add: polled_apart_def)
      next
        case p2: (Ok p2)
        let ?b = "\<lparr>io_sl2sr = io_from (new_ctx Live p1), io_sr2sl = io_from (new_ctx Live p2)\<rparr>"
        have "bidi_accounted (live_platform prof os) (live_platform prof os) s1 s2 park opened
            (opened e1) ?b e3"
          by (rule fresh_bidi_accounted [OF network_accounts [OF net here(1) q2]
                network_accounts [OF net q2 here(1)] n1 [unfolded p1] n2 [unfolded p2]])
        then have "holds_apart prof os opened park base (Transferring s1 s2 ?b) e3"
          using here q2 fresh by (simp add: holds_apart_def opened1)
        moreover have "transfer_poll prof os s1 s2 (?b, e3) = Some (Val (x, t', e'))"
          using run c n1 n2 Ok p1 p2 by (simp add: Spawned ctx_new_def ctx_new_inner_def)
        ultimately show ?thesis by (rule transfer_poll_apart [OF laws])
      qed
    qed
  qed
next
  case (Transferring s1 s2 b)
  moreover have "fd_laws os opened" using net by (simp only: network_laws_def)
  ultimately show ?thesis using holds run by (auto intro: transfer_poll_apart)
next
  case Completed
  with run show ?thesis by simp
qed

section \<open>The descriptors of the process\<close>

abbreviation tasks_fds :: "'e task_state list \<Rightarrow> fd set" where
  "tasks_fds ts \<equiv> \<Union> (task_fds ` set ts)"

text \<open>Every task holds its own, apart from those of each other and from the \<open>base\<close>.\<close>

definition sound_task where
  "sound_task prof os opened park t \<longleftrightarrow> (\<exists>base e. holds_apart prof os opened park base t e)"

definition proxy_holds where
  "proxy_holds prof os opened park base ts e \<longleftrightarrow>
     opened e = base \<union> tasks_fds ts \<and> tasks_fds ts \<inter> base = {} \<and>
     (\<forall>t\<in>set ts. sound_task prof os opened park t) \<and>
     sorted_wrt (\<lambda>t u. task_fds t \<inter> task_fds u = {}) ts"

lemma sound_taskI: "holds_apart prof os opened park base t e \<Longrightarrow> sound_task prof os opened park t"
  by (auto simp: sound_task_def)

text \<open>One task among the others, seen on its own and put back.\<close>

lemma proxy_holds_one:
  assumes "proxy_holds prof os opened park base (ts @ t # us) e"
  shows "holds_apart prof os opened park (base \<union> tasks_fds (ts @ us)) t e"
proof -
  from assms obtain b0 e0 where "holds_apart prof os opened park b0 t e0"
    by (auto simp: proxy_holds_def sound_task_def)
  then show ?thesis
    by (rule holds_apart_rebase) (use assms in \<open>auto simp: proxy_holds_def sorted_wrt_append\<close>)
qed

lemma proxy_holds_put:
  assumes "proxy_holds prof os opened park base (ts @ t # us) e"
    and "holds_apart prof os opened park (base \<union> tasks_fds (ts @ us)) t' e'"
  shows "proxy_holds prof os opened park base (ts @ t' # us) e'"
  using assms(1) holds_apart_fds [OF assms(2)] sound_taskI [OF assms(2)]
  by (auto simp: proxy_holds_def sorted_wrt_append)

lemma proxy_holds_remove:
  assumes "proxy_holds prof os opened park base (ts @ t # us) e"
    and "opened e' = base \<union> tasks_fds (ts @ us)"
  shows "proxy_holds prof os opened park base (ts @ us) e'"
  using assms by (auto simp: proxy_holds_def sorted_wrt_append)

lemma proxy_holds_same:
  "opened e' = opened e \<Longrightarrow> proxy_holds prof os opened park base ts e \<Longrightarrow>
     proxy_holds prof os opened park base ts e'"
  by (simp add: proxy_holds_def)

lemma proxy_holds_spawn:
  assumes "accepts_one opened accept" "accept listener e = (Ok (s, remote_addr), e')"
    and "proxy_holds prof os opened park base ts e"
  shows "proxy_holds prof os opened park base (ts @ [Spawned s addr]) e'"
proof -
  from assms(1,2) have one: "quiet_stream opened s" "stream_fd s \<notin> opened e"
    "opened e' = insert (stream_fd s) (opened e)"
    unfolding accepts_one_def by force+
  then have "holds_apart prof os opened park (opened e) (Spawned s addr) e'"
    by (simp add: holds_apart_def)
  with one assms(3) sound_taskI [OF this] show ?thesis
    by (auto simp: proxy_holds_def sorted_wrt_append)
qed

lemma proxy_step_holds:
  assumes net: "network_laws os opened connect accept park"
    and step: "proxy_step prof os connect park accept listener addr (ts, e) (ts', e')"
    and holds: "proxy_holds prof os opened park base ts e"
  shows "proxy_holds prof os opened park base ts' e'"
proof -
  from net have accs: "accepts_one opened accept" and park: "opened (park e) = opened e"
    by (simp_all add: network_laws_def)
  from step show ?thesis
  proof (cases rule: proxy_step.cases)
    case (step_spawn s remote)
    with accs holds show ?thesis by (auto intro: proxy_holds_spawn [where accept = accept])
  next
    case (step_aborted er)
    with accs have "opened e' = opened e" unfolding accepts_one_def by force
    with holds step_aborted show ?thesis by (simp add: proxy_holds_same)
  next
    case (step_pending t t1 us vs)
    from forwarding_poll_apart [OF net proxy_holds_one [OF holds [unfolded step_pending(1)]] step_pending(3)]
    have "holds_apart prof os opened park (base \<union> tasks_fds (us @ vs)) t1 e'"
      by (simp add: polled_apart_def)
    from proxy_holds_put [OF holds [unfolded step_pending(1)] this] step_pending show ?thesis by simp
  next
    case (step_over t out t1 us vs)
    from forwarding_poll_apart [OF net proxy_holds_one [OF holds [unfolded step_over(1)]] step_over(3)]
    have "opened e' = base \<union> tasks_fds (us @ vs)" by (simp add: polled_apart_def)
    from proxy_holds_remove [OF holds [unfolded step_over(1)] this] step_over show ?thesis by simp
  next
    case step_park
    with holds park show ?thesis by (simp add: proxy_holds_same)
  qed
qed

lemma proxy_run_holds:
  assumes net: "network_laws os opened connect accept park"
    and "proxy_run prof os connect park accept listener addr (ts, e) (ts', e')"
    and holds: "proxy_holds prof os opened park base ts e"
  shows "proxy_holds prof os opened park base ts' e'"
  using assms(2)
proof (induction "(ts', e')" arbitrary: ts' e' rule: rtranclp_induct)
  case base
  with holds show ?case by simp
next
  case (step st)
  then show ?case by (cases st) (blast intro: proxy_step_holds [OF net])
qed

lemma drop_task_opened:
  "fd_laws os opened \<Longrightarrow> opened (drop_task os t e) = opened e - task_fds t"
  by (cases t) (auto simp: drop_stream_opened drop_bidi_def drop_ctx_def opened_drop_pipe)

lemma drop_tasks_opened:
  "fd_laws os opened \<Longrightarrow> opened (fold (drop_task os) ts e) = opened e - tasks_fds ts"
  by (induction ts arbitrary: e) (auto simp: drop_task_opened)

text \<open>A task holds at most two sockets and the four ends of its pipes.\<close>

lemma card_option_le: "card (set_option x) \<le> 1"
  by (cases x) simp_all

lemma card_pipe_fds: "finite (pipe_fds p)" "card (pipe_fds p) \<le> 2"
proof -
  show "finite (pipe_fds p)" by (simp add: pipe_fds_def)
  have "card (pipe_fds p) \<le> card (set_option (pipe_drain_fd p)) + card (set_option (pipe_fill_fd p))"
    unfolding pipe_fds_def by (rule card_Un_le)
  then show "card (pipe_fds p) \<le> 2"
    using card_option_le [of "pipe_drain_fd p"] card_option_le [of "pipe_fill_fd p"] by linarith
qed

lemma card_task_fds: "finite (task_fds t)" "card (task_fds t) \<le> 6"
proof -
  show "finite (task_fds t)" by (cases t) (simp_all add: card_pipe_fds)
  show "card (task_fds t) \<le> 6"
  proof (cases t)
    case (Transferring s1 s2 b)
    let ?s = "{stream_fd s1, stream_fd s2}" and ?p = "pipe_fds (pipe (ctx (io_sl2sr b)))"
      and ?q = "pipe_fds (pipe (ctx (io_sr2sl b)))"
    have "card ?s \<le> 2" by (simp add: card_insert_if)
    moreover have "card (?s \<union> ?p \<union> ?q) \<le> card ?s + card ?p + card ?q"
      using card_Un_le [of "?s \<union> ?p" ?q] card_Un_le [of ?s ?p] by linarith
    ultimately show ?thesis
      using card_pipe_fds(2) [of "pipe (ctx (io_sl2sr b))"] card_pipe_fds(2) [of "pipe (ctx (io_sr2sl b))"]
      by (simp add: Transferring)
  qed simp_all
qed

lemma card_tasks_fds: "card (tasks_fds ts) \<le> 6 * length ts"
proof (induction ts)
  case (Cons t ts)
  have "card (tasks_fds (t # ts)) \<le> card (task_fds t) + card (tasks_fds ts)"
    by (simp add: card_Un_le)
  with Cons card_task_fds(2) [of t] show ?case by simp
qed simp

text \<open>From the bound listener on: what is open at every moment, and what is left after the end.\<close>

lemma proxy_accounted:
  assumes net: "network_laws os opened connect accept park"
    and bound: "opened e1 = insert listener (opened e)" "listener \<notin> opened e"
    and run: "proxy_run prof os connect park accept listener addr ([], e1) (ts, e2)"
  shows "opened e2 = opened e1 \<union> tasks_fds ts" and "tasks_fds ts \<inter> opened e1 = {}"
    and "set ts' = set ts \<Longrightarrow> opened (shut_down os listener ts' e2) = opened e"
proof -
  have "proxy_holds prof os opened park (opened e1) [] e1" by (simp add: proxy_holds_def)
  then have "proxy_holds prof os opened park (opened e1) ts e2"
    by (rule proxy_run_holds [OF net run])
  then show all: "opened e2 = opened e1 \<union> tasks_fds ts" and apart: "tasks_fds ts \<inter> opened e1 = {}"
    by (simp_all add: proxy_holds_def)
  have laws: "fd_laws os opened" using net by (simp add: network_laws_def)
  have "opened (sys_close os listener e2) = opened e2 - {listener}"
    using opened_drop_fd [OF laws, of "Some listener" e2] by simp
  then show "opened (shut_down os listener ts' e2) = opened e" if "set ts' = set ts"
    using all apart bound that by (auto simp: shut_down_def drop_tasks_opened [OF laws])
qed

end
