(* ===== verification/Sim.thy ===== *)
theory Sim
  imports Proxy_Main Profile Exec_Spec Cancel Trace_Facts Bidi_Parking Bidi_Spec Proxy_Tasks
begin

text \<open>
  A small machine to run the model on: a kernel with sockets, files and pipes, and a runtime that
  makes the task wait and refuses calls a scheduled number of times.  It satisfies the contracts
  the theorems assume in every one of its states, so they can be applied to it; nothing else
  in the development depends on it.
\<close>

section \<open>The machine\<close>

text \<open>
  Descriptors below 50 are sockets, those from 50 to 99 files, those from 100 pipe ends (the
  write end follows its read end).  A pipe holds five bytes, and a socket or file takes at most four
  at a time.  As splice(2) has it, a call on a descriptor that is not open fails with \<open>EBADF\<close>, on a
  socket that was shut down with \<open>EPIPE\<close>, and one that finds the pipe full, or empty with its write
  end open, would block.  A write past the end of a file leaves a hole of zeros.
\<close>

record sim =
  sim_open :: "fd list"
  sim_in :: "fd \<Rightarrow> byte list"
  sim_file :: "fd \<Rightarrow> byte list"
  sim_pipe :: "fd \<Rightarrow> byte list"
  sim_out :: "fd \<Rightarrow> byte list"
  sim_shut :: "fd list"
  sim_eagain :: nat
  sim_waits :: nat

definition EBADF :: errno where "EBADF = 9"

definition ESPIPE :: errno where "ESPIPE = 29"

definition sim_fresh :: "sim \<Rightarrow> fd" where
  "sim_fresh e = foldr max (sim_open e) 99 + 1"

definition sim_make_pipe :: "pipe_flag list \<Rightarrow> sim \<Rightarrow> (fd \<times> fd, errno) result \<times> sim" where
  "sim_make_pipe fl e =
     (let a = sim_fresh e
      in (Ok (a, a + 1), e\<lparr>sim_open := a # (a + 1) # sim_open e, sim_pipe := (sim_pipe e)(a := [])\<rparr>))"

definition chunk :: "nat \<Rightarrow> usize \<Rightarrow> byte list \<Rightarrow> nat" where
  "chunk k m xs = min (unat m) (min (length xs) (min k 5))"

definition sim_room :: "fd \<Rightarrow> sim \<Rightarrow> nat" where
  "sim_room pr e = 5 - length (sim_pipe e pr)"

text \<open>What a call gives: the number of bytes, the new offset, the new state.\<close>

type_synonym sim_reply = "(usize, errno) result \<times> u64 \<times> sim"

definition sim_take_in :: "fd \<Rightarrow> nat \<Rightarrow> byte list \<Rightarrow> sim \<Rightarrow> sim" where
  "sim_take_in pr n xs e = e\<lparr>sim_pipe := (sim_pipe e)(pr := sim_pipe e pr @ take n xs)\<rparr>"

definition sim_fill :: "fd \<Rightarrow> u64 option \<Rightarrow> fd \<Rightarrow> usize \<Rightarrow> sim \<Rightarrow> sim_reply" where
  "sim_fill r off pw m e =
     (if r \<notin> set (sim_open e) \<or> pw \<notin> set (sim_open e) then (Err EBADF, unwrap_or off 0, e)
      else if off \<noteq> None \<and> r < 50 then (Err ESPIPE, unwrap_or off 0, e)
      else if 0 < sim_eagain e
      then (Err EAGAIN, unwrap_or off 0, e\<lparr>sim_eagain := sim_eagain e - 1\<rparr>)
      else if sim_room (pw - 1) e = 0 then (Err EAGAIN, unwrap_or off 0, e)
      else case off of
        None \<Rightarrow>
          (let n = chunk (sim_room (pw - 1) e) m (sim_in e r)
           in (Ok (of_nat n), 0,
               sim_take_in (pw - 1) n (sim_in e r) e
                 \<lparr>sim_in := (sim_in e)(r := drop n (sim_in e r))\<rparr>))
      | Some x \<Rightarrow>
          if 2 ^ 63 \<le> x then (Err EINVAL, x, e)
          else (let n = chunk (sim_room (pw - 1) e) m (drop (unat x) (sim_file e r))
                in (Ok (of_nat n), x + of_nat n,
                    sim_take_in (pw - 1) n (drop (unat x) (sim_file e r)) e)))"

definition sim_write :: "nat \<Rightarrow> byte list \<Rightarrow> byte list \<Rightarrow> byte list" where
  "sim_write x xs old =
     (if xs = [] then old else padded x old @ xs @ drop (x + length xs) old)"

definition sim_drain :: "fd \<Rightarrow> fd \<Rightarrow> u64 option \<Rightarrow> usize \<Rightarrow> sim \<Rightarrow> sim_reply" where
  "sim_drain pr w off m e =
     (if pr \<notin> set (sim_open e) \<or> w \<notin> set (sim_open e) then (Err EBADF, unwrap_or off 0, e)
      else if off \<noteq> None \<and> w < 50 then (Err ESPIPE, unwrap_or off 0, e)
      else if w \<in> set (sim_shut e) then (Err EPIPE, unwrap_or off 0, e)
      else if 0 < sim_eagain e
      then (Err EAGAIN, unwrap_or off 0, e\<lparr>sim_eagain := sim_eagain e - 1\<rparr>)
      else if sim_pipe e pr = [] \<and> pr + 1 \<in> set (sim_open e) then (Err EAGAIN, unwrap_or off 0, e)
      else let n = chunk 4 m (sim_pipe e pr);
               e' = e\<lparr>sim_pipe := (sim_pipe e)(pr := drop n (sim_pipe e pr))\<rparr>
      in case off of
        None \<Rightarrow> (Ok (of_nat n), 0,
          e'\<lparr>sim_out := (sim_out e)(w := sim_out e w @ take n (sim_pipe e pr))\<rparr>)
      | Some x \<Rightarrow>
          if 2 ^ 63 \<le> x then (Err EINVAL, x, e)
          else (Ok (of_nat n), x + of_nat n,
            e'\<lparr>sim_file := (sim_file e)(w :=
                 sim_write (unat x) (take n (sim_pipe e pr)) (sim_file e w))\<rparr>))"

definition sim_os :: "sim os" where
  "sim_os = \<lparr>sys_pipe = sim_make_pipe,
     sys_setpipe_size = (\<lambda>d n e. (Ok n, e)),
     sys_getpipe_size = (\<lambda>d e. (Ok 65536, e)),
     sys_splice = (\<lambda>a oa b ob m fl e.
       if a < 100 then (case sim_fill a oa b m e of (res, x, e') \<Rightarrow> (res, x, 0, e'))
       else (case sim_drain a b ob m e of (res, x, e') \<Rightarrow> (res, 0, x, e'))),
     sys_close = (\<lambda>d e. e\<lparr>sim_open := removeAll d (sim_open e)\<rparr>)\<rparr>"

text \<open>Readiness waits as scheduled; so does a shutdown, which then takes place.\<close>

definition sim_ready :: "sim poll_fn" where
  "sim_ready e =
     (if 0 < sim_waits e then (Pending, e\<lparr>sim_waits := sim_waits e - 1\<rparr>) else (Ready (Ok ()), e))"

definition sim_shutdown :: "fd \<Rightarrow> sim poll_fn" where
  "sim_shutdown d e =
     (if 0 < sim_waits e then sim_ready e else (Ready (Ok ()), e\<lparr>sim_shut := d # sim_shut e\<rparr>))"

definition sim_stream :: "fd \<Rightarrow> (live, sim) tokio_stream" where
  "sim_stream d = \<lparr>tk_fd = d, tk_poll_read_ready = sim_ready, tk_poll_write_ready = sim_ready,
     tk_try_io = (\<lambda>_ f. f), tk_poll_shutdown = sim_shutdown d\<rparr>"

definition sim_probe :: "fd \<Rightarrow> fd \<Rightarrow> fd \<Rightarrow> sim probe" where
  "sim_probe r w pr =
     \<lparr>v_src = (\<lambda>off e. case off of
                None \<Rightarrow> sim_in e r
              | Some x \<Rightarrow> drop (unat x) (sim_file e r)),
      v_buf = (\<lambda>e. sim_pipe e pr),
      v_dst = (\<lambda>off e. case off of
                None \<Rightarrow> sim_out e w
              | Some x \<Rightarrow> padded (unat x) (sim_file e w))\<rparr>"

definition sim_letter :: "byte list" where "sim_letter = [1, 2, 3, 4, 5, 6]"

definition sim_answer :: "byte list" where "sim_answer = [21, 22, 23, 24, 25]"

definition sim_text :: "byte list" where "sim_text = [7, 8, 9, 10, 11, 12, 13]"

lemma sim_lengths [simp]: "length sim_letter = 6" "length sim_answer = 5" "length sim_text = 7"
  by (simp_all add: sim_letter_def sim_answer_def sim_text_def)

definition sim_start :: "nat \<Rightarrow> nat \<Rightarrow> sim" where
  "sim_start eagain waits = \<lparr>sim_open = [10, 11, 50, 51], sim_in = (\<lambda>d. if d = 10 then sim_letter
       else if d = 11 then sim_answer else []),
     sim_file = (\<lambda>d. if d = 50 then sim_text else if d = 51 then sim_answer else []),
     sim_pipe = (\<lambda>_. []), sim_out = (\<lambda>_. []), sim_shut = [], sim_eagain = eagain, sim_waits = waits\<rparr>"

lemmas sim_sys = sim_os_def sim_make_pipe_def sim_fill_def sim_drain_def sim_take_in_def Let_def

section \<open>It keeps the contracts\<close>

lemma stored_unchanged [simp]: "stored off (unwrap_or off 0) = off"
  by (cases off) simp_all

lemma sim_fresh_new: "d \<in> set (sim_open e) \<Longrightarrow> d < sim_fresh e"
proof -
  have "d \<in> set xs \<Longrightarrow> d \<le> foldr max xs k" for xs and k :: fd
    by (induction xs) auto
  then show "d \<in> set (sim_open e) \<Longrightarrow> d < sim_fresh e" by (simp add: sim_fresh_def)
qed

lemma sim_fresh_range: "100 \<le> sim_fresh e"
proof -
  have "k \<le> foldr max xs k" for xs and k :: fd
    by (induction xs) auto
  then show ?thesis by (simp add: sim_fresh_def)
qed

lemma sim_fd_laws: "fd_laws sim_os (\<lambda>e. set (sim_open e))"
  by (auto simp: fd_laws_def sim_sys split: prod.splits option.splits if_splits
      dest: sim_fresh_new)

lemma chunk_word:
  "unat (of_nat (chunk k m xs) :: usize) = chunk k m xs" "chunk k m xs \<le> unat m"
  "chunk k m xs \<le> length xs" "chunk k m xs = 0 \<longleftrightarrow> k = 0 \<or> m = 0 \<or> xs = []"
proof -
  have "chunk k m xs \<le> 5" by (simp add: chunk_def)
  then have "chunk k m xs < 2 ^ LENGTH(64)" by simp
  then show "unat (of_nat (chunk k m xs) :: usize) = chunk k m xs"
    by (simp add: unat_of_nat take_bit_nat_eq_self)
qed (auto simp: chunk_def min_def unat_eq_zero split: if_splits)

lemma chunk_zero: "of_nat (chunk k m xs) = (0 :: usize) \<longleftrightarrow> k = 0 \<or> m = 0 \<or> xs = []"
  using chunk_word(1,4) [of k m xs] by (metis unat_eq_zero)

lemma chunk_offset:
  assumes "\<not> (2 ^ 63 :: u64) \<le> x"
  shows "unat (x + of_nat (chunk k m xs)) = unat x + chunk k m xs"
proof -
  have "unat x < 2 ^ 63" using assms by (simp add: word_le_nat_alt)
  moreover have "chunk k m xs \<le> 5" by (simp add: chunk_def)
  ultimately show ?thesis
    by (simp add: unat_word_ariths chunk_word(1))
qed

text \<open>What the two moves do to what a probe shows, in numbers of bytes.\<close>

lemma sim_moved_in:
  assumes n: "n = chunk k m (v_src P off e)" and "k \<noteq> 0"
    and "v_src P (advanced off (of_nat n)) e' = drop n (v_src P off e)"
    and "v_buf P e' = v_buf P e @ take n (v_src P off e)" and "\<And>x. v_dst P x e' = v_dst P x e"
  shows "moved_in P off e m (Ok (of_nat n)) (advanced off (of_nat n)) e'"
  using assms chunk_word [of k m "v_src P off e"] chunk_zero [of k m "v_src P off e"]
  by (auto simp: moved_in_def word_le_nat_alt)

lemma sim_moved_out:
  assumes n: "n = chunk 4 m (v_buf P e)"
    and "v_buf P e' = drop n (v_buf P e)"
    and "v_dst P (advanced off (of_nat n)) e' = v_dst P off e @ take n (v_buf P e)"
    and "\<And>x. v_src P x e' = v_src P x e"
  shows "moved_out P off e m (Ok (of_nat n)) (advanced off (of_nat n)) e'"
  using assms chunk_word [of 4 m "v_buf P e"] chunk_zero [of 4 m "v_buf P e"]
  by (auto simp: moved_out_def word_le_nat_alt)

lemma sim_fill_moves:
  assumes run: "sim_fill r off (pr + 1) m e = (res, x, e')"
  shows "moved_in (sim_probe r w pr) off e m res (stored off x) e'"
proof (cases res)
  case (Err er)
  with run show ?thesis
    by (auto simp: sim_fill_def moved_in_def sim_probe_def Let_def split: if_splits option.splits)
next
  case (Ok n)
  have room: "sim_room pr e \<noteq> 0" using run Ok by (auto simp: sim_fill_def split: if_splits)
  show ?thesis
  proof (cases off)
    case None
    have "moved_in (sim_probe r w pr) None e m
        (Ok (of_nat (chunk (sim_room pr e) m (sim_in e r))) :: (usize, errno) result)
        (advanced None (of_nat (chunk (sim_room pr e) m (sim_in e r)))) e'"
      by (rule sim_moved_in [OF _ room])
        (use run Ok None in \<open>auto simp: sim_fill_def sim_take_in_def sim_probe_def Let_def
          split: if_splits option.splits\<close>)
    with run Ok None show ?thesis by (auto simp: sim_fill_def Let_def split: if_splits)
  next
    case (Some a)
    define xs where "xs = drop (unat a) (sim_file e r)"
    have small: "\<not> (2 ^ 63 :: u64) \<le> a" and n: "n = of_nat (chunk (sim_room pr e) m xs)"
      and x: "x = a + of_nat (chunk (sim_room pr e) m xs)"
      and e': "e' = sim_take_in pr (chunk (sim_room pr e) m xs) xs e"
      using run Ok Some by (auto simp: sim_fill_def Let_def xs_def split: if_splits)
    have "moved_in (sim_probe r w pr) (Some a) e m
        (Ok (of_nat (chunk (sim_room pr e) m xs)) :: (usize, errno) result)
        (advanced (Some a) (of_nat (chunk (sim_room pr e) m xs))) e'"
      by (rule sim_moved_in [OF _ room])
        (simp_all add: e' sim_take_in_def sim_probe_def xs_def chunk_offset [OF small] add.commute
          split: option.splits)
    with Ok Some n x show ?thesis by simp
  qed
qed

lemma sim_write_padded:
  "padded (x + length xs) (sim_write x xs old) = padded x old @ xs"
  by (simp add: sim_write_def)

lemma sim_drain_moves:
  assumes run: "sim_drain pr w off m e = (res, x, e')" and ne: "r \<noteq> w"
  shows "moved_out (sim_probe r w pr) off e m res (stored off x) e'"
proof (cases res)
  case (Err er)
  with run show ?thesis
    by (auto simp: sim_drain_def moved_out_def sim_probe_def Let_def split: if_splits option.splits)
next
  case (Ok n)
  show ?thesis
  proof (cases off)
    case None
    have "moved_out (sim_probe r w pr) None e m
        (Ok (of_nat (chunk 4 m (sim_pipe e pr))) :: (usize, errno) result)
        (advanced None (of_nat (chunk 4 m (sim_pipe e pr)))) e'"
      by (rule sim_moved_out)
        (use run Ok None in \<open>auto simp: sim_drain_def sim_probe_def Let_def
          split: if_splits option.splits\<close>)
    with run Ok None show ?thesis by (auto simp: sim_drain_def Let_def split: if_splits)
  next
    case (Some a)
    define xs where "xs = take (chunk 4 m (sim_pipe e pr)) (sim_pipe e pr)"
    have len: "length xs = chunk 4 m (sim_pipe e pr)"
      using chunk_word(3) [of 4 m "sim_pipe e pr"] by (simp add: xs_def)
    have small: "\<not> (2 ^ 63 :: u64) \<le> a" and n: "n = of_nat (chunk 4 m (sim_pipe e pr))"
      and x: "x = a + of_nat (chunk 4 m (sim_pipe e pr))"
      and e': "e' = e\<lparr>sim_pipe := (sim_pipe e)(pr := drop (length xs) (sim_pipe e pr)),
        sim_file := (sim_file e)(w := sim_write (unat a) xs (sim_file e w))\<rparr>"
      using run Ok Some unfolding len by (auto simp: sim_drain_def Let_def xs_def split: if_splits)
    have dst: "padded (unat (a + of_nat (chunk 4 m (sim_pipe e pr))))
        (sim_write (unat a) xs (sim_file e w)) = padded (unat a) (sim_file e w) @ xs"
      using sim_write_padded [of "unat a" xs "sim_file e w"] by (simp add: chunk_offset [OF small] len)
    have "moved_out (sim_probe r w pr) (Some a) e m
        (Ok (of_nat (chunk 4 m (sim_pipe e pr))) :: (usize, errno) result)
        (advanced (Some a) (of_nat (chunk 4 m (sim_pipe e pr)))) e'"
      by (rule sim_moved_out)
        (use ne in \<open>simp_all add: e' len sim_probe_def dst flip: xs_def split: option.splits\<close>)
    with Ok Some n x show ?thesis by simp
  qed
qed

lemma sim_kernel_moves:
  assumes "r < 100" "100 \<le> pr" "r \<noteq> w"
  shows "kernel_moves sim_os (sim_probe r w pr) r w (pr + 1) pr"
  using assms sim_fill_moves [of r _ pr] sim_drain_moves [of pr w]
  unfolding kernel_moves_def by (auto simp: sim_os_def split: prod.splits)

lemma sim_close_keeps: "close_keeps sim_os (sim_probe r w pr) pw pr"
  by (simp add: close_keeps_def same_view_def sim_probe_def sim_os_def split: option.splits)

lemma sim_pipe_starts_empty: "pipe_starts_empty sim_os (sim_probe r w pr) pw pr"
  by (auto simp: pipe_starts_empty_def same_view_def sim_probe_def sim_sys split: option.splits)

lemma sim_ready_view:
  "same_view (sim_probe r w pr) e (snd (sim_ready e))"
  "same_view (sim_probe r w pr) e (snd (sim_shutdown d e))"
  by (simp_all add: sim_ready_def sim_shutdown_def same_view_def sim_probe_def split: option.splits)

lemma sim_stream_ok:
  "reader_ok (same_view (sim_probe r w pr)) (stream_reader (sim_stream d))"
  "writer_ok (same_view (sim_probe r w pr)) (stream_writer (sim_stream d))"
  by (simp_all add: reader_ok_def writer_ok_def poll_keeps_def fd_impl_defs sim_stream_def
      sim_ready_view ran_self)

lemma sim_kernel_ok:
  assumes "r < 100" "100 \<le> pr" "r \<noteq> w" "rd_fd rd = r" "wr_fd wr = w"
    and "reader_ok (same_view (sim_probe r w pr)) rd" "writer_ok (same_view (sim_probe r w pr)) wr"
  shows "kernel_ok sim_os (sim_probe r w pr) rd wr (pr + 1) pr"
  using assms
  by (simp add: kernel_ok_def sim_kernel_moves sim_close_keeps sim_pipe_starts_empty)

text \<open>
  Refused calls use up the schedule, waiting uses up the other one.  A call that would block without
  using the schedule is one that found the pipe full, or empty.
\<close>

lemma sim_fill_counts:
  "sim_fill r off pw m e = (res, x, e') \<Longrightarrow>
     sim_waits e' = sim_waits e \<and> sim_eagain e' \<le> sim_eagain e \<and> sim_shut e' = sim_shut e \<and>
     (res = Err EAGAIN \<longrightarrow> sim_eagain e' < sim_eagain e \<or> sim_pipe e (pw - 1) \<noteq> [])"
  by (auto simp: sim_fill_def sim_take_in_def sim_room_def Let_def EAGAIN_def EINVAL_def ESPIPE_def
      EBADF_def split: if_splits option.splits)

lemma sim_drain_counts:
  "sim_drain pr w off m e = (res, x, e') \<Longrightarrow>
     sim_waits e' = sim_waits e \<and> sim_eagain e' \<le> sim_eagain e \<and> sim_shut e' = sim_shut e \<and>
     (res = Err EAGAIN \<longrightarrow> sim_eagain e' < sim_eagain e \<or> sim_pipe e pr = [])"
  by (auto simp: sim_drain_def Let_def EAGAIN_def EINVAL_def ESPIPE_def EPIPE_def
      EBADF_def split: if_splits option.splits)

lemma sim_splice_counts:
  "sys_splice sim_os a oa b ob m fl e = (res, x, y, e') \<Longrightarrow>
     sim_waits e' = sim_waits e \<and> sim_eagain e' \<le> sim_eagain e \<and> sim_shut e' = sim_shut e"
  by (auto simp: sim_os_def split: if_splits prod.splits dest!: sim_fill_counts sim_drain_counts)

lemma map_err_Err: "map_err Os res = Err er \<longleftrightarrow> (\<exists>en. res = Err en \<and> er = Os en)"
  by (cases res) auto

lemma map_err_EAGAIN: "map_err Os res = Err er \<Longrightarrow> would_block er \<Longrightarrow> res = Err EAGAIN"
  by (cases res) auto

lemma sim_close_counts:
  "sim_waits (sys_close sim_os f e) = sim_waits e"
  "sim_eagain (sys_close sim_os f e) = sim_eagain e"
  "sim_shut (sys_close sim_os f e) = sim_shut e"
  "sim_waits (drop_fd sim_os d e) = sim_waits e" "sim_eagain (drop_fd sim_os d e) = sim_eagain e"
  "sim_shut (drop_fd sim_os d e) = sim_shut e"
  by (cases d; simp add: sim_os_def)+

lemma sim_source_counts:
  assumes "try_splice_from_source (live_platform prof sim_os) r c e = Val (res, c', e')"
  shows "sim_waits e' = sim_waits e \<and> sim_eagain e' \<le> sim_eagain e"
  using assms
  by (cases rule: source_cases)
    (auto simp: live_ops_def live_splice_in_def sim_close_counts split: prod.splits
      dest!: sim_splice_counts)

lemma sim_dest_counts:
  assumes "try_splice_to_dest (live_platform prof sim_os) w c e = Val (res, c', e')"
  shows "sim_waits e' = sim_waits e \<and> sim_eagain e' \<le> sim_eagain e"
  using assms
  by (cases rule: dest_cases)
    (auto simp: live_ops_def live_splice_out_def sim_close_counts split: prod.splits
      dest!: sim_splice_counts)

text \<open>With the counters in step with the pipe, only the schedule makes an attempt block for nothing.\<close>

lemma sim_source_blocks:
  assumes run: "try_splice_from_source (live_platform prof sim_os) d c e = Val (Err er, c', e')"
    and "would_block er" and step: "in_step (sim_probe r w pr) (pr + 1) pr c e" and "d < 100"
    and empty: "\<not> pipe_has_data c'"
  shows "sim_eagain e' < sim_eagain e"
  using run
proof (cases rule: source_cases)
  case (Failed p m er' off' s')
  have p: "p = pr + 1"
    using Failed(1) in_step_data(2) [OF step] by (simp add: ends_ok_def fill_fd_def)
  have "sim_pipe e pr = []"
    using in_step_data(1) [OF step] empty Failed
    by (simp add: sim_probe_def pipe_has_data_def after_in_def bytes_read_def bytes_written_def)
  with Failed p assms(2,4) show ?thesis
    by (auto simp: live_ops_def live_splice_in_def sim_os_def split: prod.splits
        dest!: sim_fill_counts dest: map_err_EAGAIN)
qed simp_all

lemma sim_dest_blocks:
  assumes run: "try_splice_to_dest (live_platform prof sim_os) d c e = Val (Err er, c', e')"
    and "would_block er" and step: "in_step (sim_probe r w pr) (pr + 1) pr c e" and "100 \<le> pr"
  shows "sim_eagain e' < sim_eagain e"
proof -
  have data: "pipe_has_data c"
  proof (rule ccontr)
    assume "\<not> pipe_has_data c"
    then have "bytes_read c = bytes_written c"
      using in_step_data(3) [OF step] by (simp add: pipe_has_data_def counts_ok_def)
    with run show False by (auto simp: try_splice_to_dest_def close_dest_eq split: if_splits)
  qed
  from run show ?thesis
  proof (cases rule: dest_cases)
    case (Failed p m er' off' s')
    have p: "p = pr"
      using Failed(1) in_step_data(2) [OF step] by (simp add: ends_ok_def drain_fd_def)
    have "sim_pipe e pr \<noteq> []" using in_step_data(1) [OF step] data by (simp add: sim_probe_def)
    with Failed p assms(2,4) show ?thesis
      by (auto simp: live_ops_def live_splice_out_def sim_os_def split: prod.splits
          dest!: sim_drain_counts dest: map_err_EAGAIN)
  qed simp_all
qed

text \<open>A reader (writer) whose readiness only waits and whose \<open>try_io\<close> is the bare call.\<close>

definition sim_reader :: "(live, sim) reader \<Rightarrow> bool" where
  "sim_reader rd \<longleftrightarrow> rd_try_io rd = (\<lambda>f. f) \<and> rd_fd rd < 100 \<and>
     (rd_poll_ready rd = sim_ready \<or> rd_poll_ready rd = file_poll_ready)"

definition sim_writer :: "(live, sim) writer \<Rightarrow> bool" where
  "sim_writer wr \<longleftrightarrow> wr_try_io wr = (\<lambda>f. f) \<and>
     (wr_poll_ready wr = sim_ready \<or> wr_poll_ready wr = file_poll_ready) \<and>
     (wr_poll_shutdown wr = sim_ready \<or> (\<exists>d. wr_poll_shutdown wr = sim_shutdown d))"

lemma sim_rw:
  "d < 100 \<Longrightarrow> sim_reader (stream_reader (sim_stream d))" "sim_writer (stream_writer (sim_stream d))"
  "d < 100 \<Longrightarrow> sim_reader (file_reader d)" "sim_writer (file_writer d sim_ready)"
  by (auto simp: sim_reader_def sim_writer_def fd_impl_defs sim_stream_def fun_eq_iff)

lemma sim_ready_spends:
  "spends sim_waits sim_ready" "spends sim_waits file_poll_ready" "spends sim_waits (sim_shutdown d)"
  by (auto simp: spends_def sim_ready_def sim_shutdown_def file_poll_ready_def split: if_splits)

lemma sim_ready_eagain:
  "sim_ready e = (x, e') \<Longrightarrow> sim_eagain e' = sim_eagain e"
  "file_poll_ready (e :: sim) = (x, e') \<Longrightarrow> sim_eagain e' = sim_eagain e"
  by (auto simp: sim_ready_def file_poll_ready_def split: if_splits)

lemma sim_in_step_ready:
  "sim_ready e = (x, e') \<Longrightarrow> in_step (sim_probe r w pr) pw pr c e = in_step (sim_probe r w pr) pw pr c e'"
  "file_poll_ready e = (x, e') \<Longrightarrow>
     in_step (sim_probe r w pr) pw pr c e = in_step (sim_probe r w pr) pw pr c e'"
proof -
  have "in_step P pw pr c e = in_step P pw pr c e'" if "same_view P e e'" for P :: "sim probe"
    unfolding in_step_def ctx_inv_same_view [OF that] ..
  then show
    "sim_ready e = (x, e') \<Longrightarrow> in_step (sim_probe r w pr) pw pr c e = in_step (sim_probe r w pr) pw pr c e'"
    "file_poll_ready e = (x, e') \<Longrightarrow>
       in_step (sim_probe r w pr) pw pr c e = in_step (sim_probe r w pr) pw pr c e'"
    using sim_ready_view(1) [of r w pr e] by (auto simp: file_poll_ready_def)
qed

lemma sim_yields:
  assumes rd: "sim_reader rd" and wr: "sim_writer wr" and pr: "100 \<le> pr"
  shows "yields (live_platform prof sim_os) (sim_probe r w pr) rd wr (pr + 1) pr sim_eagain"
  unfolding yields_def
proof (intro conjI allI impI)
  fix c e e1 res c' e2
  assume step: "in_step (sim_probe r w pr) (pr + 1) pr c e"
    and poll: "rd_poll_ready rd e = (Ready (Ok ()), e1)"
    and run: "rd_try_io rd (try_splice_from_source (live_platform prof sim_os) (rd_fd rd)) c e1
      = Val (res, c', e2)"
  have same: "sim_eagain e1 = sim_eagain e" and step1: "in_step (sim_probe r w pr) (pr + 1) pr c e1"
    using rd poll step by (auto simp: sim_reader_def sim_in_step_ready dest: sim_ready_eagain)
  have bare: "try_splice_from_source (live_platform prof sim_os) (rd_fd rd) c e1 = Val (res, c', e2)"
    and low: "rd_fd rd < 100"
    using rd run by (simp_all add: sim_reader_def)
  show "sim_eagain e2 \<le> sim_eagain e" using sim_source_counts [OF bare] same by simp
  show "sim_eagain e2 < sim_eagain e"
    if "(\<exists>er. res = Err er \<and> would_block er) \<and> \<not> pipe_has_data c'"
  proof -
    from that obtain er where er: "res = Err er" "would_block er" "\<not> pipe_has_data c'" by blast
    show ?thesis using sim_source_blocks [OF bare [unfolded er(1)] er(2) step1 low er(3)] same by simp
  qed
next
  fix c e e1 res c' e2
  assume step: "in_step (sim_probe r w pr) (pr + 1) pr c e"
    and poll: "wr_poll_ready wr e = (Ready (Ok ()), e1)"
    and run: "wr_try_io wr (try_splice_to_dest (live_platform prof sim_os) (wr_fd wr)) c e1
      = Val (res, c', e2)"
  have same: "sim_eagain e1 = sim_eagain e" and step1: "in_step (sim_probe r w pr) (pr + 1) pr c e1"
    using wr poll step by (auto simp: sim_writer_def sim_in_step_ready dest: sim_ready_eagain)
  have bare: "try_splice_to_dest (live_platform prof sim_os) (wr_fd wr) c e1 = Val (res, c', e2)"
    using wr run by (simp add: sim_writer_def)
  show "sim_eagain e2 \<le> sim_eagain e" using sim_dest_counts [OF bare] same by simp
  show "sim_eagain e2 < sim_eagain e" if "\<exists>er. res = Err er \<and> would_block er"
  proof -
    from that obtain er where er: "res = Err er" "would_block er" by blast
    show ?thesis using sim_dest_blocks [OF bare [unfolded er(1)] er(2) step1 pr] same by simp
  qed
qed

lemma sim_runtime_ok:
  assumes "sim_reader rd" "sim_writer wr" "100 \<le> pr"
  shows "runtime_ok (live_platform prof sim_os) (sim_probe r w pr) rd wr (pr + 1) pr id sim_eagain
    sim_waits"
proof -
  have "patient (live_platform prof sim_os) rd wr sim_waits"
    using assms(1,2) sim_ready_spends sim_source_counts sim_dest_counts
    by (fastforce simp: patient_def sim_reader_def sim_writer_def saves_def)
  with sim_yields [OF assms] show ?thesis
    by (simp add: runtime_ok_def park_keeps_def park_saves_def)
qed

text \<open>The pipe a fresh machine makes, and sockets and files around it.\<close>

definition sim_pipe_made :: pipe where
  "sim_pipe_made = \<lparr>pipe_drain_fd = Some 100, pipe_fill_fd = Some 101,
     pipe_size_field = MAXIMUM_PIPE_SIZE\<rparr>"

definition sim_started :: "nat \<Rightarrow> nat \<Rightarrow> sim" where
  "sim_started k n = (sim_start k n)\<lparr>sim_open := [100, 101, 10, 11, 50, 51], sim_pipe := (\<lambda>_. [])(100 := [])\<rparr>"

lemma sim_pipe_new:
  "pipe_new sim_os e = (Ok \<lparr>pipe_drain_fd = Some (sim_fresh e), pipe_fill_fd = Some (sim_fresh e + 1),
      pipe_size_field = MAXIMUM_PIPE_SIZE\<rparr>,
    e\<lparr>sim_open := sim_fresh e # (sim_fresh e + 1) # sim_open e,
      sim_pipe := (sim_pipe e)(sim_fresh e := [])\<rparr>)"
proof -
  have "nz_new (nz_get MAXIMUM_PIPE_SIZE) = Some MAXIMUM_PIPE_SIZE" by (rule nz_new_get)
  then show ?thesis
    by (simp add: pipe_new_def negotiate_size_def sim_sys del: pipe_size_constants)
qed

lemma sim_start_pipe: "pipe_new sim_os (sim_start k n) = (Ok sim_pipe_made, sim_started k n)"
proof -
  have "sim_fresh (sim_start k n) = 100" by (simp add: sim_fresh_def sim_start_def)
  moreover have "nz_new (nz_get MAXIMUM_PIPE_SIZE) = Some MAXIMUM_PIPE_SIZE" by (rule nz_new_get)
  ultimately show ?thesis
    by (simp add: pipe_new_def negotiate_size_def sim_sys sim_pipe_made_def sim_started_def
        sim_start_def del: pipe_size_constants)
qed

lemma sim_pipe_made_ends: "drain_fd sim_pipe_made = Some 100" "fill_fd sim_pipe_made = Some 101"
  by (simp_all add: sim_pipe_made_def rust_defs)

lemma sim_sockets_ok:
  "kernel_ok sim_os (sim_probe 10 11 100) (stream_reader (sim_stream 10))
     (stream_writer (sim_stream 11)) 101 100"
  using sim_kernel_ok [OF _ _ _ _ _ sim_stream_ok, of 10 100 11 10 11]
  by (simp add: fd_impl_defs sim_stream_def)

lemma sim_file_ok:
  "kernel_ok sim_os (sim_probe 50 11 100) (file_reader 50) (stream_writer (sim_stream 11)) 101 100"
  using sim_kernel_ok [OF _ _ _ _ _ file_reader_ok sim_stream_ok(2), of 50 100 11 50 11]
  by (simp add: fd_impl_defs sim_stream_def)

lemma sim_file_writer_ok: "writer_ok (same_view (sim_probe r w pr)) (file_writer d sim_ready)"
  by (rule file_writer_ok) (simp_all add: poll_keeps_def sim_ready_view)

lemma sim_out_file_ok:
  "kernel_ok sim_os (sim_probe 10 51 100) (stream_reader (sim_stream 10)) (file_writer 51 sim_ready)
     101 100"
  using sim_kernel_ok [OF _ _ _ _ _ sim_stream_ok(1) sim_file_writer_ok, of 10 100 51 10 51]
  by (simp add: fd_impl_defs sim_stream_def)

lemma sim_start_views [simp]:
  "v_src (sim_probe 10 w pr) None (sim_start k n) = sim_letter"
  "v_src (sim_probe 11 w pr) None (sim_start k n) = sim_answer"
  "v_src (sim_probe 50 w pr) (Some x) (sim_start k n) = drop (unat x) sim_text"
  "v_dst (sim_probe r w pr) None (sim_start k n) = []"
  by (simp_all add: sim_probe_def sim_start_def)

lemma sim_runtime:
  "runtime_ok (live_platform prof sim_os) (sim_probe 10 11 100) (stream_reader (sim_stream 10))
     (stream_writer (sim_stream 11)) 101 100 id sim_eagain sim_waits"
  "runtime_ok (live_platform prof sim_os) (sim_probe 50 11 100) (file_reader 50)
     (stream_writer (sim_stream 11)) 101 100 id sim_eagain sim_waits"
  "runtime_ok (live_platform prof sim_os) (sim_probe 10 51 100) (stream_reader (sim_stream 10))
     (file_writer 51 sim_ready) 101 100 id sim_eagain sim_waits"
  "runtime_ok (live_platform prof sim_os) (sim_probe 11 10 102) (stream_reader (sim_stream 11))
     (stream_writer (sim_stream 10)) 103 102 id sim_eagain sim_waits"
  using sim_runtime_ok [OF sim_rw(1,2), of 10 100 prof 10 11 11]
    sim_runtime_ok [OF sim_rw(3,2), of 50 100 prof 50 11 11]
    sim_runtime_ok [OF sim_rw(1,4), of 10 100 prof 10 51 51]
    sim_runtime_ok [OF sim_rw(1,2), of 11 102 prof 11 10 10]
  by simp_all

section \<open>One transfer on it\<close>

text \<open>The context \<open>copy\<close> makes on the machine, and the invariants it starts in.\<close>

abbreviation sim_platform :: "(live, sim) platform" where
  "sim_platform \<equiv> live_platform Dev sim_os"

abbreviation sim_src :: "(live, sim) reader" where "sim_src \<equiv> stream_reader (sim_stream 10)"

abbreviation sim_dst :: "(live, sim) writer" where "sim_dst \<equiv> stream_writer (sim_stream 11)"

abbreviation sim_view :: "sim probe" where "sim_view \<equiv> sim_probe 10 11 100"

definition sim_io :: "live splice_io" where "sim_io = io_from (new_ctx Live sim_pipe_made)"

lemma sim_env: "transfer_env sim_platform sim_view sim_src sim_dst 101 100"
  by (rule kernel_ok_transfer_env [OF sim_sockets_ok])

lemma sim_runtimeD:
  "park_keeps sim_view id" "yields sim_platform sim_view sim_src sim_dst 101 100 sim_eagain"
  "patient sim_platform sim_src sim_dst sim_waits" "park_saves (sim_waits :: sim \<Rightarrow> nat) id"
  using sim_runtime(1) [of Dev] by (simp_all add: runtime_ok_def)

lemma sim_started_views [simp]:
  "v_buf (sim_probe r w pr) (sim_started k n) = []"
  "v_src (sim_probe 10 w pr) None (sim_started k n) = sim_letter"
  "v_src (sim_probe 11 w pr) None (sim_started k n) = sim_answer"
  "v_dst (sim_probe r w pr) None (sim_started k n) = []"
  by (simp_all add: sim_probe_def sim_started_def sim_start_def)

lemma sim_io_inv:
  "io_inv sim_view 101 100 Off_None ISIZE_MAX sim_letter [] sim_io (sim_started k n)"
  using io_inv_fresh [of "new_ctx Live sim_pipe_made" ISIZE_MAX Off_None 100 101 sim_view
      "sim_started k n"]
  by (simp add: sim_io_def new_ctx_def rust_defs sim_pipe_made_def)

lemma sim_ctx_inv:
  "ctx_inv sim_view 101 100 Off_None ISIZE_MAX sim_letter [] (ctx sim_io) (sim_started k n)"
  using sim_io_inv by (simp add: io_inv_def)

text \<open>A transfer from a socket waits as long as the schedule says so.\<close>

lemma sim_poll_waits:
  assumes "state io = Fill" "rd_poll_ready r = sim_ready" "sim_waits e = Suc n"
  shows "poll_execute pf r w (io, e) = Some (Val (Pending, io, e\<lparr>sim_waits := n\<rparr>))"
  using assms by (simp add: poll_execute_def drive_Break sim_ready_def)

lemma sim_started_waits:
  "poll_execute sim_platform sim_src sim_dst (sim_io, sim_started k (Suc n))
    = Some (Val (Pending, sim_io, sim_started k n))"
  using sim_poll_waits [of sim_io sim_src "sim_started k (Suc n)" n sim_platform sim_dst]
  by (simp add: sim_io_def io_from_def fd_impl_defs sim_stream_def sim_started_def sim_start_def)

lemma sim_paused:
  "pauses sim_platform sim_src sim_dst id (sim_io, sim_started k 2) (sim_io, sim_started k 0)"
proof (rule next_pause)
  show "pauses sim_platform sim_src sim_dst id (sim_io, sim_started k 2) (sim_io, sim_started k 1)"
    using sim_started_waits [of k 1] by (intro first_pause) (simp add: numeral_2_eq_2)
qed (use sim_started_waits [of k 0] in simp)

text \<open>A socket that was ready stays ready until something waits again.\<close>

lemma sim_keeps_ready: "keeps_ready (live_platform prof sim_os) sim_src sim_dst (\<lambda>_. False)"
  unfolding keeps_ready_def stays_ready_def
  by (auto simp: fd_impl_defs sim_stream_def sim_ready_def split: if_splits
      dest!: sim_source_counts sim_dest_counts)

lemma sim_blind: "blind_env (sim_probe r w pr) sim_src sim_dst"
  by (simp add: blind_env_def fd_impl_defs sim_stream_def bare_call_blind)

text \<open>Its descriptors.\<close>

abbreviation sim_fds :: "sim \<Rightarrow> fd set" where "sim_fds \<equiv> \<lambda>e. set (sim_open e)"

text \<open>The descriptors the machine starts with: two sockets and two files.\<close>

abbreviation sim_base :: "fd set" where "sim_base \<equiv> {10, 11, 50, 51}"

lemma sim_ready_fds:
  "sim_fds (snd (sim_ready e)) = sim_fds e" "sim_fds (snd (sim_shutdown d e)) = sim_fds e"
  by (simp_all add: sim_ready_def sim_shutdown_def)

lemma sim_stream_fds:
  "reader_ok (same_fds sim_fds) (stream_reader (sim_stream d))"
  "writer_ok (same_fds sim_fds) (stream_writer (sim_stream d))"
  "reader_ok (same_fds sim_fds) (file_reader d :: (live, sim) reader)"
  by (simp_all add: reader_ok_def writer_ok_def poll_keeps_def fd_impl_defs sim_stream_def
      sim_ready_fds ran_self same_fds_def)

lemma sim_accounts:
  "accounts (live_platform prof sim_os) (stream_reader (sim_stream d1)) (stream_writer (sim_stream d2))
     id sim_fds"
  "accounts (live_platform prof sim_os) (file_reader d1) (stream_writer (sim_stream d2)) id sim_fds"
  using live_opens_nothing [OF sim_fd_laws]
  by (simp_all add: accounts_def sim_fd_laws sim_stream_fds)

lemma sim_accounted:
  "accounted sim_platform sim_src sim_dst id sim_fds sim_base (ctx sim_io) (sim_started k n)"
  using sim_accounts(1) [of Dev 10 11]
  by (simp add: accounted_def owns_apart_def pipe_fds_def sim_io_def io_from_def new_ctx_def
      sim_pipe_made_def sim_started_def insert_commute)

section \<open>Two transfers on it\<close>

definition sim_pipe_made2 :: pipe where
  "sim_pipe_made2 = \<lparr>pipe_drain_fd = Some 102, pipe_fill_fd = Some 103,
     pipe_size_field = MAXIMUM_PIPE_SIZE\<rparr>"

lemma sim_start_pipe2:
  "\<exists>e2. pipe_new sim_os (sim_started k n) = (Ok sim_pipe_made2, e2)"
proof -
  have "sim_fresh (sim_started k n) = 102" by (simp add: sim_fresh_def sim_started_def)
  moreover have "nz_new (nz_get MAXIMUM_PIPE_SIZE) = Some MAXIMUM_PIPE_SIZE" by (rule nz_new_get)
  ultimately show ?thesis
    by (simp add: pipe_new_def negotiate_size_def sim_sys sim_pipe_made2_def
        del: pipe_size_constants)
qed

lemma sim_pipe_made2_ends:
  "drain_fd sim_pipe_made2 = Some 102" "fill_fd sim_pipe_made2 = Some 103"
  by (simp_all add: sim_pipe_made2_def rust_defs)

lemma sim_pipe_elsewhere: "pipe_elsewhere sim_os (sim_probe r w pr) pw pr"
  by (auto simp: pipe_elsewhere_def same_view_def sim_probe_def sim_sys split: option.splits)

definition sim_endpoint :: "fd \<Rightarrow> (live, live, sim) endpoint" where
  "sim_endpoint d =
     \<lparr>as_reader = stream_reader (sim_stream d), as_writer = stream_writer (sim_stream d)\<rparr>"

lemma sim_fill_elsewhere:
  "sim_fill r off pw m e = (res, x, e') \<Longrightarrow> r \<noteq> r' \<Longrightarrow> pw \<noteq> pr' + 1 \<Longrightarrow>
     same_view (sim_probe r' w' pr') e e'"
  by (auto simp: sim_fill_def sim_take_in_def Let_def same_view_def sim_probe_def
      split: if_splits option.splits)

lemma sim_drain_elsewhere:
  "sim_drain pr w off m e = (res, x, e') \<Longrightarrow> w < 50 \<Longrightarrow> w \<noteq> w' \<Longrightarrow> pr \<noteq> pr' \<Longrightarrow>
     same_view (sim_probe r' w' pr') e e'"
  by (auto simp: sim_drain_def Let_def same_view_def sim_probe_def split: if_splits option.splits)

lemma sim_close_view: "same_view (sim_probe r w pr) e (sys_close sim_os d e)"
  by (simp add: same_view_def sim_probe_def sim_os_def split: option.splits)

lemma sim_apart:
  assumes "r < 100" "w < 50" "100 \<le> pr" "r \<noteq> r'" "w \<noteq> w'" "pr \<noteq> pr'"
  shows "apart (live_platform prof sim_os) (stream_reader (sim_stream r))
    (stream_writer (sim_stream w)) (pr + 1) pr (sim_probe r' w' pr')"
  unfolding apart_def calm_def
proof (intro conjI allI impI)
  fix s off m e res off' s' e'
  assume "splice_in (pf_ops (live_platform prof sim_os)) s (rd_fd (stream_reader (sim_stream r)))
    off (pr + 1) m e = Val (res, off', s', e')"
  then obtain y x where "sim_fill r off (pr + 1) m e = (y, x, e')"
    using assms(1)
    by (auto simp: live_ops_def live_splice_in_def fd_impl_defs sim_stream_def sim_os_def
        split: prod.splits)
  then show "same_view (sim_probe r' w' pr') e e'"
    by (rule sim_fill_elsewhere) (use assms in simp_all)
next
  fix s off m e res off' s' e'
  assume "splice_out (pf_ops (live_platform prof sim_os)) s pr (wr_fd (stream_writer (sim_stream w)))
    off m e = Val (res, off', s', e')"
  then obtain y x where "sim_drain pr w off m e = (y, x, e')"
    using assms(3)
    by (auto simp: live_ops_def live_splice_out_def fd_impl_defs sim_stream_def sim_os_def
        split: prod.splits)
  then show "same_view (sim_probe r' w' pr') e e'"
    by (rule sim_drain_elsewhere) (use assms in simp_all)
qed (simp_all add: sim_close_view sim_stream_ok)

text \<open>Nothing fails between open sockets that are not shut down; the shutdown of one spares others.\<close>

definition sim_unshut :: "fd \<Rightarrow> sim \<Rightarrow> bool" where
  "sim_unshut w e \<longleftrightarrow> w \<notin> set (sim_shut e)"

lemma sim_no_failure:
  "sim_fill r None pw m e = (Err en, x, e') \<Longrightarrow> {r, pw} \<subseteq> sim_fds e \<Longrightarrow> en = EAGAIN"
  "sim_drain pr w None m e = (Err en, x, e') \<Longrightarrow> {w, pr} \<subseteq> sim_fds e \<Longrightarrow> sim_unshut w e \<Longrightarrow>
     en = EAGAIN"
  by (auto simp: sim_fill_def sim_drain_def sim_unshut_def Let_def split: if_splits)

lemma sim_source_fails:
  assumes run: "try_splice_from_source (live_platform prof sim_os) r c e = Val (Err er, c', e')"
    and none: "offset c = Off_None" and ends: "ends_ok (pr + 1) pr c" and "r < 100"
    and opened: "{r} \<union> pipe_fds (pipe c) \<subseteq> sim_fds e"
  shows "would_block er"
  using run
proof (cases rule: source_cases)
  case (Failed d m er' off' s')
  then have "{r, d} \<subseteq> sim_fds e" using opened by (auto simp: pipe_fds_def)
  with Failed none \<open>r < 100\<close> show ?thesis
    by (auto simp: live_ops_def live_splice_in_def sim_os_def map_err_Err
        split: prod.splits dest!: sim_no_failure(1))
qed simp_all

lemma sim_dest_fails:
  assumes run: "try_splice_to_dest (live_platform prof sim_os) w c e = Val (Err er, c', e')"
    and none: "offset c = Off_None" and ends: "ends_ok (pr + 1) pr c" and "100 \<le> pr"
    and opened: "{w} \<union> pipe_fds (pipe c) \<subseteq> sim_fds e" and up: "sim_unshut w e"
  shows "would_block er"
  using run
proof (cases rule: dest_cases)
  case (Failed d m er' off' s')
  then have "{w, d} \<subseteq> sim_fds e" using opened by (auto simp: pipe_fds_def)
  moreover have "d = pr" using Failed(1) ends by (simp add: ends_ok_def drain_fd_def)
  ultimately show ?thesis
    using Failed none up \<open>100 \<le> pr\<close>
    by (auto simp: live_ops_def live_splice_out_def sim_os_def map_err_Err
        split: prod.splits dest!: sim_no_failure(2))
qed simp_all

lemma sim_calm_shut:
  assumes same: "\<And>e e'. sim_shut e' = sim_shut e \<Longrightarrow> R e e'"
    and shut: "\<And>e. R e (snd (wr_poll_shutdown w e))"
    and io: "w = stream_writer (sim_stream d') \<or> w = never_shut (stream_writer (sim_stream d'))"
  shows "calm (live_platform prof sim_os) (stream_reader (sim_stream d)) w pw pr R"
  unfolding calm_def
proof (intro conjI allI impI)
  have polls: "R e (snd (sim_ready e))" for e by (rule same) (simp add: sim_ready_def)
  show "reader_ok R (stream_reader (sim_stream d))"
    using polls same [OF refl] by (simp add: reader_ok_def poll_keeps_def fd_impl_defs
        sim_stream_def ran_self)
  show "writer_ok R w"
    using polls same [OF refl] shut io
    by (auto simp: writer_ok_def poll_keeps_def never_shut_def fd_impl_defs sim_stream_def ran_self)
qed (auto simp: live_ops_def live_splice_in_def live_splice_out_def sim_close_counts intro!: same
    split: prod.splits dest!: sim_splice_counts)

lemma sim_healthy:
  assumes "r < 100" "100 \<le> pr"
  shows "healthy (live_platform prof sim_os) (sim_probe r' w' pr) (stream_reader (sim_stream r))
    (stream_writer (sim_stream w)) (pr + 1) pr id sim_fds (\<lambda>_. True) (sim_unshut w)"
  unfolding healthy_def
proof (intro conjI allI impI)
  let ?rd = "stream_reader (sim_stream r) :: (live, sim) reader"
  let ?wr = "stream_writer (sim_stream w) :: (live, sim) writer"
  show "accounts (live_platform prof sim_os) ?rd ?wr id sim_fds" by (rule sim_accounts)
  show "wr_poll_shutdown ?wr e \<noteq> (Ready (Err er), e')" "rd_poll_ready ?rd e \<noteq> (Ready (Err er), e')"
    "wr_poll_ready ?wr e \<noteq> (Ready (Err er), e')" for e er e'
    by (simp_all add: fd_impl_defs sim_stream_def sim_ready_def sim_shutdown_def)
  fix c :: "live splice_ctx" and e
  assume up: "sim_unshut w e" and step: "in_step (sim_probe r' w' pr) (pr + 1) pr c e"
    and none: "offset c = Off_None"
    and opened: "{rd_fd ?rd, wr_fd ?wr} \<union> pipe_fds (pipe c) \<subseteq> sim_fds e"
  have fds: "{r} \<union> pipe_fds (pipe c) \<subseteq> sim_fds e" "{w} \<union> pipe_fds (pipe c) \<subseteq> sim_fds e"
    using opened by (simp_all add: fd_impl_defs sim_stream_def)
  note ends = in_step_data(2) [OF step]
  show "blocks_at_most (rd_try_io ?rd (try_splice_from_source (live_platform prof sim_os) (rd_fd ?rd)) c e)"
    using sim_source_fails [OF _ none ends assms(1) fds(1)]
    by (auto simp: blocks_at_most_def fd_impl_defs sim_stream_def)
  show "blocks_at_most (wr_try_io ?wr (try_splice_to_dest (live_platform prof sim_os) (wr_fd ?wr)) c e)"
    using sim_dest_fails [OF _ none ends assms(2) fds(2) up]
    by (auto simp: blocks_at_most_def fd_impl_defs sim_stream_def)
next
  show "calm (live_platform prof sim_os) (stream_reader (sim_stream r)) (stream_writer (sim_stream w))
    (pr + 1) pr (kept_by (\<lambda>_. True))"
    by (rule sim_calm_shut) (auto simp: kept_by_def)
  show "calm (live_platform prof sim_os) (stream_reader (sim_stream r))
    (never_shut (stream_writer (sim_stream w))) (pr + 1) pr (kept_by (sim_unshut w))"
    by (rule sim_calm_shut) (auto simp: kept_by_def sim_unshut_def never_shut_def)
qed (simp_all add: kept_by_def)

lemma sim_bidi_healthy:
  "bidi_healthy (live_platform prof sim_os) (live_platform prof sim_os)
     (lane_of (sim_probe 10 11 100) 101 100 e) (lane_of (sim_probe 11 10 102) 103 102 e)
     (sim_endpoint 10) (sim_endpoint 11) id sim_fds (\<lambda>_. True) (sim_unshut 11) (sim_unshut 10)"
proof -
  have spare: "calm (live_platform prof sim_os) (stream_reader (sim_stream r))
      (stream_writer (sim_stream w)) pw pr (kept_by (sim_unshut w'))" if "w \<noteq> w'" for r w w' pw pr
    by (rule sim_calm_shut)
      (use that in \<open>auto simp: kept_by_def sim_unshut_def fd_impl_defs sim_stream_def
        sim_shutdown_def sim_ready_def\<close>)
  show ?thesis
    using sim_healthy [of 10 100 prof 10 11 11] sim_healthy [of 11 102 prof 11 10 10] spare [of 11 10]
      spare [of 10 11]
    by (simp add: bidi_healthy_def sim_endpoint_def)
qed

lemma sim_nothing_fails:
  assumes "{10, 11} \<subseteq> sim_fds e" and "sim_shut e2 = []"
  shows "nothing_fails (live_platform prof sim_os) (lane_of (sim_probe 10 11 100) 101 100 e)
    (lane_of (sim_probe 11 10 102) 103 102 e) (sim_endpoint 10) (sim_endpoint 11) id e e2"
  unfolding nothing_fails_def
  by (intro exI conjI, rule sim_bidi_healthy)
    (use assms in \<open>auto simp: sim_unshut_def sim_endpoint_def fd_impl_defs sim_stream_def\<close>)

lemma sim_bidi_runtime:
  "bidi_runtime (live_platform prof sim_os) (live_platform prof sim_os)
     (lane_of (sim_probe 10 11 100) 101 100 e) (lane_of (sim_probe 11 10 102) 103 102 e)
     (sim_endpoint 10) (sim_endpoint 11) id sim_eagain sim_eagain sim_waits"
proof -
  have "kernel_ok sim_os (sim_probe 11 10 102) (stream_reader (sim_stream 11))
     (stream_writer (sim_stream 10)) 103 102"
    using sim_kernel_ok [OF _ _ _ _ _ sim_stream_ok, of 11 102 10 11 10]
    by (simp add: fd_impl_defs sim_stream_def)
  then have "lane_env (live_platform prof sim_os) (lane_of (sim_probe 11 10 102) 103 102 e)
      (stream_reader (sim_stream 11)) (stream_writer (sim_stream 10))"
    by (simp add: lane_env_def kernel_ok_transfer_env)
  moreover have "lane_env (live_platform prof sim_os) (lane_of (sim_probe 10 11 100) 101 100 e)
      (stream_reader (sim_stream 10)) (stream_writer (sim_stream 11))"
    by (simp add: lane_env_def kernel_ok_transfer_env [OF sim_sockets_ok])
  moreover have "apart (live_platform prof sim_os) (stream_reader (sim_stream 10))
      (stream_writer (sim_stream 11)) 101 100 (sim_probe 11 10 102)"
    using sim_apart [of 10 11 100 11 10 102 prof] by simp
  moreover have "apart (live_platform prof sim_os) (stream_reader (sim_stream 11))
      (stream_writer (sim_stream 10)) 103 102 (sim_probe 10 11 100)"
    using sim_apart [of 11 10 102 10 11 100 prof] by simp
  ultimately show ?thesis
    using sim_runtime(1,4) [of prof]
    by (simp add: bidi_runtime_def bidi_env_def sim_endpoint_def runtime_ok_def)
qed

text \<open>What is ready stays ready, for the other direction too.\<close>

lemma sim_stays_ready: "stays_ready (\<lambda>_. False) sim_ready e \<longleftrightarrow> sim_waits e = 0"
  by (simp add: stays_ready_def sim_ready_def)

lemma sim_endpoint_ready [simp]:
  "rd_poll_ready (as_reader (sim_endpoint d)) = sim_ready"
  "wr_poll_ready (as_writer (sim_endpoint d)) = sim_ready"
  by (simp_all add: sim_endpoint_def fd_impl_defs sim_stream_def)

lemma sim_still:
  "still (\<lambda>_. False) (as_reader (sim_endpoint d)) (as_writer (sim_endpoint d')) e e' \<longleftrightarrow>
     (sim_waits e = 0 \<longrightarrow> sim_waits e' = 0)"
  by (simp add: still_def sim_stays_ready)

lemma sim_calm:
  assumes waits: "\<And>e e'. sim_waits e' \<le> sim_waits e \<Longrightarrow> R e e'"
  shows "calm (live_platform prof sim_os) (as_reader (sim_endpoint d)) (as_writer (sim_endpoint d'))
    pw pr R"
  unfolding calm_def
proof (intro conjI allI impI)
  show "reader_ok R (as_reader (sim_endpoint d))" "writer_ok R (as_writer (sim_endpoint d'))"
    using waits
    by (simp_all add: reader_ok_def writer_ok_def poll_keeps_def fd_impl_defs sim_endpoint_def
        sim_stream_def sim_ready_def sim_shutdown_def ran_self)
qed (auto simp: live_ops_def live_splice_in_def live_splice_out_def sim_close_counts intro!: waits
    split: prod.splits dest!: sim_splice_counts)

lemma sim_bidi_readiness:
  "bidi_readiness (live_platform prof sim_os) (live_platform prof sim_os) L1 L2 (sim_endpoint 10)
     (sim_endpoint 11) (\<lambda>_. False) id"
proof -
  have "readiness_ok (live_platform prof sim_os) (as_reader (sim_endpoint a))
      (as_writer (sim_endpoint b)) (\<lambda>_. False) id" for a b
    unfolding readiness_ok_def keeps_ready_def wakes_ready_def steady_def
    by (auto simp: sim_stays_ready sim_ready_def sim_endpoint_def fd_impl_defs sim_stream_def
        split: if_splits dest!: sim_source_counts sim_dest_counts)
  then show ?thesis
    unfolding bidi_readiness_def by (auto simp: sim_still sim_ready_def intro!: sim_calm)
qed

text \<open>Two transfers on two new pipes, and their first pause.\<close>

definition sim_bidi :: "(live, live) bidi_io" where
  "sim_bidi = \<lparr>io_sl2sr = io_from (new_ctx Live sim_pipe_made),
     io_sr2sl = io_from (new_ctx Live sim_pipe_made2)\<rparr>"

lemma sim_bidi_paused:
  assumes "pipe_new sim_os (sim_started k (Suc (Suc n))) = (Ok sim_pipe_made2, e2)"
  shows "\<exists>b' e'. bidi_pauses sim_platform sim_platform (sim_endpoint 10) (sim_endpoint 11) id
    (sim_bidi, e2) (b', e')"
proof -
  have waits: "sim_waits e2 = Suc (Suc n)"
    using assms by (auto simp: sim_pipe_new sim_started_def sim_start_def)
  show ?thesis
    by (intro exI, rule first_pause)
      (simp add: bidi_poll_execute_def sim_poll_waits [OF _ _ waits] sim_poll_waits [where n = n]
        io_from_def sim_bidi_def)
qed

lemma sim_bidi_ok:
  assumes "pipe_new sim_os (sim_started k n) = (Ok sim_pipe_made2, e2)"
  shows "bidi_ok (lane_of (sim_probe 10 11 100) 101 100 (sim_start k n))
    (lane_of (sim_probe 11 10 102) 103 102 (sim_start k n)) sim_bidi e2"
  unfolding sim_bidi_def
  by (rule bidi_ok_fresh [OF sim_start_pipe sim_pipe_made_ends assms sim_pipe_made2_ends _
        sim_pipe_starts_empty sim_pipe_starts_empty sim_pipe_elsewhere sim_pipe_elsewhere]) simp

lemma sim_start_fds:
  "sim_fds (sim_start k n) = sim_base" "sim_fds (sim_started k n) = {100, 101} \<union> sim_base"
  by (auto simp: sim_start_def sim_started_def)

text \<open>An attempt whose target is already reached closes the fill end and calls nothing.\<close>

lemma sim_target_reached:
  "try_splice_from_source sim_platform d (ctx sim_io\<lparr>size_to_splice := 0\<rparr>) e
    = Val (Ok Closed, fill_closed (ctx sim_io\<lparr>size_to_splice := 0\<rparr>), sys_close sim_os 101 e)"
  by (simp add: try_splice_from_source_def close_source_eq sim_io_def io_from_def new_ctx_def
      sim_pipe_made_def rust_defs)

text \<open>A build that traces everything, on a platform without texts.\<close>

definition sim_features :: features where
  "sim_features = \<lparr>feat_tracing = True, feat_tracing_trace = True\<rparr>"

definition sim_texts :: os_texts where
  "sim_texts = \<lparr>kind_name = (\<lambda>_. ''Uncategorized''), strerror = (\<lambda>_. '''')\<rparr>"

lemma sim_all_on: "all_on sim_features prof"
  by (simp add: all_on_def features_ok_def trace_on_def sim_features_def)

lemma sim_traced_returns:
  "\<exists>rep e' log. traced_execute sim_features sim_texts sim_platform sim_src sim_dst id sim_io
    (sim_started k n, []) = Some (Val (rep, e', log))"
proof -
  obtain rep e' where "execute sim_platform sim_src sim_dst id sim_io (sim_started k n)
      = Some (Val (rep, e'))"
    using execute_returns [OF sim_env sim_io_inv sim_runtimeD(1-4)] by blast
  then have "forget_report (traced_execute sim_features sim_texts sim_platform sim_src sim_dst id
      sim_io (sim_started k n, [])) = Some (Val (rep, e'))"
    by (simp add: traced_execute_forget)
  then obtain out where run: "traced_execute sim_features sim_texts sim_platform sim_src sim_dst id
      sim_io (sim_started k n, []) = Some out" and "map_comp (map_prod id fst) out = Val (rep, e')"
    by auto
  then show ?thesis by (cases out) auto
qed

section \<open>A connection on it\<close>

text \<open>
  The upstream server is the socket 11: connecting opens it, unless it is open.  The listener
  accepts the socket 10 until \<open>sim_waits\<close> is used up, with an aborted connection before the last
  one, and then runs out of descriptors.
\<close>

definition EMFILE :: errno where "EMFILE = 24"

definition sim_connect :: "sim connector" where
  "sim_connect addr e =
     (if 11 \<in> set (sim_open e) then (Err (Os EMFILE), e)
      else (Ok (sim_endpoint 11), e\<lparr>sim_open := 11 # sim_open e\<rparr>))"

definition sim_accept :: "(sim, unit) acceptor" where
  "sim_accept l e =
     (case sim_waits e of
        0 \<Rightarrow> (Err (Os EMFILE), e)
      | Suc n \<Rightarrow> ((if n = 1 then Err (Os ECONNABORTED) else Ok (sim_endpoint 10, ())), e\<lparr>sim_waits := n\<rparr>))"

definition sim_logging :: "(string, sim) logging" where
  "sim_logging = \<lparr>parse_directive = Ok, install_subscriber = (\<lambda>ds e. Val e)\<rparr>"

lemma sim_startup: "startup_pipe_size sim_os (sim_start k n) = (Ok MAXIMUM_PIPE_SIZE, sim_start k n)"
proof -
  have "drop_pipe sim_os sim_pipe_made (sim_started k n) = sim_start k n"
    by (simp add: drop_pipe_def sim_pipe_made_def sim_os_def sim_started_def sim_start_def
        fun_upd_idem)
  then show ?thesis
    by (simp only: startup_pipe_size_def sim_start_pipe prod.case result.case)
      (simp add: sim_pipe_made_def rust_defs)
qed

lemma sim_logging_set_up: "set_up_logging sim_logging e = Val e"
  by (simp add: set_up_logging_def sim_logging_def log_directives_def)

lemma sim_args:
  "parse_args [''proxy'', ''8080'', ''80''] = Val (Addresses ''0.0.0.0:8080'' ''127.0.0.1:80'')"
  by (simp add: parse_args_def parse_u16_def digit_of_def show_nat.simps char_of_def bit_Suc_0_iff)

lemma sim_connects_one: "connects_one sim_fds sim_connect"
  by (auto simp: connects_one_def sim_connect_def stream_fd_def sim_endpoint_def fd_impl_defs
      sim_stream_def split: result.splits)

lemma sim_drop_stream_view:
  "same_view (sim_probe r w pr) e (drop_stream sim_os s e)"
  by (simp add: drop_stream_def sim_close_view)

section \<open>The proxy on it\<close>

text \<open>A listener that opens the socket 10 for each connection, one at a time.\<close>

definition sim_listen :: "(sim, unit) acceptor" where
  "sim_listen l e =
     (if 10 \<in> set (sim_open e) then (Err (Os ECONNABORTED), e)
      else (Ok (sim_endpoint 10, ()), e\<lparr>sim_open := 10 # sim_open e\<rparr>))"

lemma sim_endpoint_fd: "stream_fd (sim_endpoint d) = d"
  by (simp add: stream_fd_def sim_endpoint_def fd_impl_defs sim_stream_def)

lemma sim_network_laws: "network_laws sim_os sim_fds sim_connect sim_listen id"
proof -
  have quiet: "quiet_stream sim_fds (sim_endpoint d)" for d
    by (simp add: quiet_stream_def sim_endpoint_def sim_stream_fds)
  then have "accepts_one sim_fds sim_listen"
    by (auto simp: accepts_one_def sim_listen_def sim_endpoint_fd split: result.splits)
  with quiet show ?thesis
    by (auto simp: network_laws_def sim_fd_laws sim_connects_one sim_connect_def split: if_splits)
qed

text \<open>A connection is accepted, its task connects, makes its pipes and waits.\<close>

definition sim_bound :: sim where
  "sim_bound = (sim_start 0 2)\<lparr>sim_open := [7]\<rparr>"

lemma sim_proxy_run:
  "\<exists>b e2. proxy_run Dev sim_os sim_connect id sim_listen 7 ''127.0.0.1:80'' ([], sim_bound)
     ([Transferring (sim_endpoint 10) (sim_endpoint 11) b], e2)"
proof -
  let ?step = "proxy_step Dev sim_os sim_connect id sim_listen 7 ''127.0.0.1:80''"
  let ?task = "Spawned (sim_endpoint 10) ''127.0.0.1:80''"
  let ?e1 = "sim_bound\<lparr>sim_open := [10, 7]\<rparr>" and ?e2 = "sim_bound\<lparr>sim_open := [11, 10, 7]\<rparr>"
  have "?step ([], sim_bound) ([] @ [?task], ?e1)"
    by (rule step_spawn) (simp add: sim_listen_def sim_bound_def)
  then have spawned: "?step ([], sim_bound) ([] @ ?task # [], ?e1)" by simp
  have conn: "sim_connect ''127.0.0.1:80'' ?e1 = (Ok (sim_endpoint 11), ?e2)"
    by (simp add: sim_connect_def)
  obtain p1 p2 e3 e4 where p1: "pipe_new sim_os ?e2 = (Ok p1, e3)"
    and p2: "pipe_new sim_os e3 = (Ok p2, e4)" and waits: "sim_waits e4 = Suc 1"
    by (simp add: sim_pipe_new sim_bound_def sim_start_def)
  let ?b = "\<lparr>io_sl2sr = io_from (new_ctx Live p1), io_sr2sl = io_from (new_ctx Live p2)\<rparr>"
  have "forwarding_poll Dev sim_os sim_connect (?task, ?e1)
    = Some (Val (Pending, Transferring (sim_endpoint 10) (sim_endpoint 11) ?b, e4\<lparr>sim_waits := 0\<rparr>))"
    by (simp add: conn p1 p2 ctx_new_def ctx_new_inner_def transfer_poll_def bidi_poll_execute_def
        sim_poll_waits [OF _ _ waits] sim_poll_waits [where n = 0] io_from_def)
  from step_pending [OF this] have "?step ([] @ ?task # [], ?e1)
      ([] @ Transferring (sim_endpoint 10) (sim_endpoint 11) ?b # [], e4\<lparr>sim_waits := 0\<rparr>)" .
  with spawned have "?step\<^sup>*\<^sup>* ([], sim_bound)
      ([] @ Transferring (sim_endpoint 10) (sim_endpoint 11) ?b # [], e4\<lparr>sim_waits := 0\<rparr>)"
    by (rule rtranclp.rtrancl_into_rtrancl [OF r_into_rtranclp])
  then have "?step\<^sup>*\<^sup>* ([], sim_bound)
      ([Transferring (sim_endpoint 10) (sim_endpoint 11) ?b], e4\<lparr>sim_waits := 0\<rparr>)" by simp
  then show ?thesis by blast
qed

section \<open>A direction that failed\<close>

text \<open>
  A transfer that has failed with \<open>EPIPE\<close>, one that is over, and two endpoints of which the first
  waits before it is shut down.
\<close>

definition sim_failed :: "live splice_io" where
  "sim_failed = sim_io\<lparr>state := Finished (Some (Os EPIPE))\<rparr>"

definition sim_over :: "live splice_io" where "sim_over = sim_io\<lparr>state := Finished None\<rparr>"

definition sim_slow_end :: "(live, live, sim) endpoint" where
  "sim_slow_end = \<lparr>as_reader = file_reader 50, as_writer = file_writer 51 sim_ready\<rparr>"

definition sim_quick_end :: "(live, live, sim) endpoint" where
  "sim_quick_end = \<lparr>as_reader = file_reader 52,
     as_writer = file_writer 53 (\<lambda>e. (Ready (Ok ()), e))\<rparr>"

lemma sim_over_state: "state sim_over = Finished None"
  by (simp add: sim_over_def)

lemma sim_failed_polls:
  "poll_execute sim_platform (as_reader sim_slow_end) (as_writer sim_quick_end) (sim_failed, e)
    = Some (Val (Ready (Err (Os EPIPE)), sim_over, e))"
  "poll_execute sim_platform (as_reader sim_quick_end) (as_writer sim_slow_end)
      (sim_over, sim_start k (Suc n)) = Some (Val (Pending, sim_over, sim_start k n))"
  "poll_execute sim_platform (as_reader sim_quick_end) (as_writer sim_slow_end)
      (sim_over, sim_start k 0) = Some (Val (Ready (Ok ()), sim_over, sim_start k 0))"
  by (simp add: poll_execute_def drive_Break sim_failed_def sim_over_def sim_quick_end_def
      file_writer_def)
    (simp_all add: poll_over [OF sim_over_state] sim_slow_end_def file_writer_def sim_ready_def
      sim_start_def)

section \<open>A source that has ended\<close>

text \<open>A source that has ended, \<open>n\<close> of its bytes written, in a world that plays four scripts.\<close>

definition ended_io :: "pipe \<Rightarrow> mock_splicer \<Rightarrow> usize \<Rightarrow> mock_splicer splice_io" where
  "ended_io p s n =
     \<lparr>ctx = (new_ctx s (p\<lparr>pipe_fill_fd := None\<rparr>))\<lparr>bytes_read_field := 1000,
        bytes_written_field := n\<rparr>, state = Drain\<rparr>"

definition scripted_world ::
    "fd \<Rightarrow> fd \<Rightarrow> unit io_result poll list \<Rightarrow> try_io list \<Rightarrow> unit io_result poll list \<Rightarrow> try_io list
      \<Rightarrow> 'k \<Rightarrow> 'k mock_world" where
  "scripted_world d1 d2 rds reads wrs writes k =
     \<lparr>world_reader = script_try_io_read (script_read_ready (bare_mock d1) rds) reads,
      world_writer = script_try_io_write (script_write_ready (bare_mock d2) wrs) writes,
      world_kernel = k\<rparr>"

lemma scripted_world_plays:
  "rd_poll_ready (world_source d) (scripted_world d1 d2 (x # rds) reads wrs writes k)
    = (x, scripted_world d1 d2 rds reads wrs writes k)"
  "wr_poll_ready (world_dest d) (scripted_world d1 d2 rds reads (x # wrs) writes k)
    = (x, scripted_world d1 d2 rds reads wrs writes k)"
  "rd_try_io (world_source d) f c (scripted_world d1 d2 rds (CallInner # reads) wrs writes k)
    = f c (scripted_world d1 d2 rds reads wrs writes k)"
  "wr_try_io (world_dest d) f c (scripted_world d1 d2 rds reads wrs (CallInner # writes) k)
    = f c (scripted_world d1 d2 rds reads wrs writes k)"
  "wr_try_io (world_dest d) f c (scripted_world d1 d2 rds reads wrs (TryIo_WouldBlock # writes) k)
    = Val (Err (Simple WouldBlock), c, scripted_world d1 d2 rds reads wrs writes k)"
  by (simp_all add: scripted_world_def world_source_def world_dest_def bare_mock_def mock_fd_defs
      mock_script_defs)

lemma scripted_zero_write:
  "splice_out (pf_ops (mock_platform prof os)) (script_out mock_splicer_new [Ok 0]) d w off m e
    = Val (Ok 0, off, mock_splicer_new, e)"
  by (simp add: mock_platform_def mock_splicer_defs)

lemma ended_io_simps:
  "state (ended_io p s n) = Drain" "is_source_done (ctx (ended_io p s n))"
  "bytes_read (ctx (ended_io p s n)) = 1000" "bytes_written (ctx (ended_io p s n)) = n"
  "size_to_splice (ctx (ended_io p s n)) = ISIZE_MAX" "offset (ctx (ended_io p s n)) = Off_None"
  "drain_fd (pipe (ctx (ended_io p s n))) = drain_fd p" "splicer (ctx (ended_io p s n)) = s"
  "bytes_read (ctx (ended_io p s n)) < size_to_splice (ctx (ended_io p s n))"
  by (simp_all add: ended_io_def new_ctx_def rust_defs ISIZE_MAX_def)

end
