(* ===== verification/Bounds.thy ===== *)
theory Bounds
  imports Fd
begin

text \<open>
  The where-clauses of the constructors (\<open>src/splice/mod.rs\<close>) and entry points (\<open>src/lib.rs\<close>): which
  reader and writer types each can be called at.  They decide which side may carry an offset.
\<close>

definition new_bounds :: "fd_type \<Rightarrow> fd_type \<Rightarrow> bool" where
  "new_bounds R W \<longleftrightarrow> impl_is_not_file R \<and> impl_is_not_file W"

definition with_input_file_bounds :: "fd_type \<Rightarrow> fd_type \<Rightarrow> bool" where
  "with_input_file_bounds R W \<longleftrightarrow> impl_is_file R \<and> impl_is_not_file W"

definition with_output_file_bounds :: "fd_type \<Rightarrow> fd_type \<Rightarrow> bool" where
  "with_output_file_bounds R W \<longleftrightarrow> impl_is_not_file R \<and> impl_is_file W"

definition with_target_len_bounds :: "fd_type \<Rightarrow> fd_type \<Rightarrow> bool" where
  "with_target_len_bounds R W \<longleftrightarrow> impl_is_not_file R \<and> impl_is_not_file W"

definition copy_bounds :: "fd_type \<Rightarrow> fd_type \<Rightarrow> bool" where
  "copy_bounds R W \<longleftrightarrow>
     (impl_async_fd R \<and> impl_is_not_file R) \<and> (impl_async_fd W \<and> impl_is_not_file W)"

definition sendfile_bounds :: "fd_type \<Rightarrow> fd_type \<Rightarrow> bool" where
  "sendfile_bounds R W \<longleftrightarrow>
     (impl_async_fd R \<and> impl_is_file R) \<and> (impl_async_fd W \<and> impl_is_not_file W)"

definition copy_bidirectional_bounds :: "fd_type \<Rightarrow> fd_type \<Rightarrow> bool" where
  "copy_bidirectional_bounds A B \<longleftrightarrow>
     (impl_async_fd A \<and> impl_is_not_file A) \<and> (impl_async_fd B \<and> impl_is_not_file B)"

lemmas bounds_defs = new_bounds_def with_input_file_bounds_def with_output_file_bounds_def
  with_target_len_bounds_def copy_bounds_def sendfile_bounds_def copy_bidirectional_bounds_def

text \<open>
  Every pair of types fits exactly one constructor, except two files, which fit none; and every
  entry point can make its contexts, for both directions where there are two.
\<close>

lemma one_constructor:
  "of_bool (new_bounds R W) + of_bool (with_input_file_bounds R W) +
     of_bool (with_output_file_bounds R W) = (if impl_is_file R \<and> impl_is_file W then 0 else 1 :: nat)"
  using file_markers_exclusive [of R] file_markers_exclusive [of W]
  by (auto simp: bounds_defs)

lemma entry_points_typed:
  "copy_bounds R W \<Longrightarrow> new_bounds R W"
  "sendfile_bounds R W \<Longrightarrow> with_input_file_bounds R W"
  "copy_bidirectional_bounds R W \<Longrightarrow> new_bounds R W \<and> new_bounds W R"
  "with_target_len_bounds R W \<longleftrightarrow> new_bounds R W"
  by (auto simp: bounds_defs)

end
