(* ===== verification/Edge.thy ===== *)
theory Edge
  imports Entry
begin

text \<open>
  A machine on which a transfer sleeps for ever.  Its kernel keeps the contract of splice(2) and
  its runtime does what tokio documents: readiness is edge-triggered, and \<open>try_io\<close> clears it when
  the closure would block.  The closure of a fill attempt also would block when the \<open>pipe\<close> is full;
  then the readiness of a source with unread bytes is gone, and no new edge brings it back.
\<close>

section \<open>The machine\<close>

text \<open>
  One socket to read (10) with all its bytes arrived and its peer waiting for an answer, one to
  write (11) that takes everything, and a pipe (100, 101) of the capacity \<open>cap\<close>.
\<close>

record edge =
  edge_in :: "byte list"
  edge_pipe :: "byte list"
  edge_out :: "byte list"
  edge_ready :: bool

definition edge_fill :: "nat \<Rightarrow> usize \<Rightarrow> edge \<Rightarrow> (usize, errno) result \<times> edge" where
  "edge_fill cap m e =
     (let n = min (unat m) (min (length (edge_in e)) (cap - length (edge_pipe e)))
      in if n = 0 then (Err EAGAIN, e)
         else (Ok (of_nat n), e\<lparr>edge_in := drop n (edge_in e),
                 edge_pipe := edge_pipe e @ take n (edge_in e)\<rparr>))"

definition edge_drain :: "usize \<Rightarrow> edge \<Rightarrow> (usize, errno) result \<times> edge" where
  "edge_drain m e =
     (let n = min (unat m) (length (edge_pipe e))
      in if n = 0 then (Err EAGAIN, e)
         else (Ok (of_nat n), e\<lparr>edge_pipe := drop n (edge_pipe e),
                 edge_out := edge_out e @ take n (edge_pipe e)\<rparr>))"

definition edge_os :: "nat \<Rightarrow> edge os" where
  "edge_os cap = \<lparr>sys_pipe = (\<lambda>fl e. (Ok (100, 101), e\<lparr>edge_pipe := []\<rparr>)),
     sys_setpipe_size = (\<lambda>d n e. (Ok n, e)),
     sys_getpipe_size = (\<lambda>d e. (Ok 65536, e)),
     sys_splice = (\<lambda>a oa b ob m fl e.
       case (oa, ob) of
         (None, None) \<Rightarrow>
           (case (if a = 10 then edge_fill cap m e else edge_drain m e) of (res, e') \<Rightarrow> (res, 0, 0, e'))
       | _ \<Rightarrow> (Err EINVAL, unwrap_or oa 0, unwrap_or ob 0, e)),
     sys_close = (\<lambda>d e. e)\<rparr>"

definition edge_try_io :: "interest \<Rightarrow> (live, edge) attempt \<Rightarrow> (live, edge) attempt" where
  "edge_try_io i f c e =
     (case f c e of
        Val (Err er, c', e') \<Rightarrow>
          Val (Err er, c', if i = READABLE \<and> would_block er then e'\<lparr>edge_ready := False\<rparr> else e')
      | out \<Rightarrow> out)"

definition edge_stream :: "fd \<Rightarrow> (live, edge) tokio_stream" where
  "edge_stream d = \<lparr>tk_fd = d,
     tk_poll_read_ready = (\<lambda>e. (if edge_ready e then Ready (Ok ()) else Pending, e)),
     tk_poll_write_ready = (\<lambda>e. (Ready (Ok ()), e)), tk_try_io = edge_try_io,
     tk_poll_shutdown = (\<lambda>e. (Ready (Ok ()), e))\<rparr>"

abbreviation edge_src :: "(live, edge) reader" where "edge_src \<equiv> stream_reader (edge_stream 10)"

abbreviation edge_dst :: "(live, edge) writer" where "edge_dst \<equiv> stream_writer (edge_stream 11)"

definition edge_probe :: "edge probe" where
  "edge_probe = \<lparr>v_src = (\<lambda>_. edge_in), v_buf = edge_pipe, v_dst = (\<lambda>_. edge_out)\<rparr>"

definition edge_start :: "byte list \<Rightarrow> edge" where
  "edge_start xs = \<lparr>edge_in = xs, edge_pipe = [], edge_out = [], edge_ready = True\<rparr>"

section \<open>It keeps the contracts\<close>

lemma unat_of_nat_min:
  "unat (of_nat (min (unat (m :: usize)) k) :: usize) = min (unat m) k"
proof -
  have "min (unat m) k < 2 ^ LENGTH(64)"
    using unsigned_less [of m] by (rule min.strict_coboundedI1)
  then show ?thesis by (simp add: unat_of_nat take_bit_nat_eq_self)
qed

lemma edge_fill_moves:
  assumes "edge_fill cap m e = (res, e')"
  shows "moved_in edge_probe None e m res None e'"
proof -
  let ?k = "min (length (edge_in e)) (cap - length (edge_pipe e))"
  have le: "(of_nat (min (unat m) ?k) :: usize) \<le> m"
    by (simp add: word_le_nat_alt unat_of_nat_min)
  have zero: "(of_nat (min (unat m) ?k) :: usize) = 0 \<longleftrightarrow> min (unat m) ?k = 0"
    using unat_of_nat_min [of m ?k] by (metis unat_eq_zero)
  show ?thesis
    using assms unat_of_nat_min [of m ?k] le zero
    by (auto simp: edge_fill_def Let_def moved_in_def edge_probe_def split: if_splits)
qed

lemma edge_drain_moves:
  assumes "edge_drain m e = (res, e')"
  shows "moved_out edge_probe None e m res None e'"
proof -
  let ?k = "length (edge_pipe e)"
  have le: "(of_nat (min (unat m) ?k) :: usize) \<le> m"
    by (simp add: word_le_nat_alt unat_of_nat_min)
  have zero: "(of_nat (min (unat m) ?k) :: usize) = 0 \<longleftrightarrow> min (unat m) ?k = 0"
    using unat_of_nat_min [of m ?k] by (metis unat_eq_zero)
  show ?thesis
    using assms unat_of_nat_min [of m ?k] le zero
    by (auto simp: edge_drain_def Let_def moved_out_def edge_probe_def split: if_splits)
qed

lemma edge_kernel_moves: "kernel_moves (edge_os cap) edge_probe 10 11 101 100"
proof -
  have "case sys_splice (edge_os cap) 10 off 101 None m [SPLICE_NONBLOCK] e of
      (res, oi, _, e') \<Rightarrow> moved_in edge_probe off e m res (stored off oi) e'" for off m e
    using edge_fill_moves [of cap m e]
    by (cases off) (auto simp: edge_os_def moved_in_def split: prod.splits)
  moreover have "case sys_splice (edge_os cap) 100 None 11 off m [SPLICE_NONBLOCK] e of
      (res, _, oo, e') \<Rightarrow> moved_out edge_probe off e m res (stored off oo) e'" for off m e
    using edge_drain_moves [of m e]
    by (cases off) (auto simp: edge_os_def moved_out_def split: prod.splits)
  ultimately show ?thesis unfolding kernel_moves_def by (intro conjI allI)
qed

lemma edge_view:
  "same_view edge_probe e (e\<lparr>edge_ready := b\<rparr>)"
  by (simp add: same_view_def edge_probe_def)

lemma edge_ran: "ran (same_view edge_probe) f c e (edge_try_io i f c e)"
  unfolding ran_def edge_try_io_def
  by (rule exI [of _ e]) (auto split: comp.splits result.splits simp: edge_view)

lemma edge_kernel_ok: "kernel_ok (edge_os cap) edge_probe edge_src edge_dst 101 100"
proof -
  have "reader_ok (same_view edge_probe) edge_src" "writer_ok (same_view edge_probe) edge_dst"
    by (simp_all add: reader_ok_def writer_ok_def poll_keeps_def fd_impl_defs edge_stream_def
        edge_ran)
  moreover have "close_keeps (edge_os cap) edge_probe 101 100"
    by (simp add: close_keeps_def edge_os_def)
  moreover have "pipe_starts_empty (edge_os cap) edge_probe 101 100"
    by (auto simp: pipe_starts_empty_def edge_os_def edge_probe_def same_view_def)
  ultimately show ?thesis
    using edge_kernel_moves by (simp add: kernel_ok_def fd_impl_defs edge_stream_def)
qed

section \<open>The transfer sleeps\<close>

definition edge_pipe_made :: pipe where
  "edge_pipe_made = \<lparr>pipe_drain_fd = Some 100, pipe_fill_fd = Some 101,
     pipe_size_field = MAXIMUM_PIPE_SIZE\<rparr>"

lemma edge_pipe_new: "pipe_new (edge_os cap) (edge_start xs) = (Ok edge_pipe_made, edge_start xs)"
proof -
  have "nz_new (nz_get MAXIMUM_PIPE_SIZE) = Some MAXIMUM_PIPE_SIZE" by (rule nz_new_get)
  then show ?thesis
    by (simp add: pipe_new_def negotiate_size_def edge_os_def edge_start_def edge_pipe_made_def
        del: pipe_size_constants)
qed

text \<open>The transfer when \<open>r\<close> bytes have been read and \<open>w\<close> written.\<close>

definition edge_io :: "usize \<Rightarrow> usize \<Rightarrow> transfer_state \<Rightarrow> live splice_io" where
  "edge_io r w st = \<lparr>ctx = (new_ctx Live edge_pipe_made)\<lparr>bytes_read_field := r,
     bytes_written_field := w\<rparr>, state = st\<rparr>"

lemmas edge_run_defs = edge_io_def new_ctx_def edge_pipe_made_def fd_impl_defs edge_stream_def
  edge_try_io_def live_ops_def live_splice_in_def live_splice_out_def edge_os_def
  try_splice_from_source_def try_splice_to_dest_def rust_defs

lemma edge_k:
  assumes "0 < cap" "cap \<le> 1048576"
  shows "unat (of_nat cap :: usize) = cap" "(of_nat cap :: usize) \<noteq> 0"
    "ISIZE_MAX \<noteq> (of_nat cap :: usize)" "(of_nat cap :: usize) \<le> ISIZE_MAX"
proof -
  show u: "unat (of_nat cap :: usize) = cap"
    using assms(2) by (simp add: unat_of_nat take_bit_nat_eq_self)
  then show "(of_nat cap :: usize) \<noteq> 0" using assms(1) by auto
  have less: "(of_nat cap :: usize) < ISIZE_MAX"
    using u assms(2) by (simp add: word_less_nat_alt ISIZE_MAX_def)
  then show "ISIZE_MAX \<noteq> (of_nat cap :: usize)" "(of_nat cap :: usize) \<le> ISIZE_MAX"
    by auto
qed

text \<open>The four rounds of the first poll: the pipe is filled, found full, emptied, found empty.\<close>

lemma edge_round_fill:
  assumes "0 < cap" "cap < length xs" "cap \<le> 1048576"
  shows "poll_step (live_platform prof (edge_os cap)) edge_src edge_dst
      (edge_io 0 0 Fill, edge_start xs)
    = Continue (edge_io (of_nat cap) 0 Fill, \<lparr>edge_in = drop cap xs, edge_pipe = take cap xs,
        edge_out = [], edge_ready = True\<rparr>)"
proof -
  have room: "min (unat ISIZE_MAX) (min (length xs) cap) = cap"
    using assms by (simp add: ISIZE_MAX_def)
  have "(0 :: usize) < of_nat cap" "(ISIZE_MAX :: usize) \<noteq> 0"
    using edge_k(2) [OF assms(1,3)] by (simp_all add: word_neq_0_conv ISIZE_MAX_def)
  then show ?thesis
    using assms room edge_k [OF assms(1,3)]
    by (simp add: edge_run_defs edge_fill_def edge_start_def Let_def usize_add_def after_fill_def)
qed

lemma edge_round_full:
  assumes "0 < cap" "cap < length xs" "cap \<le> 1048576"
  shows "poll_step (live_platform prof (edge_os cap)) edge_src edge_dst
      (edge_io (of_nat cap) 0 Fill, \<lparr>edge_in = ys, edge_pipe = take cap xs, edge_out = [],
         edge_ready = True\<rparr>)
    = Continue (edge_io (of_nat cap) 0 Drain, \<lparr>edge_in = ys, edge_pipe = take cap xs,
        edge_out = [], edge_ready = False\<rparr>)"
proof -
  have "(0 :: usize) < of_nat cap" using edge_k(2) [OF assms(1,3)] by (simp add: word_neq_0_conv)
  then show ?thesis
    using assms edge_k [OF assms(1,3)]
    by (simp add: edge_run_defs edge_fill_def Let_def after_fill_def)
qed

lemma edge_round_drain:
  assumes "0 < cap" "cap < length xs" "cap \<le> 1048576"
  shows "poll_step (live_platform prof (edge_os cap)) edge_src edge_dst
      (edge_io (of_nat cap) 0 Drain, \<lparr>edge_in = ys, edge_pipe = take cap xs, edge_out = [],
         edge_ready = False\<rparr>)
    = Continue (edge_io (of_nat cap) (of_nat cap) Drain, \<lparr>edge_in = ys, edge_pipe = [],
        edge_out = take cap xs, edge_ready = False\<rparr>)"
proof -
  have "(0 :: usize) < of_nat cap" using edge_k(2) [OF assms(1,3)] by (simp add: word_neq_0_conv)
  then show ?thesis
    using assms edge_k [OF assms(1,3)]
    by (simp add: edge_run_defs edge_drain_def Let_def usize_add_def after_drain_def)
qed

lemma edge_round_empty:
  "poll_step (live_platform prof (edge_os cap)) edge_src edge_dst (edge_io k k Drain, e)
    = Continue (edge_io k k Fill, e)"
  by (simp add: edge_run_defs after_drain_def)

lemma edge_asleep:
  assumes "\<not> edge_ready e"
  shows "poll_execute (live_platform prof (edge_os cap)) edge_src edge_dst (edge_io r w Fill, e)
    = Some (Val (Pending, edge_io r w Fill, e))"
  using assms
  by (simp add: poll_execute_def drive_Break edge_io_def fd_impl_defs edge_stream_def)

lemma edge_first_poll:
  assumes "0 < cap" "cap < length xs" "cap \<le> 1048576"
  shows "poll_execute (live_platform prof (edge_os cap)) edge_src edge_dst
      (edge_io 0 0 Fill, edge_start xs)
    = Some (Val (Pending, edge_io (of_nat cap) (of_nat cap) Fill, \<lparr>edge_in = drop cap xs,
        edge_pipe = [], edge_out = take cap xs, edge_ready = False\<rparr>))"
  unfolding poll_execute_def
  by (simp only: drive_Continue [where step = "poll_step _ _ _", OF edge_round_fill [OF assms]]
      drive_Continue [where step = "poll_step _ _ _", OF edge_round_full [OF assms]]
      drive_Continue [where step = "poll_step _ _ _", OF edge_round_drain [OF assms]]
      drive_Continue [where step = "poll_step _ _ _", OF edge_round_empty])
    (simp only: edge_asleep [unfolded poll_execute_def] edge.simps not_False_eq_True)

lemma edge_copy_sleeps:
  assumes "0 < cap" "cap < length xs" "cap \<le> 1048576"
  shows "copy prof (edge_os cap) edge_src edge_dst id (edge_start xs) = None"
proof -
  let ?poll = "poll_execute (live_platform prof (edge_os cap)) edge_src edge_dst"
  let ?park = "\<lambda>(io :: live splice_io, e :: edge). (io, id e)"
  let ?k = "of_nat cap :: usize"
  let ?e = "\<lparr>edge_in = drop cap xs, edge_pipe = [], edge_out = take cap xs, edge_ready = False\<rparr>"
  have "await ?poll ?park (edge_io 0 0 Fill, edge_start xs)
      = await ?poll ?park (?park (edge_io ?k ?k Fill, ?e))"
    by (rule await_Pending) (rule edge_first_poll [OF assms])
  also have "\<dots> = None"
  proof (simp only: prod.case id_apply, rule await_stuck)
    show "?poll (edge_io ?k ?k Fill, ?e) = Some (Val (Pending, edge_io ?k ?k Fill, ?e))"
      by (rule edge_asleep) simp
  qed simp
  finally show ?thesis
    by (simp add: copy_def run_from_def ctx_new_def ctx_new_inner_def edge_pipe_new execute_def
        io_from_def edge_io_def new_ctx_def)
qed

end
