(* ===== verification/Spec2Isabelle.thy ===== *)
theory Spec2Isabelle
  imports Sim Bounds Edge "HOL-Library.Multiset"
begin

text \<open>
  A verification development for \<open>splicer\<close>, a crate for zero-copy transfers with splice(2) on Linux
  under the tokio runtime (Rust; sources under \<open>src/src/\<close>).

  THE PROGRAM.  A transfer moves bytes from a source descriptor into a pipe and from the pipe to a
  destination descriptor, without copying them to user space.  \<open>Pipe\<close> owns the two ends of a pipe;
  \<open>SpliceCtx\<close> adds the byte counters, the target length and a file offset, and makes single splice
  attempts; the \<open>Splicer\<close> trait is the system call (\<open>Live\<close>) or a script (\<open>MockSplicer\<close>);
  \<open>AsyncReadFd\<close> and \<open>AsyncWriteFd\<close> are readiness and \<open>try_io\<close> for sockets and files; \<open>SpliceIo\<close> is the
  state machine fill, drain, finished that a runtime polls; \<open>SpliceBidiIo\<close> polls two of them;
  \<open>copy\<close>, \<open>sendfile\<close> and \<open>copy_bidirectional\<close> are the entry points.  The example
  \<open>examples/proxy.rs\<close> accepts connections and forwards each through a \<open>SpliceBidiIo\<close>.

  THE THEORIES, in the order of the code.
   Prelude, Rust_Std: words for \<open>usize\<close> and \<open>u64\<close>; \<open>Result\<close>, \<open>Poll\<close>, \<open>io::Error\<close>, \<open>NonZeroUsize\<close>,
     panics as values (\<open>comp\<close>), arithmetic with overflow checks (\<open>Dev\<close>) or wrapping (\<open>Release\<close>).
   Machine: \<open>loop\<close> and \<open>await\<close> as one partial function each (\<open>None\<close> is a loop that never ends), with
     the locales \<open>loop_inv\<close> (an invariant), \<open>loop_total\<close> (a well-founded descent), \<open>loop_sim\<close> and
     \<open>future_sim\<close> (a loop or future that carries more than another), \<open>pause_inv\<close> and \<open>future_inv\<close>
     (what holds wherever an await is parked, and at its end).
   Pipe (\<open>pipe.rs\<close>), Offset (\<open>splice/util.rs\<close>), Splicer (\<open>splice/exec.rs\<close>), Mock_Splicer
     (\<open>splice/mock.rs\<close>), Splice_Ctx (\<open>splice/mod.rs\<close>), Fd (\<open>io/fd.rs\<close>), Splice_Io (\<open>io/mod.rs\<close>,
     \<open>transfer_report.rs\<close>), Mock_Fd (\<open>io/mock.rs\<close> and the unit tests of \<open>io/mod.rs\<close>), Entry (\<open>copy\<close>,
     \<open>sendfile\<close> of \<open>lib.rs\<close>), Bounds (the where-clauses of constructors and entry points),
     Splice_Bidi (\<open>SpliceBidiIo\<close> and \<open>copy_bidirectional\<close>), Proxy, Proxy_Main and
     Proxy_Tasks (\<open>examples/proxy.rs\<close>; Proxy_Tasks poll by poll), Debug_Fmt (the impls of \<open>Debug\<close>, on the numerals of Decimal), Tracing (the
     macros of \<open>lib.rs\<close> and the functions of \<open>io/mod.rs\<close> with the calls they make): one record,
     datatype or function per struct, enum or operation.  A function that takes \<open>&mut self\<close> returns
     the new value; dropping an \<open>OwnedFd\<close> is a call of \<open>sys_close\<close>; a field whose accessor has its
     name has the suffix \<open>_field\<close>.
   Channel: the contract of splice(2), pipe(2), fcntl(2) and close(2) as seen through a \<open>probe\<close> (the
     bytes a source has still to give, those in the pipe, those a destination has received).
   Ctx_Inv, Attempt_Cases, Ctx_Facts: the invariant \<open>ctx_inv\<close> of a context and what attempts do.
   Poll_Correct, Execute_Correct: one poll and a whole transfer.
   Frame, Fd_Account: facts a transfer leaves alone, and descriptor accounting.  Calm: a relation all
     operations of a transfer respect, a poll respects (one transfer beside another).
   Profile: builds with and without overflow checks agree.
   Parking, Bidi_Parking: on which side a pending transfer waits, one or both directions.
   Cancel: dropping a transfer while it waits.
   Trace_Facts: what the log of a transfer tells.
   Stream_Spec, Exec_Spec: the abstract transfer, and the refinement by a poll and by a transfer.
   Bidi_Correct, Bidi_Entry: both directions.  Health: surroundings in which nothing fails, and that
     transfers succeed in them.  Bidi_Spec: their refinement of two abstract transfers.
   Edge: a machine that keeps every contract and on which a transfer sleeps for ever.
   Sim: a small kernel and runtime on which the assumptions hold, used by the witnesses only.

  WHAT IS ASSUMED.  The kernel (through the rustix package) and the runtime (tokio) are not in the
  repository; they are parameters.  The kernel is a record \<open>os\<close> of functions over the state \<open>'e\<close> of
  the surroundings.  \<open>kernel_moves\<close>, \<open>close_keeps\<close>, \<open>pipe_starts_empty\<close>, \<open>pipe_elsewhere\<close> and
  \<open>fd_laws\<close> state what its manual pages say: at most the requested bytes move, in order; zero is
  returned only at the end of the input; a failing call moves nothing; a new pipe is empty and its
  ends are fresh; no other call opens or closes anything.  \<open>network_laws\<close> says of accept and connect
  that they open the one socket they return.  \<open>reader_ok\<close> and \<open>writer_ok\<close> say that
  readiness, shutdown and the bookkeeping of \<open>try_io\<close> move no bytes and that \<open>try_io\<close> passes on the
  result of the closure.  \<open>yields\<close> says that attempts which would block on an idle transfer cannot go
  on for ever within one poll (tokio's cooperative budget); it speaks only of states whose counters
  agree with the pipe (\<open>in_step\<close>), in which a file, which is always ready, does not block for nothing
  even if pipes are bounded.  \<open>patient\<close> says that the surroundings answer
  \<open>Pending\<close> finitely often; the natural numbers they are stated with bound the loops and need not
  be known to the code.  \<open>patient\<close> is the one assumption the code itself can break: Edge shows how
  (C31).  \<open>healthy\<close> and \<open>nothing_fails\<close> (theory Health), used where a theorem says that a transfer
  succeeds, allow every call to fail on a descriptor that is closed or a socket that was shut down,
  and say that from here on no peer resets and nothing runs out.  No fuel is used: the loops of the code are partial functions, and the
  theorems that a call returns say that its value is \<open>Some\<close>.

  WHAT IS SHOWN.  Delivery (C1 to C5): calls return, do not panic, and their reports are true; where
  nothing fails they succeed and deliver everything (C3, C17).
  Refinement and conservation of the stream (C6, C7).  No descriptor is leaked, on success, on every
  error and wherever a transfer is cancelled (C8 to C11, C20, C27), and a cancelled transfer has
  delivered what it counts (C22).  Exact behaviour of the attempts (C12, C13, C15), the same in
  every build (C14), of ranges (C19), of a pipe that is resized (C23), of the predicates on what is
  queued (C28).  C24 to C26 show where the code falls short: an error of one direction that
  \<open>SpliceBidiIo\<close> loses, and two panics after a source that ends before the target, behind a write that
  moves nothing and behind a writer that blocks on an empty pipe.  C16: the log of a transfer is a path
  of the state machine whose bytes are the bytes of the report.
  C18 and C29: a pending transfer waits on the side that can make it go on, in both directions at
  once and in one.  C30 and C33: transfers into a range of a file and of a target length.  C31: with
  a full pipe a transfer can sleep for ever.  C32: a whole transfer refines the abstract one, and
  C21: one in both directions refines two of them.  C34 to C39: the proxy delivers, counts without
  overflow, leaks nothing in whatever order its loop and its tasks take turns (C38), spawns a task per
  connection until an accept fails for good or Ctrl-C comes (C36, C37), and reads its command line.
  C40: the marker traits decide which side has an
  offset.

  WHAT IS NOT MODELLED.  The attribute \<open>tracing::instrument\<close>, a procedural macro of the tracing
  package that rewrites the function it stands on, and what that package does with the calls it gets.
  The derived \<open>Debug\<close> of the test-only mocks.  The marker types \<open>PhantomData\<close> carry nothing.  Wakers
  are represented by the assumption that a parked task is polled again.  Of the proxy, the clock and
  the texts of its lines on the console are left out, and a task that panics is not continued; the
  socket of a \<open>connect\<close> that is pending belongs to tokio, so connecting is one step.  The runtime's
  scheduler is represented by all the orders it could choose.  The integration tests and the benchmark
  harness are programs around the crate.  The last section holds facts that are not among the
  numbered ones: the frame of an attempt, the size of a new pipe, the crate's two unit tests, all command lines, an accept loop without end and a range
  \<open>sendfile\<close> refuses.
\<close>
text \<open>
  C1.  On a kernel and a runtime that keep their contracts and answer \<open>Pending\<close> finitely often,
  \<open>copy\<close> returns, never panics and never runs forever, and what it reports is what happened:
  the destination has received exactly the first \<open>tx\<close> bytes of the source, in order; \<open>rx\<close> is
  zero; and without an error everything up to the end of the source (or to \<open>isize::MAX\<close> bytes)
  has been delivered.
\<close>

theorem copy_delivers:
  assumes "kernel_ok os P r w pw pr"
    and "runtime_ok (live_platform prof os) P r w pw pr park budget patience"
    and "pipe_new os e = (Ok p, e1)" and "drain_fd p = Some pr" and "fill_fd p = Some pw"
  shows "\<exists>rep e'. copy prof os r w park e = Some (Val (Ok rep, e')) \<and>
    v_dst P None e' = v_dst P None e @ take (unat (tx rep)) (v_src P None e) \<and>
    unat (tx rep) \<le> length (v_src P None e) \<and> rx rep = 0 \<and>
    (report_error rep = None \<longrightarrow> unat (tx rep) = min (2 ^ 63 - 1) (length (v_src P None e)))"
  using copy_outcome [OF assms] by (auto simp: delivered_def Let_def ISIZE_MAX_def)

theorem copy_delivers_witness:
  "\<exists>rep e'. copy Dev sim_os sim_src sim_dst id (sim_start 2 3) = Some (Val (Ok rep, e')) \<and>
    v_dst sim_view None e' = take (unat (tx rep)) sim_letter \<and>
    unat (tx rep) \<le> 6 \<and> rx rep = 0 \<and>
    (report_error rep = None \<longrightarrow> unat (tx rep) = 6)"
  using copy_delivers [OF sim_sockets_ok sim_runtime(1) sim_start_pipe [of 2 3]
      sim_pipe_made_ends, where prof = Dev]
  by simp

text \<open>
  C2.  \<open>sendfile\<close> of a valid range of a file with content \<open>F\<close> returns, and delivers a prefix of
  exactly that range, counted by \<open>tx\<close>; without an error it delivers the whole range.
\<close>

theorem sendfile_delivers_range:
  fixes F :: "byte list"
  assumes "kernel_ok os P r w pw pr"
    and "runtime_ok (live_platform prof os) P r w pw pr park budget patience"
    and "pipe_new os e = (Ok p, e1)" and "drain_fd p = Some pr" and "fill_fd p = Some pw"
    and content: "\<And>x. v_src P (Some x) e = drop (unat x) F" "unat f_len \<le> length F"
    and range: "unwrap_or s 0 \<le> unwrap_or t f_len" "unwrap_or t f_len \<le> f_len"
  shows "\<exists>rep e'. sendfile prof os r w park f_len s t e = Some (Val (Ok rep, e')) \<and>
    v_dst P None e' = v_dst P None e @ take (unat (tx rep)) (drop (unat (unwrap_or s 0)) F) \<and>
    tx rep \<le> unwrap_or t f_len - unwrap_or s 0 \<and>
    (report_error rep = None \<longrightarrow> tx rep = unwrap_or t f_len - unwrap_or s 0)"
proof -
  let ?n = "unwrap_or t f_len - unwrap_or s 0"
  have "calc_size_to_splice f_len s t = Ok ?n"
    using range by (auto simp: calc_size_to_splice_def Let_def)
  from sendfile_outcome [OF assms(1-5) this] obtain rep e' where
    run: "sendfile prof os r w park f_len s t e = Some (Val (Ok rep, e'))"
    and del: "delivered P (Off_In (unwrap_or s 0)) ?n (drop (unat (unwrap_or s 0)) F)
      (v_dst P None e) rep e'"
    by (auto simp: content(1))
  have "unat (unwrap_or s 0) + unat ?n \<le> length F"
    using range content(2) by (simp add: word_le_nat_alt unat_sub)
  from delivered_range(2) [OF del _ this] run del show ?thesis
    by (auto simp: delivered_def Let_def word_le_nat_alt)
qed

theorem sendfile_delivers_range_witness:
  "\<exists>rep e'. sendfile Release sim_os (file_reader 50) sim_dst id 7 (Some 2) (Some 6) (sim_start 1 2)
      = Some (Val (Ok rep, e')) \<and>
    v_dst (sim_probe 50 11 100) None e' = take (unat (tx rep)) (drop 2 sim_text) \<and>
    tx rep \<le> 4 \<and> (report_error rep = None \<longrightarrow> tx rep = 4)"
  using sendfile_delivers_range [OF sim_file_ok sim_runtime(2) sim_start_pipe [of 1 2]
      sim_pipe_made_ends, where prof = Release and F = sim_text and f_len = 7 and s = "Some 2"
      and t = "Some 6"]
  by simp

text \<open>
  C3.  \<open>copy_bidirectional\<close> returns, and each direction has delivered exactly a prefix of its
  source, counted by \<open>tx\<close> and \<open>rx\<close>.  Where nothing fails (the sockets are open, no peer resets, and
  only a call on a closed descriptor or on a socket already shut down could fail) there is no error
  and both directions have delivered everything.
\<close>

theorem copy_bidirectional_delivers:
  fixes sl sr :: "(live, live, 'e) endpoint"
  assumes "bidi_runtime (live_platform prof os) (live_platform prof os)
      (lane_of P1 pw1 pr1 e) (lane_of P2 pw2 pr2 e) sl sr park budget1 budget2 patience"
    and "pipe_new os e = (Ok p1, e1)" "drain_fd p1 = Some pr1" "fill_fd p1 = Some pw1"
    and "pipe_new os e1 = (Ok p2, e2)" "drain_fd p2 = Some pr2" "fill_fd p2 = Some pw2"
    and "{pr1, pw1} \<inter> {pr2, pw2} = {}"
    and "pipe_starts_empty os P1 pw1 pr1" "pipe_starts_empty os P2 pw2 pr2"
    and "pipe_elsewhere os P1 pw1 pr1" "pipe_elsewhere os P2 pw2 pr2"
  shows "\<exists>rep e'. copy_bidirectional prof os sl sr park e = Some (Val (Ok rep, e')) \<and>
    v_dst P1 None e' = v_dst P1 None e @ take (unat (tx rep)) (v_src P1 None e) \<and>
    v_dst P2 None e' = v_dst P2 None e @ take (unat (rx rep)) (v_src P2 None e) \<and>
    unat (tx rep) \<le> length (v_src P1 None e) \<and> unat (rx rep) \<le> length (v_src P2 None e) \<and>
    (nothing_fails (live_platform prof os) (lane_of P1 pw1 pr1 e) (lane_of P2 pw2 pr2 e) sl sr park
       e e2 \<longrightarrow>
     report_error rep = None \<and>
     unat (tx rep) = min (2 ^ 63 - 1) (length (v_src P1 None e)) \<and>
     unat (rx rep) = min (2 ^ 63 - 1) (length (v_src P2 None e)))"
proof -
  from copy_bidirectional_outcome [OF assms] obtain rep e' where
    run: "copy_bidirectional prof os sl sr park e = Some (Val (Ok rep, e'))"
    and sent: "sent (lane_of P1 pw1 pr1 e) (tx rep) e'" "sent (lane_of P2 pw2 pr2 e) (rx rep) e'"
    by blast
  have "bidi_env (live_platform prof os) (live_platform prof os) (lane_of P1 pw1 pr1 e)
      (lane_of P2 pw2 pr2 e) sl sr" "park_keeps P1 park" "park_keeps P2 park"
    using assms(1) by (simp_all add: bidi_runtime_def)
  from copy_bidirectional_complete [OF this assms(2-12) _ run] run sent show ?thesis
    by (intro exI [of _ rep] exI [of _ e']) (simp add: sent_def ISIZE_MAX_def)
qed

theorem copy_bidirectional_delivers_witness:
  "\<exists>rep e'. copy_bidirectional Dev sim_os (sim_endpoint 10) (sim_endpoint 11) id (sim_start 3 4)
      = Some (Val (Ok rep, e')) \<and>
    v_dst (sim_probe 10 11 100) None e' = sim_letter \<and>
    v_dst (sim_probe 11 10 102) None e' = sim_answer \<and>
    report_error rep = None \<and> unat (tx rep) = 6 \<and> unat (rx rep) = 5"
proof -
  obtain e2 where new2: "pipe_new sim_os (sim_started 3 4) = (Ok sim_pipe_made2, e2)"
    using sim_start_pipe2 by blast
  then have "sim_shut e2 = []" by (auto simp: sim_pipe_new sim_started_def sim_start_def)
  then have "nothing_fails (live_platform Dev sim_os)
      (lane_of (sim_probe 10 11 100) 101 100 (sim_start 3 4))
      (lane_of (sim_probe 11 10 102) 103 102 (sim_start 3 4)) (sim_endpoint 10) (sim_endpoint 11) id
      (sim_start 3 4) e2"
    by (intro sim_nothing_fails) (simp_all add: sim_start_fds)
  then show ?thesis
    using copy_bidirectional_delivers [OF sim_bidi_runtime [where e = "sim_start 3 4" and prof = Dev]
        sim_start_pipe sim_pipe_made_ends new2 sim_pipe_made2_ends _ sim_pipe_starts_empty
        sim_pipe_starts_empty sim_pipe_elsewhere sim_pipe_elsewhere]
    by auto
qed

text \<open>
  C4.  One poll of a transfer, with any \<open>Splicer\<close> that moves bytes as splice(2) does: the loop
  ends, does not panic, and the result means what it says.  Pending keeps the invariant; success
  means the transfer is finished; an error keeps the account of the bytes.
\<close>

theorem poll_execute_correct:
  assumes "transfer_env pf P r w pw pr" and "io_inv P pw pr off0 T S D io e"
    and "yields pf P r w pw pr budget"
  shows "\<exists>x io' e'. poll_execute pf r w (io, e) = Some (Val (x, io', e')) \<and>
    ctx_inv P pw pr off0 T S D (ctx io') e' \<and>
    (x = Pending \<longrightarrow> state_ok io') \<and>
    (x = Ready (Ok ()) \<longrightarrow> is_finished (ctx io') \<and> state io' = Finished None)"
proof -
  from poll_execute_total [OF assms] obtain out where
    run: "poll_execute pf r w (io, e) = Some out" and post: "poll_post P pw pr off0 T S D out"
    by blast
  from post obtain x io' e' where out: "out = Val (x, io', e')" by (cases out) auto
  from post out have "ctx_inv P pw pr off0 T S D (ctx io') e' \<and> (x = Pending \<longrightarrow> state_ok io') \<and>
      (x = Ready (Ok ()) \<longrightarrow> is_finished (ctx io') \<and> state io' = Finished None)"
    by (cases "(P, pw, pr, off0, T, S, D, out)" rule: poll_post.cases)
      (auto simp: io_inv_def state_ok_def)
  with run out show ?thesis by blast
qed

theorem poll_execute_correct_witness:
  "\<exists>x io' e'. poll_execute sim_platform sim_src sim_dst (sim_io, sim_started 1 1)
      = Some (Val (x, io', e')) \<and>
    ctx_inv sim_view 101 100 Off_None ISIZE_MAX sim_letter [] (ctx io') e' \<and>
    (x = Pending \<longrightarrow> state_ok io') \<and>
    (x = Ready (Ok ()) \<longrightarrow> is_finished (ctx io') \<and> state io' = Finished None)"
  by (rule poll_execute_correct [OF sim_env sim_io_inv sim_runtimeD(2)])

text \<open>
  C5.  \<open>execute\<close> returns with a report that is true, for any starting point of the invariant (a
  partial transfer, a file offset on either side, a target length).
\<close>

theorem execute_delivers:
  assumes "transfer_env pf P r w pw pr" and "io_inv P pw pr off0 T S D io e"
    and "park_keeps P park" and "yields pf P r w pw pr budget" and "patient pf r w patience"
    and "park_saves patience park"
  shows "\<exists>rep e'. execute pf r w park io e = Some (Val (rep, e')) \<and>
    unat (tx rep) \<le> min (unat T) (length S) \<and> rx rep = 0 \<and>
    v_dst P (advanced (off_out off0) (tx rep)) e' = D @ take (unat (tx rep)) S \<and>
    (report_error rep = None \<longrightarrow> unat (tx rep) = min (unat T) (length S))"
  using execute_returns [OF assms] by (auto simp: delivered_def Let_def)

theorem execute_delivers_witness:
  "\<exists>rep e'. execute sim_platform sim_src sim_dst id sim_io (sim_started 2 5) = Some (Val (rep, e')) \<and>
    unat (tx rep) \<le> min (unat ISIZE_MAX) (length sim_letter) \<and> rx rep = 0 \<and>
    v_dst sim_view (advanced (off_out Off_None) (tx rep)) e' = [] @ take (unat (tx rep)) sim_letter \<and>
    (report_error rep = None \<longrightarrow> unat (tx rep) = min (unat ISIZE_MAX) (length sim_letter))"
  by (rule execute_delivers [OF sim_env sim_io_inv sim_runtimeD])

text \<open>
  C6.  The code refines the abstract transfer of theory Stream_Spec: whatever a poll does between
  two waits is a run of that machine, from the view of the state before to the view after.
\<close>

theorem poll_refines_stream:
  assumes "transfer_env pf P r w pw pr" and "io_inv P pw pr off0 T S D io e"
    and "poll_execute pf r w (io, e) = Some (Val (Pending, io', e'))"
  shows "astep\<^sup>*\<^sup>* (aview_of P io e) (aview_of P io' e')"
  using poll_refines [OF assms] by simp

theorem poll_refines_stream_witness:
  "\<exists>io' e'. poll_execute sim_platform sim_src sim_dst (sim_io, sim_started 0 1)
      = Some (Val (Pending, io', e')) \<and>
    astep\<^sup>*\<^sup>* (aview_of sim_view sim_io (sim_started 0 1)) (aview_of sim_view io' e')"
proof -
  have "poll_execute sim_platform sim_src sim_dst (sim_io, sim_started 0 1)
    = Some (Val (Pending, sim_io, (sim_started 0 1)\<lparr>sim_waits := 0\<rparr>))"
    unfolding poll_execute_def
    by (subst drive.simps)
      (simp add: sim_io_def io_from_def fd_impl_defs sim_stream_def sim_ready_def sim_started_def
        sim_start_def)
  with poll_refines_stream [OF sim_env sim_io_inv this] show ?thesis by blast
qed

text \<open>
  C7.  No poll, whether it waits, succeeds or fails, cuts, duplicates or reorders the stream: what
  is delivered, queued in the pipe and still to come is the same sequence of bytes before and
  after, and what had been delivered stays delivered.
\<close>

theorem poll_conserves_stream:
  assumes "transfer_env pf P r w pw pr" and "io_inv P pw pr off0 T S D io e"
    and "poll_execute pf r w (io, e) = Some (Val (x, io', e'))"
  shows "whole (aview_of P io' e') = whole (aview_of P io e) \<and>
    (\<exists>ys. dst_of P (ctx io') e' = dst_of P (ctx io) e @ ys)"
proof -
  from poll_refines [OF assms] obtain b where run: "astep\<^sup>*\<^sup>* (aview_of P io e) b"
    and b: "a_src (aview_of P io' e') = a_src b" "a_buf (aview_of P io' e') = a_buf b"
      "a_dst (aview_of P io' e') = a_dst b"
    by (cases "(P, aview_of P io e, Val (x, io', e'))" rule: left_in.cases) auto
  have "dst_of P (ctx io') e' = a_dst (aview_of P io' e')" "dst_of P (ctx io) e = a_dst (aview_of P io e)"
    by (simp_all add: aview_of_def)
  then show ?thesis
    using run_conserves [OF run] run_grows [OF run] b by (simp add: whole_def)
qed

theorem poll_conserves_stream_witness:
  "\<exists>x io' e'. poll_execute sim_platform sim_src sim_dst (sim_io, sim_started 2 0)
      = Some (Val (x, io', e')) \<and>
    whole (aview_of sim_view io' e') = sim_letter"
proof -
  obtain out where run: "poll_execute sim_platform sim_src sim_dst (sim_io, sim_started 2 0) = Some out"
    and post: "poll_post sim_view 101 100 Off_None ISIZE_MAX sim_letter [] out"
    using poll_execute_total [OF sim_env sim_io_inv sim_runtimeD(2)] by blast
  from post obtain x io' e' where out: "out = Val (x, io', e')" by (cases out) auto
  have "whole (aview_of sim_view sim_io (sim_started 2 0)) = sim_letter"
    by (simp add: whole_def aview_of_def src_of_def dst_of_def sim_io_def io_from_def new_ctx_def)
  with poll_conserves_stream [OF sim_env sim_io_inv run [unfolded out]] run out show ?thesis by auto
qed

text \<open>
  C8.  \<open>copy\<close> leaks no descriptor: when it returns, with a report or an error, exactly the
  descriptors that were open before are open.
\<close>

theorem copy_leaks_nothing:
  assumes "accounts (live_platform prof os) r w park opened"
    and "copy prof os r w park e = Some (Val (res, e'))"
  shows "opened e' = opened e"
  by (rule copy_accounted [OF assms])

theorem copy_leaks_nothing_witness:
  "\<exists>res e'. copy Dev sim_os sim_src sim_dst id (sim_start 1 1) = Some (Val (res, e')) \<and>
    sim_fds e' = sim_base"
proof -
  obtain rep e' where run: "copy Dev sim_os sim_src sim_dst id (sim_start 1 1) = Some (Val (Ok rep, e'))"
    using copy_outcome [OF sim_sockets_ok sim_runtime(1) sim_start_pipe sim_pipe_made_ends] by blast
  from copy_leaks_nothing [OF sim_accounts(1) run] have "sim_fds e' = sim_fds (sim_start 1 1)" .
  with run show ?thesis by (simp add: sim_start_fds)
qed

text \<open>C9.  Neither does \<open>sendfile\<close>, whether or not the range is valid.\<close>

theorem sendfile_leaks_nothing:
  assumes "accounts (live_platform prof os) r w park opened"
    and "sendfile prof os r w park f_len s t e = Some (Val (res, e'))"
  shows "opened e' = opened e"
  by (rule sendfile_accounted [OF assms])

theorem sendfile_leaks_nothing_witness:
  "\<exists>res e'. sendfile Dev sim_os (file_reader 50) sim_dst id 7 (Some 2) (Some 6) (sim_start 1 1)
      = Some (Val (res, e')) \<and> sim_fds e' = sim_base"
proof -
  have range: "calc_size_to_splice 7 (Some 2) (Some 6) = Ok 4"
    by (simp add: calc_size_to_splice_def)
  obtain rep e' where run: "sendfile Dev sim_os (file_reader 50) sim_dst id 7 (Some 2) (Some 6)
      (sim_start 1 1) = Some (Val (Ok rep, e'))"
    using sendfile_outcome [OF sim_file_ok sim_runtime(2) sim_start_pipe sim_pipe_made_ends range]
    by blast
  from sendfile_leaks_nothing [OF sim_accounts(2) run] have "sim_fds e' = sim_fds (sim_start 1 1)" .
  with run show ?thesis by (simp add: sim_start_fds)
qed

text \<open>
  C10.  Neither does \<open>copy_bidirectional\<close>, also when the second of its two pipes cannot be made.
\<close>

theorem copy_bidirectional_leaks_nothing:
  assumes "accounts (live_platform prof os) (as_reader sl) (as_writer sr) park opened"
    and "accounts (live_platform prof os) (as_reader sr) (as_writer sl) park opened"
    and "copy_bidirectional prof os sl sr park e = Some (Val (res, e'))"
  shows "opened e' = opened e"
  by (rule copy_bidirectional_accounted [OF assms])

theorem copy_bidirectional_leaks_nothing_witness:
  "\<exists>res e'. copy_bidirectional Dev sim_os (sim_endpoint 10) (sim_endpoint 11) id (sim_start 1 1)
      = Some (Val (res, e')) \<and> sim_fds e' = sim_base"
proof -
  obtain e2 where new2: "pipe_new sim_os (sim_started 1 1) = (Ok sim_pipe_made2, e2)"
    using sim_start_pipe2 by blast
  obtain rep e' where run: "copy_bidirectional Dev sim_os (sim_endpoint 10) (sim_endpoint 11) id
      (sim_start 1 1) = Some (Val (Ok rep, e'))"
    using copy_bidirectional_outcome [OF sim_bidi_runtime sim_start_pipe sim_pipe_made_ends new2
        sim_pipe_made2_ends _ sim_pipe_starts_empty sim_pipe_starts_empty sim_pipe_elsewhere
        sim_pipe_elsewhere, where prof = Dev]
    by auto
  have acc: "accounts (live_platform Dev sim_os) (as_reader (sim_endpoint a))
      (as_writer (sim_endpoint b)) id sim_fds" for a b
    by (simp add: sim_endpoint_def sim_accounts)
  from copy_bidirectional_leaks_nothing [OF acc acc run]
  have "sim_fds e' = sim_fds (sim_start 1 1)" .
  with run show ?thesis by (simp add: sim_start_fds)
qed

text \<open>
  C11.  Cancelling: a future that is dropped (by a timeout, a \<open>select!\<close>, the end of the runtime) is
  dropped while it is parked.  At every pause of a transfer, from its start to its end, the
  descriptors open are those from before and the ends the pipe still has, and dropping the transfer
  there, at once or after the surroundings have moved on, closes these ends and nothing else.
\<close>

theorem cancel_leaks_nothing:
  assumes "accounted pf r w park opened base (ctx io) e"
    and "pauses pf r w park (io, e) (io', e')"
  shows "opened e' = base \<union> pipe_fds (pipe (ctx io')) \<and>
    opened (drop_ctx (pf_os pf) (ctx io') e') = base \<and>
    opened (drop_ctx (pf_os pf) (ctx io') (park e')) = base"
  using cancel_pause_accounted [OF assms] by (intro conjI)

theorem cancel_leaks_nothing_witness:
  "\<exists>io' e'. pauses sim_platform sim_src sim_dst id (sim_io, sim_started 0 2) (io', e') \<and>
    sim_fds e' = {100, 101} \<union> sim_base \<and> sim_fds (drop_ctx sim_os (ctx io') e') = sim_base"
proof -
  from cancel_leaks_nothing [OF sim_accounted sim_paused [of 0]]
  have "sim_fds (drop_ctx sim_os (ctx sim_io) (sim_started 0 0)) = sim_base" by simp
  with sim_paused [of 0] sim_start_fds show ?thesis by blast
qed

text \<open>
  C12.  A fill attempt under the invariant: it never panics, it keeps the invariant, and its result
  announces exactly what it did.  \<open>Closed\<close> means the fill end is closed and there is nothing more
  to read; \<open>BytesWritten(n)\<close> means \<open>n\<close> bytes more were read; an error means nothing was.
\<close>

theorem try_splice_from_source_correct:
  assumes "splicer_moves (pf_ops pf) P r w pw pr" and "close_keeps (pf_os pf) P pw pr"
    and "ctx_inv P pw pr off0 T S D c e"
    and "is_source_done c \<Longrightarrow> bytes_read c = size_to_splice c"
  shows "\<exists>res c' e'. try_splice_from_source pf r c e = Val (res, c', e') \<and>
    ctx_inv P pw pr off0 T S D c' e' \<and> bytes_written c' = bytes_written c \<and>
    (case res of
       Ok Closed \<Rightarrow> is_source_done c' \<and> bytes_read c' = bytes_read c \<and> exhausted S c'
     | Ok NoProgress \<Rightarrow> False
     | Ok (BytesWritten n) \<Rightarrow> 0 < n \<and> bytes_read c' = bytes_read c + n \<and> pipe c' = pipe c
     | Err er \<Rightarrow> bytes_read c' = bytes_read c \<and> pipe c' = pipe c)"
proof -
  from from_source_ok [OF assms] obtain res c' e' where
    run: "try_splice_from_source pf r c e = Val (res, c', e')"
    and inv: "ctx_inv P pw pr off0 T S D c' e'" and eff: "fill_effect c res c'"
    by blast
  from eff ctx_invD(4) [OF inv] have "bytes_written c' = bytes_written c \<and>
    (case res of
       Ok Closed \<Rightarrow> is_source_done c' \<and> bytes_read c' = bytes_read c \<and> exhausted S c'
     | Ok NoProgress \<Rightarrow> False
     | Ok (BytesWritten n) \<Rightarrow> 0 < n \<and> bytes_read c' = bytes_read c + n \<and> pipe c' = pipe c
     | Err er \<Rightarrow> bytes_read c' = bytes_read c \<and> pipe c' = pipe c)"
    by (auto simp: fill_effect_def word_pos_iff split: result.splits splice_outcome.splits)
  with run inv show ?thesis by blast
qed

theorem try_splice_from_source_correct_witness:
  "\<exists>res c' e'. try_splice_from_source sim_platform 10 (ctx sim_io) (sim_started 0 0)
      = Val (res, c', e') \<and>
    ctx_inv sim_view 101 100 Off_None ISIZE_MAX sim_letter [] c' e' \<and> bytes_written c' = 0"
proof -
  have "\<not> is_source_done (ctx sim_io)" "bytes_written (ctx sim_io) = 0"
    by (simp_all add: sim_io_def io_from_def new_ctx_def sim_pipe_made_def rust_defs)
  moreover have "splicer_moves (pf_ops sim_platform) sim_view 10 11 101 100"
    "close_keeps (pf_os sim_platform) sim_view 101 100"
    using live_moves [OF sim_kernel_moves [of 10 100 11]] sim_close_keeps by simp_all
  ultimately show ?thesis
    using try_splice_from_source_correct [of sim_platform sim_view 10 11 101 100 Off_None ISIZE_MAX
        sim_letter "[]" "ctx sim_io" "sim_started 0 0"] sim_ctx_inv
    by fastforce
qed

text \<open>
  C13.  A drain attempt under the invariant: never a panic, the invariant kept, and a result that
  announces what was done.  It gives up (\<open>NoProgress\<close>) only on an empty pipe that can still be
  filled, fails only with bytes left in the pipe, and closes only when everything read is written.
\<close>

theorem try_splice_to_dest_correct:
  assumes "splicer_moves (pf_ops pf) P r w pw pr" and "close_keeps (pf_os pf) P pw pr"
    and "ctx_inv P pw pr off0 T S D c e" and "\<not> is_drain_done (pipe c)"
  shows "\<exists>res c' e'. try_splice_to_dest pf w c e = Val (res, c', e') \<and>
    ctx_inv P pw pr off0 T S D c' e' \<and> bytes_read c' = bytes_read c \<and>
    (case res of
       Ok Closed \<Rightarrow> is_drain_done (pipe c') \<and> is_finished c' \<and> bytes_written c' = bytes_written c
     | Ok NoProgress \<Rightarrow> v_buf P e = [] \<and> \<not> is_source_done c \<and> c' = c
     | Ok (BytesWritten n) \<Rightarrow> 0 < n \<and> bytes_written c' = bytes_written c + n \<and> pipe c' = pipe c
     | Err er \<Rightarrow> v_buf P e \<noteq> [] \<and> bytes_written c' = bytes_written c \<and> pipe c' = pipe c)"
proof -
  from to_dest_ok [OF assms] obtain res c' e' where
    run: "try_splice_to_dest pf w c e = Val (res, c', e')"
    and inv: "ctx_inv P pw pr off0 T S D c' e'" and eff: "drain_effect c res c'"
    by blast
  from eff pipe_predicates(1) [OF assms(3)] have "bytes_read c' = bytes_read c \<and>
    (case res of
       Ok Closed \<Rightarrow> is_drain_done (pipe c') \<and> is_finished c' \<and> bytes_written c' = bytes_written c
     | Ok NoProgress \<Rightarrow> v_buf P e = [] \<and> \<not> is_source_done c \<and> c' = c
     | Ok (BytesWritten n) \<Rightarrow> 0 < n \<and> bytes_written c' = bytes_written c + n \<and> pipe c' = pipe c
     | Err er \<Rightarrow> v_buf P e \<noteq> [] \<and> bytes_written c' = bytes_written c \<and> pipe c' = pipe c)"
    by (auto simp: drain_effect_def word_pos_iff split: result.splits splice_outcome.splits)
  with run inv show ?thesis by blast
qed

theorem try_splice_to_dest_correct_witness:
  "\<exists>res c' e'. try_splice_to_dest sim_platform 11 (ctx sim_io) (sim_started 0 0) = Val (res, c', e') \<and>
    ctx_inv sim_view 101 100 Off_None ISIZE_MAX sim_letter [] c' e' \<and> bytes_read c' = 0"
proof -
  have "\<not> is_drain_done (pipe (ctx sim_io))" "bytes_read (ctx sim_io) = 0"
    by (simp_all add: sim_io_def io_from_def new_ctx_def sim_pipe_made_def rust_defs)
  moreover have "splicer_moves (pf_ops sim_platform) sim_view 10 11 101 100"
    "close_keeps (pf_os sim_platform) sim_view 101 100"
    using live_moves [OF sim_kernel_moves [of 10 100 11]] sim_close_keeps by simp_all
  ultimately show ?thesis
    using try_splice_to_dest_correct [of sim_platform sim_view 10 11 101 100 Off_None ISIZE_MAX
        sim_letter "[]" "ctx sim_io" "sim_started 0 0"] sim_ctx_inv
    by fastforce
qed

text \<open>
  C14.  The build profile makes no difference: no counter overflows, so with overflow checks and
  without \<open>copy\<close> and \<open>sendfile\<close> do the same, call by call, whether they return, fail or never
  return, for every \<open>try_io\<close> that can only call its closure.
\<close>

theorem builds_agree:
  assumes "kernel_ok os P r w pw pr" and "blind_env P r w" and "park_keeps P park"
    and "\<And>p e1. pipe_new os e = (Ok p, e1) \<Longrightarrow> drain_fd p = Some pr \<and> fill_fd p = Some pw"
  shows "copy Release os r w park e = copy Dev os r w park e \<and>
    sendfile Release os r w park f_len s t e = sendfile Dev os r w park f_len s t e"
  using entry_profile [OF assms, where q = Release and prof = Dev] by simp

theorem builds_agree_witness:
  "copy Release sim_os sim_src sim_dst id (sim_start 3 2)
    = copy Dev sim_os sim_src sim_dst id (sim_start 3 2)"
proof -
  have made: "drain_fd p = Some 100 \<and> fill_fd p = Some 101"
    if "pipe_new sim_os (sim_start 3 2) = (Ok p, e1)" for p e1
    using that by (auto simp: sim_start_pipe sim_pipe_made_ends)
  show ?thesis
    by (rule builds_agree [OF sim_sockets_ok sim_blind sim_runtimeD(1), THEN conjunct1]) (rule made)
qed

text \<open>
  C15.  The \<open>unreachable!()\<close> in the fill arm of \<open>poll_execute\<close> is unreachable, whatever the
  \<open>Splicer\<close> does and whatever readiness says: for sockets, files and the mock alike, every result
  of the fill attempt has a next state.
\<close>

theorem fill_arm_reachable_only:
  assumes "try_io_iface (rd_try_io r)"
    and "rd_try_io r (try_splice_from_source pf (rd_fd r)) c e = Val (res, c', e')"
  shows "\<exists>st. after_fill res c' = Val st"
  by (rule try_io_iface.fill_arm_total [OF assms])

theorem fill_arm_reachable_only_witness:
  "\<exists>st. after_fill (Ok Closed) (fill_closed (ctx sim_io\<lparr>size_to_splice := 0\<rparr>)) = Val st"
proof -
  have io: "try_io_iface (rd_try_io (file_reader 50 :: (live, sim) reader))"
    using file_io.try_io_iface_axioms by (simp add: file_reader_def)
  have "rd_try_io (file_reader 50) (try_splice_from_source sim_platform (rd_fd (file_reader 50)))
      (ctx sim_io\<lparr>size_to_splice := 0\<rparr>) (sim_started 0 0)
    = Val (Ok Closed, fill_closed (ctx sim_io\<lparr>size_to_splice := 0\<rparr>),
        sys_close sim_os 101 (sim_started 0 0))"
    by (simp add: file_reader_def file_try_io_def sim_target_reached)
  from fill_arm_reachable_only [OF io this] show ?thesis .
qed

text \<open>
  C16.  The log of a transfer tells the truth.  In a build that traces, the transitions it mentions
  are one path of the state machine, from the state the transfer started in, which ends in
  \<open>Finished\<close> when there is no error; the bytes of its \<open>Drain\<close> events add up to what the transfer
  counts as written, and no more than what its \<open>Fill\<close> events add; and its last entry is the report.
\<close>

theorem trace_tells_transfer:
  assumes "transfer_env pf P r w pw pr" and "io_inv P pw pr off0 T S D io e"
    and "park_keeps P park" and "all_on ft (pf_profile pf)"
    and "traced_execute ft texts pf r w park io (e, []) = Some (Val (rep, e', log))"
  shows "(\<exists>z. path (state_name io) (hops log) z \<and> (report_error rep = None \<longrightarrow> z = ''Finished'')) \<and>
    unat (tx rep) = unat (bytes_written (ctx io)) + logged ''Drain'' log \<and>
    logged ''Drain'' log
      \<le> unat (bytes_read (ctx io)) - unat (bytes_written (ctx io)) + logged ''Fill'' log \<and>
    last log = Event L_Debug (Some ''splice transfer complete'')
      [(''tx'', V_Num (tx rep)), (''rx'', V_Num (rx rep)),
       (''error'', V_Debug (debug_option (debug_error texts) (report_error rep)))]"
  using traced_execute_path [OF assms(4,5)] traced_execute_last [OF assms(4,5)]
    traced_execute_counts [OF assms(1-3) all_onD(1) [OF assms(4)] assms(5)]
  by (intro conjI)

theorem trace_tells_transfer_witness:
  "\<exists>rep e' log. traced_execute sim_features sim_texts sim_platform sim_src sim_dst id sim_io
      (sim_started 1 1, []) = Some (Val (rep, e', log)) \<and>
    unat (tx rep) = logged ''Drain'' log \<and> (\<exists>z. path ''Fill'' (hops log) z)"
proof -
  obtain rep e' log where run: "traced_execute sim_features sim_texts sim_platform sim_src sim_dst id
      sim_io (sim_started 1 1, []) = Some (Val (rep, e', log))"
    using sim_traced_returns by blast
  have "bytes_written (ctx sim_io) = 0" "state_name sim_io = ''Fill''"
    by (simp_all add: sim_io_def io_from_def new_ctx_def rust_defs state_name_def)
  with trace_tells_transfer [OF sim_env sim_io_inv sim_runtimeD(1) sim_all_on run] run
  show ?thesis by auto
qed

text \<open>
  C17.  \<open>copy\<close> succeeds where nothing fails.  In surroundings where its two sockets are open, no peer
  resets, and only a call on a closed descriptor or on a socket already shut down could fail, every
  call that would block is waited out or worked around: \<open>copy\<close> returns, reports no error, and has
  delivered everything up to the end of the source (or \<open>isize::MAX\<close> bytes).
\<close>

theorem copy_completes:
  assumes "kernel_ok os P r w pw pr"
    and "runtime_ok (live_platform prof os) P r w pw pr park budget patience"
    and "pipe_new os e = (Ok p, e1)" and "drain_fd p = Some pr" and "fill_fd p = Some pw"
    and "healthy (live_platform prof os) P r w pw pr park opened sound unshut"
    and "{rd_fd r, wr_fd w} \<subseteq> opened e" and "sound e1" and "unshut e1"
  shows "\<exists>rep e'. copy prof os r w park e = Some (Val (Ok rep, e')) \<and> report_error rep = None \<and>
    unat (tx rep) = min (2 ^ 63 - 1) (length (v_src P None e)) \<and>
    v_dst P None e' = v_dst P None e @ take (2 ^ 63 - 1) (v_src P None e)"
proof -
  from copy_outcome [OF assms(1-5)] obtain rep e' where
    run: "copy prof os r w park e = Some (Val (Ok rep, e'))"
    and del: "delivered P Off_None ISIZE_MAX (v_src P None e) (v_dst P None e) rep e'"
    by blast
  have "park_keeps P park" using assms(2) by (simp add: runtime_ok_def)
  from copy_complete [OF assms(1) this assms(3-9) run] have none: "report_error rep = None" .
  with del have n: "unat (tx rep) = min (2 ^ 63 - 1) (length (v_src P None e))"
    and "v_dst P None e' = v_dst P None e @ take (unat (tx rep)) (v_src P None e)"
    by (simp_all add: delivered_def Let_def ISIZE_MAX_def)
  then have "v_dst P None e' = v_dst P None e @ take (2 ^ 63 - 1) (v_src P None e)"
    by (simp add: min_def)
  with run none n show ?thesis by blast
qed

theorem copy_completes_witness:
  "\<exists>rep e'. copy Dev sim_os sim_src sim_dst id (sim_start 2 3) = Some (Val (Ok rep, e')) \<and>
    report_error rep = None \<and> unat (tx rep) = 6 \<and> v_dst sim_view None e' = sim_letter"
proof -
  have h: "healthy (live_platform Dev sim_os) sim_view sim_src sim_dst 101 100 id sim_fds
      (\<lambda>_. True) (sim_unshut 11)"
    using sim_healthy [of 10 100 Dev 10 11 11] by simp
  have fds: "{rd_fd sim_src, wr_fd sim_dst} \<subseteq> sim_fds (sim_start 2 3)"
    by (simp add: fd_impl_defs sim_stream_def sim_start_fds)
  have "sim_unshut 11 (sim_started 2 3)"
    by (simp add: sim_unshut_def sim_started_def sim_start_def)
  from copy_completes [OF sim_sockets_ok sim_runtime(1) sim_start_pipe sim_pipe_made_ends h fds
      TrueI this]
  show ?thesis by simp
qed

text \<open>
  C18.  The two directions of a bidirectional transfer share one task, and neither sleeps where it
  cannot be woken usefully: at every pause, from the start to the end, unless the task has already
  woken itself, each direction that waits for its reader has an empty pipe, and each direction that
  waits for its writer has bytes to write or an end to deliver.  So no byte lies in either pipe while
  the task sleeps on the sources.  (C29 is the same for one direction alone.)
\<close>

theorem bidi_parks_where_needed:
  assumes "bidi_env pf1 pf2 L1 L2 sl sr" and "bidi_readiness pf1 pf2 L1 L2 sl sr woken park"
    and "park_keeps (ln_probe L1) park" and "park_keeps (ln_probe L2) park"
    and "bidi_pauses pf1 pf2 sl sr park (b, e) (b', e')"
    and "bidi_ok L1 L2 b e" and "parked_well (io_sl2sr b)" and "parked_well (io_sr2sl b)"
  shows "woken e' \<or>
    (case state (io_sl2sr b') of
       Fill \<Rightarrow> \<not> pipe_has_data (ctx (io_sl2sr b'))
     | Drain \<Rightarrow> pipe_has_data (ctx (io_sl2sr b')) \<or> is_source_done (ctx (io_sl2sr b'))
     | Finished _ \<Rightarrow> True) \<and>
    (case state (io_sr2sl b') of
       Fill \<Rightarrow> \<not> pipe_has_data (ctx (io_sr2sl b'))
     | Drain \<Rightarrow> pipe_has_data (ctx (io_sr2sl b')) \<or> is_source_done (ctx (io_sr2sl b'))
     | Finished _ \<Rightarrow> True)"
  using bidi_pauses_parked [OF assms] by (auto simp: bidi_parked_def parked_well_def)

theorem bidi_parks_where_needed_witness:
  "\<exists>e2 b' e'. pipe_new sim_os (sim_started 0 2) = (Ok sim_pipe_made2, e2) \<and>
    bidi_pauses sim_platform sim_platform (sim_endpoint 10) (sim_endpoint 11) id (sim_bidi, e2) (b', e') \<and>
    (case state (io_sl2sr b') of
       Fill \<Rightarrow> \<not> pipe_has_data (ctx (io_sl2sr b'))
     | Drain \<Rightarrow> pipe_has_data (ctx (io_sl2sr b')) \<or> is_source_done (ctx (io_sl2sr b'))
     | Finished _ \<Rightarrow> True)"
proof -
  obtain e2 where e2: "pipe_new sim_os (sim_started 0 (Suc (Suc 0))) = (Ok sim_pipe_made2, e2)"
    using sim_start_pipe2 by blast
  from sim_bidi_paused [OF this] obtain b' e' where paused: "bidi_pauses sim_platform sim_platform
      (sim_endpoint 10) (sim_endpoint 11) id (sim_bidi, e2) (b', e')" by blast
  let ?L1 = "lane_of (sim_probe 10 11 100) 101 100 (sim_start 0 (Suc (Suc 0)))"
  let ?L2 = "lane_of (sim_probe 11 10 102) 103 102 (sim_start 0 (Suc (Suc 0)))"
  have env: "bidi_env sim_platform sim_platform ?L1 ?L2 (sim_endpoint 10) (sim_endpoint 11)"
    using sim_bidi_runtime [unfolded bidi_runtime_def] by blast
  have fresh: "parked_well (io_sl2sr sim_bidi)" "parked_well (io_sr2sl sim_bidi)"
    by (simp_all add: parked_well_def sim_bidi_def io_from_def new_ctx_def rust_defs)
  have park: "park_keeps P id" for P :: "sim probe" by (simp add: park_keeps_def)
  from bidi_parks_where_needed [OF env sim_bidi_readiness park park paused sim_bidi_ok [OF e2] fresh]
  have "case state (io_sl2sr b') of
       Fill \<Rightarrow> \<not> pipe_has_data (ctx (io_sl2sr b'))
     | Drain \<Rightarrow> pipe_has_data (ctx (io_sl2sr b')) \<or> is_source_done (ctx (io_sl2sr b'))
     | Finished _ \<Rightarrow> True"
    by simp
  with e2 paused show ?thesis by (auto simp: numeral_2_eq_2)
qed

text \<open>
  C19.  \<open>calc_size_to_splice\<close> accepts exactly the sub-ranges of the file, and the length it returns
  is the exact number of bytes in the range: the subtraction never wraps around.
\<close>

theorem calc_size_exact:
  "calc_size_to_splice f_len s t = Ok n \<longleftrightarrow>
     unat (unwrap_or s 0) \<le> unat (unwrap_or t f_len) \<and>
     unat (unwrap_or t f_len) \<le> unat f_len \<and>
     unat (unwrap_or s 0) + unat n = unat (unwrap_or t f_len)"
  using calc_size_Ok_iff [of f_len s t n] by auto

text \<open>
  C20.  \<open>Pipe::new\<close> accounts for its descriptors: on success the two new ends are open, apart from
  each other and from everything else; on every failure, including the late ones, both ends it
  made are closed again.
\<close>

theorem pipe_new_accounts:
  assumes "fd_laws os opened"
  shows "case pipe_new os e of
      (Ok p, e') \<Rightarrow> opened e' = opened e \<union> pipe_fds p \<and> pipe_fds p \<inter> opened e = {} \<and>
        \<not> is_drain_done p \<and> \<not> is_fill_done p \<and> drain_fd p \<noteq> fill_fd p
    | (Err er, e') \<Rightarrow> opened e' = opened e"
proof -
  obtain x e' where new: "pipe_new os e = (x, e')" by (cases "pipe_new os e")
  show ?thesis
  proof (cases x)
    case (Ok p)
    from new Ok have ok: "pipe_new os e = (Ok p, e')" by simp
    obtain a b sz where "p = \<lparr>pipe_drain_fd = Some a, pipe_fill_fd = Some b, pipe_size_field = sz\<rparr>"
      by (rule pipe_new_ends [OF ok])
    with pipe_new_owns [OF assms ok] new Ok show ?thesis
      by (auto simp: owns_apart_def rust_defs)
  next
    case (Err er)
    with new pipe_new_opened_Err [OF assms] show ?thesis by simp
  qed
qed

theorem pipe_new_accounts_witness:
  "case pipe_new sim_os (sim_start 0 0) of
     (Ok p, e') \<Rightarrow> sim_fds e' = sim_base \<union> pipe_fds p \<and> \<not> is_drain_done p \<and> \<not> is_fill_done p
   | (Err er, e') \<Rightarrow> sim_fds e' = sim_base"
  using pipe_new_accounts [OF sim_fd_laws, of "sim_start 0 0"]
  by (simp add: sim_start_pipe sim_start_fds)

text \<open>
  C21.  A bidirectional transfer is two runs of the abstract machine, one for each direction, although
  the two share a task and a poll: what each destination has received when \<open>execute\<close> returns,
  everything dropped, is what the last view of its run has delivered, and as many bytes as the report
  counts for it.  A report without an error means that both runs are over; it does not say that
  neither has failed, because the error of a direction that fails while the other waits is lost (C24).
\<close>

theorem bidi_refines_streams:
  assumes "bidi_env pf1 pf2 L1 L2 sl sr"
    and "park_keeps (ln_probe L1) park" and "park_keeps (ln_probe L2) park"
    and "bidi_ok L1 L2 b e" and "bidi_execute pf1 pf2 sl sr park b e = Some (Val (rep, e'))"
  shows "\<exists>d1 d2. astep\<^sup>*\<^sup>* (aview_of (ln_probe L1) (io_sl2sr b) e) d1 \<and>
    astep\<^sup>*\<^sup>* (aview_of (ln_probe L2) (io_sr2sl b) e) d2 \<and>
    v_dst (ln_probe L1) None e' = a_dst d1 \<and> a_dst d1 = ln_dst L1 @ take (unat (tx rep)) (ln_src L1) \<and>
    v_dst (ln_probe L2) None e' = a_dst d2 \<and> a_dst d2 = ln_dst L2 @ take (unat (rx rep)) (ln_src L2) \<and>
    (report_error rep = None \<longrightarrow>
       (\<exists>er. a_phase d1 = Finished er) \<and> (\<exists>er. a_phase d2 = Finished er))"
  by (rule bidi_execute_refines [OF assms])

theorem bidi_refines_streams_witness:
  "\<exists>e2 rep e' d1 d2. pipe_new sim_os (sim_started 1 2) = (Ok sim_pipe_made2, e2) \<and>
    bidi_execute sim_platform sim_platform (sim_endpoint 10) (sim_endpoint 11) id sim_bidi e2
      = Some (Val (rep, e')) \<and>
    astep\<^sup>*\<^sup>* (aview_of (sim_probe 10 11 100) (io_sl2sr sim_bidi) e2) d1 \<and>
    astep\<^sup>*\<^sup>* (aview_of (sim_probe 11 10 102) (io_sr2sl sim_bidi) e2) d2 \<and>
    a_dst d1 = take (unat (tx rep)) sim_letter \<and> a_dst d2 = take (unat (rx rep)) sim_answer"
proof -
  obtain e2 where e2: "pipe_new sim_os (sim_started 1 2) = (Ok sim_pipe_made2, e2)"
    using sim_start_pipe2 by blast
  let ?L1 = "lane_of (sim_probe 10 11 100) 101 100 (sim_start 1 2)"
  let ?L2 = "lane_of (sim_probe 11 10 102) 103 102 (sim_start 1 2)"
  have env: "bidi_env sim_platform sim_platform ?L1 ?L2 (sim_endpoint 10) (sim_endpoint 11)"
    using sim_bidi_runtime [unfolded bidi_runtime_def] by blast
  have park: "park_keeps P id" for P :: "sim probe" by (simp add: park_keeps_def)
  from bidi_execute_outcome [OF sim_bidi_runtime sim_bidi_ok [OF e2]] obtain rep e' where
    run: "bidi_execute sim_platform sim_platform (sim_endpoint 10) (sim_endpoint 11) id sim_bidi e2
      = Some (Val (rep, e'))" by blast
  from bidi_refines_streams [OF env park park sim_bidi_ok [OF e2] run] e2 run
  show ?thesis by auto
qed

text \<open>
  C22.  What is delivered when a transfer is dropped at a pause: exactly the bytes it counts as
  written, the first ones of the source in their order.  What is lost are the bytes that were read
  and not yet written; the rest is still in the source.
\<close>

theorem cancelled_keeps_prefix:
  assumes "transfer_env pf P r w pw pr" and "io_inv P pw pr off0 T S D io e"
    and "park_keeps P park" and "pauses pf r w park (io, e) (io', e')"
  shows "let n = unat (bytes_written (ctx io')); m = unat (bytes_read (ctx io'))
    in n \<le> m \<and> m \<le> min (unat T) (length S) \<and>
       v_dst P (advanced (off_out off0) (bytes_written (ctx io')))
         (drop_ctx (pf_os pf) (ctx io') e') = D @ take n S \<and>
       v_src P (advanced (off_in off0) (bytes_read (ctx io'))) e' = drop m S"
  unfolding Let_def using cancelled_prefix [OF assms] by (intro conjI)

theorem cancelled_keeps_prefix_witness:
  "\<exists>io' e'. pauses sim_platform sim_src sim_dst id (sim_io, sim_started 0 2) (io', e') \<and>
    v_dst sim_view None (drop_ctx sim_os (ctx io') e')
      = take (unat (bytes_written (ctx io'))) sim_letter"
proof -
  from cancelled_keeps_prefix [OF sim_env sim_io_inv sim_runtimeD(1) sim_paused [of 0]]
  have "v_dst sim_view None (drop_ctx sim_os (ctx sim_io) (sim_started 0 0))
      = take (unat (bytes_written (ctx sim_io))) sim_letter"
    by (simp add: Let_def)
  with sim_paused [of 0] show ?thesis by blast
qed

text \<open>
  C23.  \<open>Pipe::with_pipe_size\<close>: on success the ends are as they were and the size is the one the
  kernel reported, never zero; on an error the pipe is gone and its descriptors are closed.
\<close>

theorem with_pipe_size_accounts:
  assumes "fd_laws os opened"
  shows "case pipe_with_pipe_size os p n e of
      (Ok p', e') \<Rightarrow> drain_fd p' = drain_fd p \<and> fill_fd p' = fill_fd p \<and> opened e' = opened e \<and>
        (\<exists>d. fill_fd p = Some d \<and> sys_setpipe_size os d n e = (Ok (nz_get (pipe_size p')), e'))
    | (Err er, e') \<Rightarrow> opened e' = opened e - pipe_fds p"
proof -
  obtain x e' where run: "pipe_with_pipe_size os p n e = (x, e')"
    by (cases "pipe_with_pipe_size os p n e")
  show ?thesis
  proof (cases x)
    case (Ok p')
    with run have ok: "pipe_with_pipe_size os p n e = (Ok p', e')" by simp
    then have "drain_fd p' = drain_fd p \<and> fill_fd p' = fill_fd p \<and>
      (\<exists>d. fill_fd p = Some d \<and> sys_setpipe_size os d n e = (Ok (nz_get (pipe_size p')), e'))"
      by (auto simp: pipe_with_pipe_size_def rust_defs nz_new_def
          split: option.splits prod.splits result.splits if_splits)
    with run Ok pipe_with_pipe_size_opened_Ok(2) [OF assms ok] show ?thesis by simp
  next
    case (Err er)
    with run pipe_with_pipe_size_opened_Err [OF assms] show ?thesis by simp
  qed
qed

theorem with_pipe_size_accounts_witness:
  "case pipe_with_pipe_size sim_os sim_pipe_made 4096 (sim_started 0 0) of
     (Ok p', e') \<Rightarrow> drain_fd p' = Some 100 \<and> sim_fds e' = {100, 101} \<union> sim_base
   | (Err er, e') \<Rightarrow> sim_fds e' = sim_base"
proof -
  have rest: "sim_fds (sim_started 0 0) - pipe_fds sim_pipe_made = sim_base"
    by (simp add: sim_start_fds sim_pipe_made_def pipe_fds_def insert_Diff_if)
  obtain x e' where run: "pipe_with_pipe_size sim_os sim_pipe_made 4096 (sim_started 0 0) = (x, e')"
    by (cases "pipe_with_pipe_size sim_os sim_pipe_made 4096 (sim_started 0 0)")
  from with_pipe_size_accounts [OF sim_fd_laws, where p = sim_pipe_made and n = 4096
      and e = "sim_started 0 0", unfolded rest run sim_pipe_made_ends]
  show ?thesis unfolding run by (cases x) (simp_all add: sim_start_fds)
qed

text \<open>
  C24.  \<open>SpliceBidiIo\<close> can lose an error.  When one direction hands out its error in a poll in which
  the other is still pending, the joint poll is pending; the error has been taken out of the
  state, so the next poll of that direction succeeds (once its shutdown does), and if the other
  direction is over by then \<open>execute\<close> reports no error at all.
\<close>

theorem bidi_loses_error:
  assumes "poll_execute pf1 (as_reader sl) (as_writer sr) (io_sl2sr b, e)
      = Some (Val (Ready (Err er), io1, e1))"
    and "state io1 = Finished None"
    and "poll_execute pf2 (as_reader sr) (as_writer sl) (io_sr2sl b, e1)
      = Some (Val (Pending, io2, e2))"
    and "wr_poll_shutdown (as_writer sr) (park e2) = (Ready (Ok ()), e3)"
    and "poll_execute pf2 (as_reader sr) (as_writer sl) (io2, e3)
      = Some (Val (Ready (Ok ()), io2', e4))"
  shows "\<exists>rep e'. bidi_execute pf1 pf2 sl sr park b e = Some (Val (rep, e')) \<and>
    report_error rep = None"
  using assms by (rule bidi_error_lost)

theorem bidi_loses_error_witness:
  "\<exists>rep e'. bidi_execute sim_platform sim_platform sim_slow_end sim_quick_end id
      \<lparr>io_sl2sr = sim_failed, io_sr2sl = sim_over\<rparr> (sim_start 0 1) = Some (Val (rep, e')) \<and>
    report_error rep = None"
proof (rule bidi_loses_error)
  show "poll_execute sim_platform (as_reader sim_slow_end) (as_writer sim_quick_end)
      (io_sl2sr \<lparr>io_sl2sr = sim_failed, io_sr2sl = sim_over\<rparr>, sim_start 0 1)
    = Some (Val (Ready (Err (Os EPIPE)), sim_over, sim_start 0 1))"
    by (simp add: sim_failed_polls)
  show "poll_execute sim_platform (as_reader sim_quick_end) (as_writer sim_slow_end)
      (io_sr2sl \<lparr>io_sl2sr = sim_failed, io_sr2sl = sim_over\<rparr>, sim_start 0 1)
    = Some (Val (Pending, sim_over, sim_start 0 0))"
    using sim_failed_polls(2) [of 0 0] by simp
  show "wr_poll_shutdown (as_writer sim_quick_end) (id (sim_start 0 0))
    = (Ready (Ok ()), sim_start 0 0)"
    by (simp add: sim_quick_end_def file_writer_def)
  show "poll_execute sim_platform (as_reader sim_quick_end) (as_writer sim_slow_end)
      (sim_over, sim_start 0 0) = Some (Val (Ready (Ok ()), sim_over, sim_start 0 0))"
    by (rule sim_failed_polls)
qed (rule sim_over_state)

text \<open>
  C25.  After the end of the source a write that moves nothing is a panic.  When the source has ended
  before the target was reached, bytes are still queued, and the writer's \<open>try_io\<close> calls a
  \<open>splice_out\<close> that returns 0 (against its contract), \<open>NoProgress\<close> leads back to filling; if the reader
  is then ready and its \<open>try_io\<close> calls the closure, \<open>poll_execute\<close> panics, because the fill end is
  gone, in every build and on every platform.
\<close>

theorem zero_write_after_end_panics:
  assumes "state io = Drain" and "is_source_done (ctx io)"
    and "bytes_read (ctx io) < size_to_splice (ctx io)"
    and "bytes_written (ctx io) < bytes_read (ctx io)" and "drain_fd (pipe (ctx io)) = Some d"
    and "wr_poll_ready w e = (Ready (Ok ()), e1)"
    and "wr_try_io w (try_splice_to_dest pf (wr_fd w)) (ctx io) e1
      = try_splice_to_dest pf (wr_fd w) (ctx io) e2"
    and "splice_out (pf_ops pf) (splicer (ctx io)) d (wr_fd w) (off_out (offset (ctx io)))
        (bytes_read (ctx io) - bytes_written (ctx io)) e2 = Val (Ok 0, off', s', e3)"
    and "rd_poll_ready r e3 = (Ready (Ok ()), e4)"
    and "\<And>c. rd_try_io r (try_splice_from_source pf (rd_fd r)) c e4
      = try_splice_from_source pf (rd_fd r) c e5"
  shows "poll_execute pf r w (io, e) = Some (Panic Expect_None)"
  by (rule zero_write_panics [OF assms])

theorem zero_write_after_end_panics_witness:
  "poll_execute (mock_platform Release sim_os) (world_source 3) (world_dest 4)
      (ended_io sim_pipe_made (script_out mock_splicer_new [Ok 0]) 400,
       scripted_world 3 4 [Ready (Ok ())] [CallInner] [Ready (Ok ())] [CallInner] (sim_start 0 0))
    = Some (Panic Expect_None)"
proof -
  let ?io = "ended_io sim_pipe_made (script_out mock_splicer_new [Ok 0]) 400"
  have "bytes_written (ctx ?io) < bytes_read (ctx ?io)" "drain_fd (pipe (ctx ?io)) = Some 100"
    by (simp_all add: ended_io_simps sim_pipe_made_ends)
  moreover have "splice_out (pf_ops (mock_platform Release sim_os)) (splicer (ctx ?io)) 100
      (wr_fd (world_dest 4)) off m w = Val (Ok 0, off, mock_splicer_new, w)" for off m w
    unfolding ended_io_simps by (rule scripted_zero_write)
  ultimately show ?thesis
    by (rule zero_write_after_end_panics [OF ended_io_simps(1,2,9) _ _ scripted_world_plays(2,4) _
          scripted_world_plays(1,3)])
qed

text \<open>
  C26.  So does a writer that would block once more when everything has been written.  When the source
  has ended before the target was reached, the pipe is empty, and the writer, although ready, answers
  that it would block, the arm for an empty pipe goes back to filling without asking whether the
  source has ended; if the reader is then ready and its \<open>try_io\<close> calls the closure, \<open>poll_execute\<close>
  panics.
\<close>

theorem blocked_writer_after_end_panics:
  assumes "state io = Drain" and "is_source_done (ctx io)"
    and "bytes_read (ctx io) < size_to_splice (ctx io)"
    and "bytes_written (ctx io) = bytes_read (ctx io)"
    and "wr_poll_ready w e = (Ready (Ok ()), e1)"
    and "wr_try_io w (try_splice_to_dest pf (wr_fd w)) (ctx io) e1 = Val (Err er, ctx io, e2)"
    and "would_block er"
    and "rd_poll_ready r e2 = (Ready (Ok ()), e3)"
    and "rd_try_io r (try_splice_from_source pf (rd_fd r)) (ctx io) e3
      = try_splice_from_source pf (rd_fd r) (ctx io) e4"
  shows "poll_execute pf r w (io, e) = Some (Panic Expect_None)"
  by (rule blocked_end_panics [OF assms])

theorem blocked_writer_after_end_panics_witness:
  "poll_execute (mock_platform Dev sim_os) (world_source 3) (world_dest 4)
      (ended_io sim_pipe_made mock_splicer_new 1000,
       scripted_world 3 4 [Ready (Ok ())] [CallInner] [Ready (Ok ())] [TryIo_WouldBlock] (sim_start 0 0))
    = Some (Panic Expect_None)"
proof -
  let ?io = "ended_io sim_pipe_made mock_splicer_new 1000"
  have "bytes_written (ctx ?io) = bytes_read (ctx ?io)" "would_block (Simple WouldBlock)"
    by (simp_all add: ended_io_simps)
  from blocked_writer_after_end_panics [OF ended_io_simps(1,2,9) this(1) scripted_world_plays(2,5) this(2)
      scripted_world_plays(1,3)]
  show ?thesis .
qed

text \<open>
  C27.  The same for both directions: at every pause of \<open>copy_bidirectional\<close>, dropping its two
  transfers leaves exactly the descriptors open that were open before it was called.
\<close>

theorem cancel_bidirectional_leaks_nothing:
  assumes "accounts (live_platform prof os) (as_reader sl) (as_writer sr) park opened"
    and "accounts (live_platform prof os) (as_reader sr) (as_writer sl) park opened"
    and "ctx_new os e = (Ok c1, e1)" and "ctx_new os e1 = (Ok c2, e2)"
    and "bidi_pauses (live_platform prof os) (live_platform prof os) sl sr park
      (\<lparr>io_sl2sr = io_from c1, io_sr2sl = io_from c2\<rparr>, e2) (b', e')"
  shows "opened (drop_bidi os os b' e') = opened e \<and> opened (drop_bidi os os b' (park e')) = opened e"
proof -
  from assms(3,4) obtain p1 p2 where new: "pipe_new os e = (Ok p1, e1)" "pipe_new os e1 = (Ok p2, e2)"
    and c: "c1 = new_ctx Live p1" "c2 = new_ctx Live p2"
    by (auto simp: ctx_new_def ctx_new_inner_def split: prod.splits result.splits)
  from bidi_cancel_accounted [OF fresh_bidi_accounted [OF assms(1,2) new] assms(5) [unfolded c]]
  show ?thesis by simp
qed

theorem cancel_bidirectional_leaks_nothing_witness:
  "\<exists>c1 e1 c2 e2 b' e'. ctx_new sim_os (sim_start 0 2) = (Ok c1, e1) \<and>
    ctx_new sim_os e1 = (Ok c2, e2) \<and>
    bidi_pauses sim_platform sim_platform (sim_endpoint 10) (sim_endpoint 11) id
      (\<lparr>io_sl2sr = io_from c1, io_sr2sl = io_from c2\<rparr>, e2) (b', e') \<and>
    sim_fds (drop_bidi sim_os sim_os b' e') = sim_base"
proof -
  let ?c1 = "new_ctx Live sim_pipe_made" and ?c2 = "new_ctx Live sim_pipe_made2"
  have new1: "ctx_new sim_os (sim_start 0 2) = (Ok ?c1, sim_started 0 2)"
    by (simp add: ctx_new_def ctx_new_inner_def sim_start_pipe)
  obtain e2 where e2: "pipe_new sim_os (sim_started 0 2) = (Ok sim_pipe_made2, e2)"
    using sim_start_pipe2 by blast
  then have new2: "ctx_new sim_os (sim_started 0 2) = (Ok ?c2, e2)"
    by (simp add: ctx_new_def ctx_new_inner_def)
  from sim_bidi_paused [of 0 0 e2] e2 obtain b' e' where paused: "bidi_pauses sim_platform sim_platform
      (sim_endpoint 10) (sim_endpoint 11) id (\<lparr>io_sl2sr = io_from ?c1, io_sr2sl = io_from ?c2\<rparr>, e2) (b', e')"
    by (auto simp: sim_bidi_def numeral_2_eq_2)
  have acc: "accounts (live_platform Dev sim_os) (as_reader (sim_endpoint a))
      (as_writer (sim_endpoint b)) id sim_fds" for a b
    by (simp add: sim_endpoint_def sim_accounts)
  from cancel_bidirectional_leaks_nothing [OF acc acc new1 new2 paused]
  have "sim_fds (drop_bidi sim_os sim_os b' e') = sim_base" by (simp add: sim_start_fds)
  with new1 new2 paused show ?thesis by blast
qed

text \<open>
  C28.  The pipe predicates tell the truth about the queue: \<open>pipe_has_data\<close> is that bytes are queued, and
  \<open>pipe_is_full\<close>, which subtracts the counters, never overflows and compares the exact number of
  queued bytes with the size of the pipe.
\<close>

theorem pipe_predicates_exact:
  assumes "ctx_inv P pw pr off0 T S D c e"
  shows "(pipe_has_data c \<longleftrightarrow> v_buf P e \<noteq> []) \<and>
    pipe_is_full prof c = Val (unat (nz_get (pipe_size (pipe c))) \<le> length (v_buf P e))"
  using pipe_predicates [OF assms] by blast

theorem pipe_predicates_exact_witness:
  "\<not> pipe_has_data (ctx sim_io) \<and> pipe_is_full Dev (ctx sim_io) = Val False"
  using pipe_predicates_exact [OF sim_ctx_inv, where prof = Dev]
  by (simp add: sim_io_def io_from_def new_ctx_def sim_pipe_made_def pipe_size_def)

text \<open>
  C29.  A waiting transfer waits on the side that can make it go on.  As long as a descriptor that
  was ready stays ready after a successful call (or the task has woken itself and finds it ready
  again), every state in which a transfer is parked, from its start to its end, is parked on the
  reader only with an empty pipe, and on the writer only with bytes to write or an end to deliver.
  So a transfer never sleeps on its source over bytes it could pass on.
\<close>

theorem transfer_parks_where_needed:
  assumes "transfer_env pf P r w pw pr" and "keeps_ready pf r w woken"
    and "wakes_ready r w woken park" and "park_keeps P park"
    and "pauses pf r w park (io, e) (io', e')"
    and "io_inv P pw pr off0 T S D io e" and "parked_well io"
  shows "woken e' \<or>
    (case state io' of
       Fill \<Rightarrow> \<not> pipe_has_data (ctx io')
     | Drain \<Rightarrow> pipe_has_data (ctx io') \<or> is_source_done (ctx io')
     | Finished _ \<Rightarrow> True)"
  using pauses_well [OF assms] by (simp add: parked_well_def)

theorem transfer_parks_where_needed_witness:
  "\<exists>io' e'. pauses sim_platform sim_src sim_dst id (sim_io, sim_started 0 2) (io', e') \<and>
    sim_waits e' = 0 \<and>
    (case state io' of
       Fill \<Rightarrow> \<not> pipe_has_data (ctx io')
     | Drain \<Rightarrow> pipe_has_data (ctx io') \<or> is_source_done (ctx io')
     | Finished _ \<Rightarrow> True)"
proof -
  have "parked_well sim_io"
    by (simp add: parked_well_def sim_io_def io_from_def new_ctx_def rust_defs)
  from transfer_parks_where_needed [OF sim_env sim_keeps_ready _ sim_runtimeD(1) sim_paused [of 0] sim_io_inv this]
  have "case state sim_io of
       Fill \<Rightarrow> \<not> pipe_has_data (ctx sim_io)
     | Drain \<Rightarrow> pipe_has_data (ctx sim_io) \<or> is_source_done (ctx sim_io)
     | Finished _ \<Rightarrow> True"
    by (simp add: wakes_ready_def)
  moreover have "sim_waits (sim_started 0 0) = 0" by (simp add: sim_started_def sim_start_def)
  ultimately show ?thesis using sim_paused [of 0] by blast
qed

text \<open>
  C30.  A transfer into a range of a file: with \<open>with_output_file\<close> the bytes before the range stay
  as they were (where the file was shorter, a hole of zeros is left before the range), the bytes from its start on are exactly the first \<open>tx\<close> bytes of the source, and no
  more than the range holds; without an error the range is full or the source is used up.
\<close>

theorem output_file_delivers:
  fixes content :: "'e \<Rightarrow> byte list"
  assumes "kernel_ok os P r w pw pr"
    and "runtime_ok (live_platform prof os) P r w pw pr park budget patience"
    and "pipe_new os e = (Ok p, e1)" and "drain_fd p = Some pr" and "fill_fd p = Some pw"
    and content: "\<And>x e. v_dst P (Some x) e = padded (unat x) (content e)"
    and range: "unwrap_or s 0 \<le> unwrap_or t f_len" "unwrap_or t f_len \<le> f_len"
  shows "\<exists>rep e'. run_from prof os r w park (ctx_with_output_file os f_len s t e)
      = Some (Val (Ok rep, e')) \<and>
    padded (unat (unwrap_or s 0) + unat (tx rep)) (content e')
      = padded (unat (unwrap_or s 0)) (content e) @ take (unat (tx rep)) (v_src P None e) \<and>
    tx rep \<le> unwrap_or t f_len - unwrap_or s 0 \<and>
    (report_error rep = None \<longrightarrow>
       unat (tx rep) = min (unat (unwrap_or t f_len - unwrap_or s 0)) (length (v_src P None e)))"
proof -
  let ?s = "unwrap_or s 0" and ?n = "unwrap_or t f_len - unwrap_or s 0"
  have "calc_size_to_splice f_len s t = Ok ?n"
    using range by (auto simp: calc_size_to_splice_def Let_def)
  from output_file_outcome [OF assms(1-5) this] obtain rep e' where
    run: "run_from prof os r w park (ctx_with_output_file os f_len s t e) = Some (Val (Ok rep, e'))"
    and del: "delivered P (Off_Out ?s) ?n (v_src P None e) (v_dst P (Some ?s) e) rep e'"
    by blast
  from del have le: "tx rep \<le> ?n"
    and dst: "v_dst P (Some (?s + tx rep)) e' = v_dst P (Some ?s) e @ take (unat (tx rep)) (v_src P None e)"
    and all: "report_error rep = None \<longrightarrow> unat (tx rep) = min (unat ?n) (length (v_src P None e))"
    by (simp_all add: delivered_def Let_def word_le_nat_alt)
  have "unat (?s + tx rep) = unat ?s + unat (tx rep)" using range(1) le by (rule unat_add_room)
  with run le dst all show ?thesis by (simp add: content)
qed

theorem output_file_delivers_witness:
  "\<exists>rep e'. run_from Dev sim_os sim_src (file_writer 51 sim_ready) id
        (ctx_with_output_file sim_os 9 (Some 7) (Some 9) (sim_start 2 1)) = Some (Val (Ok rep, e')) \<and>
    padded (7 + unat (tx rep)) (sim_file e' 51)
      = [21, 22, 23, 24, 25, 0, 0] @ take (unat (tx rep)) sim_letter \<and>
    tx rep \<le> 2 \<and> (report_error rep = None \<longrightarrow> unat (tx rep) = 2)"
proof -
  have "padded 7 (sim_file (sim_start 2 1) 51) = [21, 22, 23, 24, 25, 0, 0]"
    by (simp add: padded_def sim_start_def sim_answer_def numeral_2_eq_2)
  moreover have content: "v_dst (sim_probe 10 51 100) (Some x) e = padded (unat x) (sim_file e 51)"
    for x e by (simp add: sim_probe_def)
  ultimately show ?thesis
    using output_file_delivers [OF sim_out_file_ok sim_runtime(3) sim_start_pipe [of 2 1]
        sim_pipe_made_ends content, where prof = Dev and f_len = 9 and s = "Some 7" and t = "Some 9"]
    by simp
qed

text \<open>
  C31.  A full pipe can put a transfer to sleep for ever.  A fill attempt that finds the pipe full
  would block, and \<open>try_io\<close> takes that for an unready source and clears its readiness.  On a kernel
  that keeps its contract, with an edge-triggered reactor and a peer that waits for an answer,
  \<open>copy\<close> of anything longer than the pipe never returns: it is parked on the reader, the pipe is
  empty, and the source has bytes no new edge will announce.  (The peer of this machine never closes
  its side, so it is the state of the first poll, parked with unread bytes, that shows the defect.)
\<close>

theorem full_pipe_stalls:
  assumes "0 < cap" and "cap < length xs" and "cap \<le> 1048576"
  shows "kernel_ok (edge_os cap) edge_probe edge_src edge_dst 101 100 \<and>
    poll_execute (live_platform prof (edge_os cap)) edge_src edge_dst (edge_io 0 0 Fill, edge_start xs)
      = Some (Val (Pending, edge_io (of_nat cap) (of_nat cap) Fill, \<lparr>edge_in = drop cap xs,
          edge_pipe = [], edge_out = take cap xs, edge_ready = False\<rparr>)) \<and>
    copy prof (edge_os cap) edge_src edge_dst id (edge_start xs) = None"
  using edge_kernel_ok edge_first_poll [OF assms] edge_copy_sleeps [OF assms] by blast

theorem full_pipe_stalls_witness:
  "kernel_ok (edge_os 4) edge_probe edge_src edge_dst 101 100 \<and>
    copy Release (edge_os 4) edge_src edge_dst id (edge_start [1, 2, 3, 4, 5, 6]) = None"
  using full_pipe_stalls [of 4 "[1, 2, 3, 4, 5, 6]" Release] by simp

text \<open>
  C32.  A whole transfer is one run of the abstract machine: what \<open>execute\<close> has delivered when it
  returns, everything dropped, is what the last view of the run has delivered, and a report without
  an error means that the run has reached its end.
\<close>

theorem execute_refines_stream:
  assumes "transfer_env pf P r w pw pr" and "io_inv P pw pr off0 T S D io e"
    and "park_keeps P park" and "execute pf r w park io e = Some (Val (rep, e'))"
  shows "\<exists>b. astep\<^sup>*\<^sup>* (aview_of P io e) b \<and>
    v_dst P (advanced (off_out off0) (tx rep)) e' = a_dst b \<and>
    (report_error rep = None \<longrightarrow> a_phase b = Finished None)"
  by (rule execute_refines [OF assms])

theorem execute_refines_stream_witness:
  "\<exists>rep e' b. execute sim_platform sim_src sim_dst id sim_io (sim_started 2 5) = Some (Val (rep, e')) \<and>
    astep\<^sup>*\<^sup>* (aview_of sim_view sim_io (sim_started 2 5)) b \<and> v_dst sim_view None e' = a_dst b \<and>
    (report_error rep = None \<longrightarrow> a_phase b = Finished None)"
proof -
  obtain rep e' where run: "execute sim_platform sim_src sim_dst id sim_io (sim_started 2 5)
      = Some (Val (rep, e'))"
    using execute_returns [OF sim_env sim_io_inv sim_runtimeD] by blast
  with execute_refines_stream [OF sim_env sim_io_inv sim_runtimeD(1) run] show ?thesis by auto
qed

text \<open>
  C33.  \<open>with_target_len\<close> is a limit: a transfer with the target length \<open>n\<close> delivers at most \<open>n\<close>
  bytes, and without an error exactly \<open>n\<close>, or everything when the source has fewer.
\<close>

theorem target_len_delivers:
  assumes "kernel_ok os P r w pw pr"
    and "runtime_ok (live_platform prof os) P r w pw pr park budget patience"
    and "ctx_new os e = (Ok c, e1)" and "drain_fd (pipe c) = Some pr" and "fill_fd (pipe c) = Some pw"
  shows "\<exists>rep e'. run_from prof os r w park (Ok (ctx_with_target_len c n), e1)
      = Some (Val (Ok rep, e')) \<and>
    tx rep \<le> n \<and> v_dst P None e' = v_dst P None e @ take (unat (tx rep)) (v_src P None e) \<and>
    (report_error rep = None \<longrightarrow> unat (tx rep) = min (unat n) (length (v_src P None e)))"
  using target_len_outcome [OF assms, of n] by (auto simp: delivered_def Let_def word_le_nat_alt)

theorem target_len_delivers_witness:
  "\<exists>rep e'. run_from Dev sim_os sim_src sim_dst id
        (Ok (ctx_with_target_len (new_ctx Live sim_pipe_made) 4), sim_started 1 2)
      = Some (Val (Ok rep, e')) \<and>
    tx rep \<le> 4 \<and> v_dst sim_view None e' = take (unat (tx rep)) sim_letter \<and>
    (report_error rep = None \<longrightarrow> unat (tx rep) = 4)"
proof -
  have "ctx_new sim_os (sim_start 1 2) = (Ok (new_ctx Live sim_pipe_made), sim_started 1 2)"
    by (simp add: ctx_new_def ctx_new_inner_def sim_start_pipe)
  from target_len_delivers [OF sim_sockets_ok sim_runtime(1) this, where n = 4 and prof = Dev]
  show ?thesis by (simp add: new_ctx_def sim_pipe_made_ends)
qed

text \<open>
  C34.  The proxy's \<open>forwarding\<close>, once connected, moves the bytes of each side to the other, closes
  both streams and prints the exact number of bytes moved: the sum of the two counts overflows in no
  build.  Where nothing fails it prints no error, and everything each side sent has reached the other.
\<close>

theorem forwarding_delivers:
  fixes stream1 stream2 :: "'e tcp_stream"
  assumes "connect upstream_addr e = (Ok stream2, e0)"
    and "bidi_runtime (live_platform prof os) (live_platform prof os)
      (lane_of P1 pw1 pr1 e0) (lane_of P2 pw2 pr2 e0) stream1 stream2 park budget1 budget2 patience"
    and "pipe_new os e0 = (Ok p1, e1)" "drain_fd p1 = Some pr1" "fill_fd p1 = Some pw1"
    and "pipe_new os e1 = (Ok p2, e2)" "drain_fd p2 = Some pr2" "fill_fd p2 = Some pw2"
    and "{pr1, pw1} \<inter> {pr2, pw2} = {}"
    and "pipe_starts_empty os P1 pw1 pr1" "pipe_starts_empty os P2 pw2 pr2"
    and "pipe_elsewhere os P1 pw1 pr1" "pipe_elsewhere os P2 pw2 pr2"
    and "\<And>s e. s \<in> {stream1, stream2} \<Longrightarrow> same_view P1 e (drop_stream os s e) \<and>
      same_view P2 e (drop_stream os s e)"
  shows "\<exists>n1 n2 err total e'. forwarding prof os connect park stream1 upstream_addr e
      = Some (Val (Ok (), Some (Forwarded total err), e')) \<and>
    unat total = n1 + n2 \<and> n1 \<le> length (v_src P1 None e0) \<and> n2 \<le> length (v_src P2 None e0) \<and>
    v_dst P1 None e' = v_dst P1 None e0 @ take n1 (v_src P1 None e0) \<and>
    v_dst P2 None e' = v_dst P2 None e0 @ take n2 (v_src P2 None e0) \<and>
    (nothing_fails (live_platform prof os) (lane_of P1 pw1 pr1 e0) (lane_of P2 pw2 pr2 e0)
       stream1 stream2 park e0 e2 \<longrightarrow>
     err = None \<and> n1 = min (2 ^ 63 - 1) (length (v_src P1 None e0)) \<and>
     n2 = min (2 ^ 63 - 1) (length (v_src P2 None e0)))"
proof -
  from forwarding_outcome [where connect = connect, OF assms] obtain rep :: transfer_report and total e' where
    "forwarding prof os connect park stream1 upstream_addr e
      = Some (Val (Ok (), Some (Forwarded total (report_error rep)), e'))"
    "unat total = unat (tx rep) + unat (rx rep)"
    "sent (lane_of P1 pw1 pr1 e0) (tx rep) e'" "sent (lane_of P2 pw2 pr2 e0) (rx rep) e'"
    "nothing_fails (live_platform prof os) (lane_of P1 pw1 pr1 e0) (lane_of P2 pw2 pr2 e0)
       stream1 stream2 park e0 e2 \<longrightarrow>
     report_error rep = None \<and>
     unat (tx rep) = min (unat ISIZE_MAX) (length (v_src P1 None e0)) \<and>
     unat (rx rep) = min (unat ISIZE_MAX) (length (v_src P2 None e0))"
    by blast
  then show ?thesis
    by (intro exI [of _ "unat (tx rep)"] exI [of _ "unat (rx rep)"] exI [of _ "report_error rep"]
        exI [of _ total] exI [of _ e']) (simp add: sent_def ISIZE_MAX_def)
qed

theorem forwarding_delivers_witness:
  "\<exists>total e'. forwarding Dev sim_os sim_connect id (sim_endpoint 10) ''127.0.0.1:80''
        ((sim_start 3 4)\<lparr>sim_open := [10]\<rparr>) = Some (Val (Ok (), Some (Forwarded total None), e')) \<and>
    unat total = 11 \<and> v_dst (sim_probe 10 11 100) None e' = sim_letter \<and>
    v_dst (sim_probe 11 10 102) None e' = sim_answer"
proof -
  let ?off = "(sim_start 3 4)\<lparr>sim_open := [10]\<rparr>" and ?on = "(sim_start 3 4)\<lparr>sim_open := [11, 10]\<rparr>"
  have conn: "sim_connect ''127.0.0.1:80'' ?off = (Ok (sim_endpoint 11), ?on)"
    by (simp add: sim_connect_def sim_start_def)
  have fresh: "sim_fresh ?on = 100" by (simp add: sim_fresh_def)
  note new1 = sim_pipe_new [of ?on, unfolded fresh]
  let ?one = "?on\<lparr>sim_open := 100 # (100 + 1) # sim_open ?on, sim_pipe := (sim_pipe ?on)(100 := [])\<rparr>"
  have fresh2: "sim_fresh ?one = 102" by (simp add: sim_fresh_def)
  note new2 = sim_pipe_new [of ?one, unfolded fresh2]
  have views: "v_src (sim_probe 10 11 100) None ?on = sim_letter"
    "v_src (sim_probe 11 10 102) None ?on = sim_answer"
    "v_dst (sim_probe 10 11 100) None ?on = []" "v_dst (sim_probe 11 10 102) None ?on = []"
    by (simp_all add: sim_probe_def sim_start_def)
  let ?both = "?one\<lparr>sim_open := 102 # (102 + 1) # sim_open ?one, sim_pipe := (sim_pipe ?one)(102 := [])\<rparr>"
  have "nothing_fails (live_platform Dev sim_os) (lane_of (sim_probe 10 11 100) 101 100 ?on)
      (lane_of (sim_probe 11 10 102) 103 102 ?on) (sim_endpoint 10) (sim_endpoint 11) id ?on ?both"
    by (rule sim_nothing_fails) (simp_all add: sim_start_def)
  moreover
  have ends: "drain_fd \<lparr>pipe_drain_fd = Some 100, pipe_fill_fd = Some (100 + 1),
      pipe_size_field = MAXIMUM_PIPE_SIZE\<rparr> = Some 100"
    "fill_fd \<lparr>pipe_drain_fd = Some 100, pipe_fill_fd = Some (100 + 1),
      pipe_size_field = MAXIMUM_PIPE_SIZE\<rparr> = Some 101"
    "drain_fd \<lparr>pipe_drain_fd = Some 102, pipe_fill_fd = Some (102 + 1),
      pipe_size_field = MAXIMUM_PIPE_SIZE\<rparr> = Some 102"
    "fill_fd \<lparr>pipe_drain_fd = Some 102, pipe_fill_fd = Some (102 + 1),
      pipe_size_field = MAXIMUM_PIPE_SIZE\<rparr> = Some 103"
    by (simp_all add: drain_fd_def fill_fd_def)
  have apart: "{100, 101} \<inter> {102, 103 :: fd} = {}" by simp
  have views_kept: "same_view (sim_probe 10 11 100) e (drop_stream sim_os s e) \<and>
      same_view (sim_probe 11 10 102) e (drop_stream sim_os s e)" for s e
    by (simp add: sim_drop_stream_view)
  from forwarding_delivers [where connect = sim_connect, OF conn
      sim_bidi_runtime [where e = ?on and prof = Dev] new1 ends(1,2) new2 ends(3,4) apart
      sim_pipe_starts_empty sim_pipe_starts_empty sim_pipe_elsewhere sim_pipe_elsewhere views_kept,
      unfolded views]
  obtain n1 n2 err total e' where
    "forwarding Dev sim_os sim_connect id (sim_endpoint 10) ''127.0.0.1:80'' ?off
      = Some (Val (Ok (), Some (Forwarded total err), e'))"
    "unat total = n1 + n2" "v_dst (sim_probe 10 11 100) None e' = [] @ take n1 sim_letter"
    "v_dst (sim_probe 11 10 102) None e' = [] @ take n2 sim_answer"
    "nothing_fails (live_platform Dev sim_os) (lane_of (sim_probe 10 11 100) 101 100 ?on)
       (lane_of (sim_probe 11 10 102) 103 102 ?on) (sim_endpoint 10) (sim_endpoint 11) id ?on ?both \<longrightarrow>
     err = None \<and> n1 = min (2 ^ 63 - 1) (length sim_letter) \<and> n2 = min (2 ^ 63 - 1) (length sim_answer)"
    by blast
  ultimately show ?thesis by simp
qed

text \<open>
  C35.  \<open>forwarding\<close> leaves exactly the descriptors open that were open before, without the stream
  it was given: whether connecting fails, a pipe cannot be made, or the transfer ends in any way.
\<close>

theorem forwarding_leaks_nothing:
  fixes stream1 :: "'e tcp_stream"
  assumes "connects_one opened connect" and "fd_laws os opened"
    and "\<And>stream2 e e'. connect upstream_addr e = (Ok stream2, e') \<Longrightarrow>
      accounts (live_platform prof os) (as_reader stream1) (as_writer stream2) park opened \<and>
      accounts (live_platform prof os) (as_reader stream2) (as_writer stream1) park opened"
    and "forwarding prof os connect park stream1 upstream_addr e = Some (Val (res, line, e'))"
  shows "opened e' = opened e - {stream_fd stream1}"
  by (rule forwarding_accounted [where connect = connect, OF assms])

theorem forwarding_leaks_nothing_witness:
  "forwarding Dev sim_os sim_connect id (sim_endpoint 10) ''127.0.0.1:80''
      ((sim_start 0 0)\<lparr>sim_open := [10, 11]\<rparr>)
     = Some (Val (Err (Os EMFILE), Some (Connect_Failed (Os EMFILE)),
         (sim_start 0 0)\<lparr>sim_open := [11]\<rparr>)) \<and>
   sim_fds ((sim_start 0 0)\<lparr>sim_open := [11]\<rparr>)
     = sim_fds ((sim_start 0 0)\<lparr>sim_open := [10, 11]\<rparr>) - {10}"
proof -
  have run: "forwarding Dev sim_os sim_connect id (sim_endpoint 10) ''127.0.0.1:80''
      ((sim_start 0 0)\<lparr>sim_open := [10, 11]\<rparr>)
     = Some (Val (Err (Os EMFILE), Some (Connect_Failed (Os EMFILE)),
         (sim_start 0 0)\<lparr>sim_open := [11]\<rparr>))"
    by (simp add: forwarding_def sim_connect_def drop_stream_def stream_fd_def sim_endpoint_def
        fd_impl_defs sim_stream_def sim_os_def)
  have "stream_fd (sim_endpoint 10) = 10"
    by (simp add: stream_fd_def sim_endpoint_def fd_impl_defs sim_stream_def)
  with forwarding_leaks_nothing [OF sim_connects_one sim_fd_laws _ run] run show ?thesis
    using sim_accounts(1) by (auto simp: sim_connect_def sim_endpoint_def split: if_splits)
qed

text \<open>
  C36.  The proxy's \<open>serve\<close> spawns one task for each connection it accepts, in order, with the
  upstream address; it skips aborted connections, ends with the first other error, reports it, and
  closes its listener.
\<close>

theorem serve_spawns_all:
  assumes "bind listen_addr e = (Ok listener, e0)"
    and "accepts accept listener e0 rs e1" and "list_all goes_on rs"
    and "accept listener e1 = (Err er, e2)" and "\<not> conn_aborted er"
  shows "serve os bind accept listen_addr upstream_addr e
    = Some (Err er, tasks_for upstream_addr rs, sys_close os listener e2)"
  by (rule serve_spawns [where bind = bind and accept = accept, OF assms])

theorem serve_spawns_all_witness:
  "\<exists>e'. serve sim_os (\<lambda>addr e. (Ok 7, e)) sim_accept ''0.0.0.0:8080'' ''127.0.0.1:80'' (sim_start 0 3)
    = Some (Err (Os EMFILE),
        [(sim_endpoint 10, ''127.0.0.1:80''), (sim_endpoint 10, ''127.0.0.1:80'')], e')"
proof -
  let ?rs = "[Ok (sim_endpoint 10, ()), Err (Os ECONNABORTED), Ok (sim_endpoint 10, ())]"
  have step: "sim_accept 7 (sim_start 0 3) = (Ok (sim_endpoint 10, ()), sim_start 0 2)"
    "sim_accept 7 (sim_start 0 2) = (Err (Os ECONNABORTED), sim_start 0 1)"
    "sim_accept 7 (sim_start 0 1) = (Ok (sim_endpoint 10, ()), sim_start 0 0)"
    "sim_accept 7 (sim_start 0 0) = (Err (Os EMFILE), sim_start 0 0)"
    by (simp_all add: sim_accept_def sim_start_def)
  have run: "accepts sim_accept 7 (sim_start 0 3) ?rs (sim_start 0 0)"
    by (rule accepts_Cons, rule step(1), rule accepts_Cons, rule step(2), rule accepts_Cons,
      rule step(3), rule accepts_Nil)
  have on: "list_all goes_on ?rs" "\<not> conn_aborted (Os EMFILE)"
    by (simp_all add: goes_on_def conn_aborted_def ECONNABORTED_def EMFILE_def EAGAIN_def EINVAL_def)
  from serve_spawns_all [where bind = "\<lambda>addr e. (Ok 7, e)" and accept = sim_accept,
      OF refl run on(1) step(4) on(2)]
  show ?thesis by simp
qed

text \<open>
  C37.  The proxy stops on Ctrl-C, and not before.  Once its arguments are read, its logging is set up
  and its address is bound, it accepts connections for as long as the signal has not come; when it
  comes, after the accepts \<open>rs\<close>, the process returns with success, has spawned one task for each
  connection accepted until then, in order, and closes its listener.
\<close>

theorem proxy_main_stops:
  assumes "parse_args args = Val (Addresses listen_addr upstream_addr)"
    and "set_up_logging lg e = Val e0" and "startup_pipe_size os e0 = (Ok sz, e1)"
    and "\<not> ctrl_c e1" and "bind listen_addr e1 = (Ok listener, e2)"
    and "accepts accept listener e2 rs e3" and "list_all goes_on rs" and "ctrl_c e3"
    and "\<And>qs e'. accepts accept listener e2 qs e' \<Longrightarrow> length qs < length rs \<Longrightarrow> \<not> ctrl_c e'"
  shows "proxy_main lg os bind accept ctrl_c args e
    = Some (Val (Returned (Ok ()), tasks_for upstream_addr rs, sys_close os listener e3))"
  by (rule proxy_main_interrupted [where bind = bind and accept = accept and ctrl_c = ctrl_c,
      OF assms])

theorem proxy_main_stops_witness:
  "proxy_main sim_logging sim_os (\<lambda>addr e. (Ok 7, e)) sim_accept (\<lambda>e. sim_waits e = 1)
    [''proxy'', ''8080'', ''80''] (sim_start 0 3)
    = Some (Val (Returned (Ok ()), [(sim_endpoint 10, ''127.0.0.1:80'')], sim_start 0 1))"
proof -
  let ?rs = "[Ok (sim_endpoint 10, ()), Err (Os ECONNABORTED)]"
  have step: "sim_accept 7 (sim_start 0 3) = (Ok (sim_endpoint 10, ()), sim_start 0 2)"
    "sim_accept 7 (sim_start 0 2) = (Err (Os ECONNABORTED), sim_start 0 1)"
    by (simp_all add: sim_accept_def sim_start_def)
  have run: "accepts sim_accept 7 (sim_start 0 3) ?rs (sim_start 0 1)"
    by (rule accepts_Cons, rule step(1), rule accepts_Cons, rule step(2), rule accepts_Nil)
  have on: "list_all goes_on ?rs"
    by (simp add: goes_on_def conn_aborted_def ECONNABORTED_def EAGAIN_def EINVAL_def)
  have signal: "\<not> sim_waits (sim_start 0 3) = 1" "sim_waits (sim_start 0 1) = 1"
    by (simp_all add: sim_start_def)
  have before: "\<not> sim_waits e' = 1"
    if "accepts sim_accept 7 (sim_start 0 3) qs e'" "length qs < length ?rs" for qs e'
  proof -
    have waits: "sim_waits (sim_start 0 n) = n" for n by (simp add: sim_start_def)
    show ?thesis
      using that by (cases qs) (auto elim!: accepts_ConsE accepts_NilE simp: step(1) waits)
  qed
  have "sys_close sim_os 7 (sim_start 0 1) = sim_start 0 1"
    by (simp add: sim_os_def sim_start_def)
  with proxy_main_stops [where bind = "\<lambda>addr e. (Ok 7, e)" and accept = sim_accept and
      ctrl_c = "\<lambda>e. sim_waits e = 1", OF sim_args sim_logging_set_up sim_startup signal(1) refl run on
      signal(2) before]
  show ?thesis by simp
qed

text \<open>
  C38.  The whole proxy leaks no descriptor, however its tasks take turns.  In every state that its
  accept loop and its tasks can reach, in any order of polls, connections, failures and waits, it
  holds what it held after binding and at most six descriptors for each task that is not over; and
  when it is stopped there, its listener and the tasks dropped in any order, exactly the descriptors
  are open that were open before it bound its address.
\<close>

theorem proxy_leaks_nothing:
  assumes "network_laws os opened connect accept park"
    and "opened e1 = insert listener (opened e)" and "listener \<notin> opened e"
    and "proxy_run prof os connect park accept listener upstream_addr ([], e1) (ts, e2)"
    and "mset ts' = mset ts"
  shows "opened e1 \<subseteq> opened e2 \<and> card (opened e2 - opened e1) \<le> 6 * length ts \<and>
    opened (shut_down os listener ts' e2) = opened e"
proof -
  note accounted = proxy_accounted [OF assms(1-4)]
  have "set ts' = set ts" using assms(5) by (metis set_mset_mset)
  moreover have "opened e2 - opened e1 = tasks_fds ts" using accounted(1,2) by blast
  ultimately show ?thesis
    using accounted(1) accounted(3) [of ts'] card_tasks_fds [of ts] by simp
qed

theorem proxy_leaks_nothing_witness:
  "\<exists>b e2. proxy_run Dev sim_os sim_connect id sim_listen 7 ''127.0.0.1:80'' ([], sim_bound)
      ([Transferring (sim_endpoint 10) (sim_endpoint 11) b], e2) \<and>
    card (sim_fds e2 - {7}) \<le> 6 \<and>
    sim_fds (shut_down sim_os 7 [Transferring (sim_endpoint 10) (sim_endpoint 11) b] e2) = {}"
proof -
  obtain b e2 where run: "proxy_run Dev sim_os sim_connect id sim_listen 7 ''127.0.0.1:80''
      ([], sim_bound) ([Transferring (sim_endpoint 10) (sim_endpoint 11) b], e2)"
    using sim_proxy_run by blast
  let ?e = "(sim_start 0 2)\<lparr>sim_open := []\<rparr>"
  have "sim_fds sim_bound = insert 7 (sim_fds ?e)" "7 \<notin> sim_fds ?e"
    "sim_fds ?e = {}" "sim_fds sim_bound = {7}"
    by (simp_all add: sim_bound_def sim_start_def)
  from proxy_leaks_nothing [OF sim_network_laws this(1,2) run refl] run this(3,4) show ?thesis
    by auto
qed

text \<open>
  C39.  The command line round trip: two ports written in decimal come back, read and printed again,
  as the ports of the two addresses.
\<close>

theorem parse_args_roundtrip:
  "parse_args [prog, show_nat (unat (l :: u16)), show_nat (unat (u :: u16))]
     = Val (Addresses (''0.0.0.0:'' @ show_nat (unat l)) (''127.0.0.1:'' @ show_nat (unat u)))"
  by (simp add: parse_args_def parse_show_u16)

text \<open>
  C40.  The marker traits type the offsets: for every reader and writer type, references to any
  depth included (of the types of the crate and of tokio that \<open>io/fd.rs\<close> implements the traits for;
  the traits are open), exactly one constructor of \<open>SpliceCtx\<close> applies, and none for two files; so no
  file is spliced without an offset and no socket with one.
\<close>

theorem one_constructor_applies:
  "of_bool (new_bounds R W) + of_bool (with_input_file_bounds R W) +
     of_bool (with_output_file_bounds R W) = (if impl_is_file R \<and> impl_is_file W then 0 else 1 :: nat)"
  by (rule one_constructor)

section \<open>Further facts\<close>

text \<open>
  A fill attempt touches nothing of the drain side and a drain attempt nothing of the fill
  side, whatever the \<open>Splicer\<close> does, and only a successful move changes a counter.
\<close>

theorem attempts_touch_one_side:
  assumes "splicer_iface (pf_ops pf)"
    and "try_splice_from_source pf r c e = Val (res, c', e')"
    and "try_splice_to_dest pf w c2 e2 = Val (res2, c2', e2')"
  shows "bytes_written c' = bytes_written c \<and> drain_fd (pipe c') = drain_fd (pipe c) \<and>
    size_to_splice c' = size_to_splice c \<and> off_out (offset c') = off_out (offset c) \<and>
    (bytes_read c' \<noteq> bytes_read c \<longrightarrow> (\<exists>n. res = Ok (BytesWritten n))) \<and>
    bytes_read c2' = bytes_read c2 \<and> fill_fd (pipe c2') = fill_fd (pipe c2) \<and>
    size_to_splice c2' = size_to_splice c2 \<and> off_in (offset c2') = off_in (offset c2) \<and>
    (bytes_written c2' \<noteq> bytes_written c2 \<longrightarrow> (\<exists>n. res2 = Ok (BytesWritten n)))"
  using splicer_iface.source_frame [OF assms(1) refl assms(2)]
    splicer_iface.dest_frame [OF assms(1) refl assms(3)] by blast

theorem attempts_touch_one_side_witness:
  "\<exists>c' e'. try_splice_to_dest sim_platform 11 (ctx sim_io) (sim_started 0 0)
      = Val (Ok NoProgress, c', e') \<and> bytes_read c' = 0 \<and> fill_fd (pipe c') = Some 101"
proof -
  let ?e = "sim_started 0 0"
  have run2: "try_splice_to_dest sim_platform 11 (ctx sim_io) ?e = Val (Ok NoProgress, ctx sim_io, ?e)"
    by (simp add: try_splice_to_dest_def sim_io_def io_from_def new_ctx_def sim_pipe_made_def
        rust_defs)
  have "splicer_iface (pf_ops sim_platform)" by (simp add: live_trait.splicer_iface_axioms)
  from attempts_touch_one_side [OF this sim_target_reached [of 10 ?e] run2] run2 show ?thesis
    by (simp add: sim_io_def io_from_def new_ctx_def sim_pipe_made_def rust_defs)
qed

text \<open>
  The size a new pipe carries is one the kernel reported: what it granted when asked for the
  maximum, or, when that failed, what it says the pipe has.
\<close>

theorem pipe_size_reported:
  assumes "pipe_new os e = (Ok p, e')"
  shows "\<exists>d e1. drain_fd p = Some d \<and>
    (sys_setpipe_size os d 1048576 e1 = (Ok (nz_get (pipe_size p)), e') \<or>
     (\<exists>en e2. sys_setpipe_size os d 1048576 e1 = (Err en, e2) \<and>
        sys_getpipe_size os d e2 = (Ok (nz_get (pipe_size p)), e')))"
proof -
  from assms obtain a b e1 sz where
    "negotiate_size os a e1 = (Ok sz, e')"
    "p = \<lparr>pipe_drain_fd = Some a, pipe_fill_fd = Some b, pipe_size_field = sz\<rparr>"
    by (auto simp: pipe_new_def split: prod.splits result.splits)
  then show ?thesis
    using negotiate_size_reported [of os a e1 sz e'] by (auto simp: rust_defs)
qed

theorem pipe_size_reported_witness:
  "\<exists>d e1. drain_fd sim_pipe_made = Some d \<and>
    (sys_setpipe_size sim_os d 1048576 e1
       = (Ok (nz_get (pipe_size sim_pipe_made)), sim_started 0 0) \<or>
     (\<exists>en e2. sys_setpipe_size sim_os d 1048576 e1 = (Err en, e2) \<and>
        sys_getpipe_size sim_os d e2 = (Ok (nz_get (pipe_size sim_pipe_made)), sim_started 0 0)))"
  by (rule pipe_size_reported [OF sim_start_pipe])

text \<open>
  The unit test \<open>partial_write_parks_on_writer\<close>: with bytes left in the pipe the transfer
  parks on the writer.
\<close>

theorem partial_write_parks_on_writer:
  assumes "pipe_new os k = (Ok p, k')"
  shows "\<exists>io w. partial_write_run prof os d1 d2 k = Some (Val (Pending, io, w)) \<and>
    state_name io = ''Drain'' \<and> bytes_read (io_deref io) = 8000 \<and>
    bytes_written (io_deref io) = 3000"
  by (rule partial_write_result [OF assms])

theorem partial_write_parks_on_writer_witness:
  "\<exists>io w. partial_write_run Dev sim_os 3 4 (sim_start 0 0) = Some (Val (Pending, io, w)) \<and>
    state_name io = ''Drain'' \<and> bytes_read (io_deref io) = 8000 \<and>
    bytes_written (io_deref io) = 3000"
  by (rule partial_write_parks_on_writer [OF sim_start_pipe])

text \<open>The unit test \<open>clean_drain_finishes\<close>: everything in, everything out, end of file.\<close>

theorem clean_drain_finishes:
  assumes "pipe_new os k = (Ok p, k')"
  shows "\<exists>io w. clean_drain_run prof os d1 d2 k = Some (Val (Ready (Ok ()), io, w)) \<and>
    bytes_read (io_deref io) = 1000 \<and> bytes_written (io_deref io) = 1000 \<and>
    state io = Finished None"
  by (rule clean_drain_result [OF assms])

theorem clean_drain_finishes_witness:
  "\<exists>io w. clean_drain_run Release sim_os 3 4 (sim_start 0 0) = Some (Val (Ready (Ok ()), io, w)) \<and>
    bytes_read (io_deref io) = 1000 \<and> bytes_written (io_deref io) = 1000 \<and>
    state io = Finished None"
  by (rule clean_drain_finishes [OF sim_start_pipe])

text \<open>
  \<open>serve\<close> has no other way out: as long as no accept fails for good, it never returns.
\<close>

theorem serve_never_ends:
  assumes "bind listen_addr e = (Ok listener, e0)" and "never_fails accept listener"
  shows "serve os bind accept listen_addr upstream_addr e = None"
  by (rule serve_endless [where bind = bind and accept = accept, OF assms])

theorem serve_never_ends_witness:
  "serve sim_os (\<lambda>addr e. (Ok 7, e)) (\<lambda>l e. (Ok (sim_endpoint 10, ()), e)) ''0.0.0.0:8080''
    ''127.0.0.1:80'' (sim_start 0 3) = None"
  by (rule serve_never_ends [where bind = "\<lambda>addr e. (Ok 7, e)" and
      accept = "\<lambda>l e. (Ok (sim_endpoint 10, ()), e)", OF refl])
    (simp add: never_fails_def goes_on_def)

text \<open>\<open>sendfile\<close> with a range the file does not have reports \<open>InvalidInput\<close> and touches nothing.\<close>

theorem sendfile_rejects_bad_range:
  assumes "unwrap_or t f_len < unwrap_or s 0 \<or> f_len < unwrap_or t f_len"
  shows "sendfile prof os r w park f_len s t e =
    Some (Val (Err (Custom InvalidInput ''invalid offset range''), e))"
  by (rule sendfile_bad_range [OF assms])

theorem sendfile_rejects_bad_range_witness:
  "sendfile Dev sim_os (file_reader 50) sim_dst id 7 (Some 5) (Some 4) (sim_start 0 0) =
    Some (Val (Err (Custom InvalidInput ''invalid offset range''), sim_start 0 0))"
  by (rule sendfile_rejects_bad_range) simp

text \<open>
  What the command line leads to, for every argument list: addresses for two decimal numerals of
  numbers below \<open>2 ^ 16\<close>, a panic for anything else in their place, and the exit status 2 for a wrong
  number of arguments, except that the usage line itself panics when there is not even a program name.
\<close>

theorem parse_args_behaviour:
  "parse_args args =
     (case args of
        [] \<Rightarrow> Panic Index_Bounds
      | [prog, s, t] \<Rightarrow>
          if is_port s \<and> is_port t
          then Val (Addresses (''0.0.0.0:'' @ show_nat (decimal 0 (strip_plus s)))
                              (''127.0.0.1:'' @ show_nat (decimal 0 (strip_plus t))))
          else Panic Unwrap_Err
      | _ \<Rightarrow> Val (Exit 2))"
  by (rule parse_args_cases)

text \<open>Both unit tests pass, assertions and all.\<close>

theorem unit_tests_pass:
  assumes "pipe_new os k = (Ok p, k')"
  shows "partial_write_test prof os d1 d2 k = Some (Val ()) \<and>
    clean_drain_test prof os d1 d2 k = Some (Val ())"
  by (rule conjI [OF tests_pass(1) [OF assms] tests_pass(2) [OF assms]])

end
